(* ===== verification/Prelude.thy ===== *)
theory Prelude
  imports Complex_Main
begin

text \<open>
  What every component shares: the outcome of a Go call (a value, an error value or a run-time
  panic), Go's error values and \<^verbatim>\<open>errors.Is\<close>, slices with checked indices, the 64-bit
  \<^verbatim>\<open>int\<close>, and the generic lemmas on lists the component proofs use. The collections
  \<open>go_simps\<close> (evaluation of outcomes, errors and indices) and \<open>f64_simps\<close> (the
  IEEE-754 arithmetic of the theory \<open>Float64\<close>) carry the automation.
\<close>

named_theorems go_simps \<open>rewriting of outcomes, errors and checked indices\<close>
named_theorems f64_simps \<open>evaluation of float64 operations\<close>

section \<open>Error values\<close>

text \<open>
  A message is a list of fragments: literal text and the operands of \<^verbatim>\<open>%q\<close>, which are kept
  unquoted (quoting is \<^verbatim>\<open>strconv.Quote\<close>, applied when a message is rendered).
  An error is a sentinel made by \<^verbatim>\<open>errors.New\<close> (its text identifies it), an error of a
  driver or a library, or the value of \<^verbatim>\<open>fmt.Errorf\<close> with its text and the operands of
  its \<^verbatim>\<open>%w\<close> verbs.
\<close>

datatype frag = Lit string | Q string

type_synonym msg = "frag list"

datatype gerror = Sentinel string | Foreign string | Errorf msg "gerror list"

fun Error_text :: "gerror \<Rightarrow> msg" where
  "Error_text (Sentinel s) = [Lit s]"
| "Error_text (Foreign s) = [Lit s]"
| "Error_text (Errorf m es) = m"

fun errors_Is :: "gerror \<Rightarrow> gerror \<Rightarrow> bool" where
  "errors_Is (Sentinel s) t = (t = Sentinel s)"
| "errors_Is (Foreign s) t = (t = Foreign s)"
| "errors_Is (Errorf m es) t = (t = Errorf m es \<or> list_ex (\<lambda>e. errors_Is e t) es)"

text \<open>\<^verbatim>\<open>fmt.Errorf("<text>: %w", err)\<close> and \<^verbatim>\<open>fmt.Errorf("%w: %v", s, err)\<close>.\<close>

definition wrap_text :: "string \<Rightarrow> gerror \<Rightarrow> gerror" where
  "wrap_text s e = Errorf (Lit (s @ '': '') # Error_text e) [e]"

definition wrap_sentinel :: "gerror \<Rightarrow> gerror \<Rightarrow> gerror" where
  "wrap_sentinel s e = Errorf (Error_text s @ [Lit '': ''] @ Error_text e) [s]"

lemma errors_Is_refl [simp]: "errors_Is e e"
  by (cases e) auto

lemma errors_Is_Sentinel_iff [go_simps]:
  "errors_Is (wrap_text s e) (Sentinel t) = errors_Is e (Sentinel t)"
  "errors_Is (wrap_sentinel c e) (Sentinel t) = errors_Is c (Sentinel t)"
  by (simp_all add: wrap_text_def wrap_sentinel_def)

section \<open>Outcomes\<close>

datatype ('e, 'a) outcome = Ok 'a | Err 'e | Panic

type_synonym 'a res = "(gerror, 'a) outcome"

fun obind :: "('e, 'a) outcome \<Rightarrow> ('a \<Rightarrow> ('e, 'b) outcome) \<Rightarrow> ('e, 'b) outcome" where
  "obind (Ok x) f = f x"
| "obind (Err e) f = Err e"
| "obind Panic f = Panic"

fun is_Ok :: "('e, 'a) outcome \<Rightarrow> bool" where
  "is_Ok (Ok x) = True"
| "is_Ok _ = False"

lemma obind_assoc [go_simps]: "obind (obind m f) g = obind m (\<lambda>x. obind (f x) g)"
  by (cases m) auto

lemma obind_eq_Ok: "obind m f = Ok y \<longleftrightarrow> (\<exists>x. m = Ok x \<and> f x = Ok y)"
  by (cases m) auto

lemma obind_eq_Err: "obind m f = Err e \<longleftrightarrow> m = Err e \<or> (\<exists>x. m = Ok x \<and> f x = Err e)"
  by (cases m) auto

lemma obind_eq_Panic: "obind m f = Panic \<longleftrightarrow> m = Panic \<or> (\<exists>x. m = Ok x \<and> f x = Panic)"
  by (cases m) auto

lemma obind_cong [fundef_cong]:
  "m = m' \<Longrightarrow> (\<And>x. m' = Ok x \<Longrightarrow> f x = f' x) \<Longrightarrow> obind m f = obind m' f'"
  by (cases m') auto

lemma is_Ok_iff: "is_Ok m \<longleftrightarrow> (\<exists>x. m = Ok x)"
  by (cases m) auto

section \<open>Go's int\<close>

text \<open>
  \<^verbatim>\<open>int\<close> and \<^verbatim>\<open>int64\<close> are 64-bit two's complement; \<open>wrap64\<close> is the value a sum
  or a product keeps. Lengths and loop indices stay below the length of a slice, which is below
  \<open>2^63\<close>, and need no wrapping.
\<close>

definition wrap64 :: "int \<Rightarrow> int" where
  "wrap64 n = (n + 2 ^ 63) mod 2 ^ 64 - 2 ^ 63"

definition max_int :: int where "max_int = 2 ^ 63 - 1"

lemma wrap64_id: "- (2 ^ 63) \<le> n \<Longrightarrow> n \<le> max_int \<Longrightarrow> wrap64 n = n"
  by (simp add: wrap64_def max_int_def)

lemma wrap64_range: "- (2 ^ 63) \<le> wrap64 n \<and> wrap64 n \<le> max_int"
  by (simp add: wrap64_def max_int_def)

section \<open>Slices\<close>

text \<open>
  \<open>len\<close> is Go's \<^verbatim>\<open>len\<close>; \<open>idx xs i\<close> reads \<^verbatim>\<open>xs[i]\<close> and \<open>upd xs i v\<close> writes
  it, panicking outside the slice; \<open>slice xs i j\<close> is \<^verbatim>\<open>xs[i:j]\<close>.
\<close>

definition len :: "'a list \<Rightarrow> int" where
  "len xs = int (length xs)"

definition idx :: "'a list \<Rightarrow> int \<Rightarrow> ('e, 'a) outcome" where
  "idx xs i = (if 0 \<le> i \<and> i < len xs then Ok (xs ! nat i) else Panic)"

definition upd :: "'a list \<Rightarrow> int \<Rightarrow> 'a \<Rightarrow> ('e, 'a list) outcome" where
  "upd xs i v = (if 0 \<le> i \<and> i < len xs then Ok (xs[nat i := v]) else Panic)"

definition slice :: "'a list \<Rightarrow> int \<Rightarrow> int \<Rightarrow> ('e, 'a list) outcome" where
  "slice xs i j = (if 0 \<le> i \<and> i \<le> j \<and> j \<le> len xs
                   then Ok (take (nat j - nat i) (drop (nat i) xs)) else Panic)"

text \<open>\<^verbatim>\<open>make([]T, n)\<close> panics on a negative length.\<close>

definition make :: "'a \<Rightarrow> int \<Rightarrow> ('e, 'a list) outcome" where
  "make z n = (if 0 \<le> n then Ok (replicate (nat n) z) else Panic)"

lemma len_simps [go_simps]:
  "len [] = 0" "len (x # xs) = len xs + 1" "0 \<le> len xs" "nat (len xs) = length xs"
  "len xs = 0 \<longleftrightarrow> xs = []" "len xs \<le> 0 \<longleftrightarrow> xs = []"
  by (auto simp: len_def)

lemma idx_Ok [go_simps]: "0 \<le> i \<Longrightarrow> i < len xs \<Longrightarrow> idx xs i = Ok (xs ! nat i)"
  by (simp add: idx_def)

lemma idx_int: "n < length xs \<Longrightarrow> idx xs (int n) = Ok (xs ! n)"
  by (simp add: idx_def len_def)

lemma upd_int: "n < length xs \<Longrightarrow> upd xs (int n) v = Ok (xs[n := v])"
  by (simp add: upd_def len_def)

lemma slice_int:
  "i \<le> j \<Longrightarrow> j \<le> length xs \<Longrightarrow> slice xs (int i) (int j) = Ok (take (j - i) (drop i xs))"
  by (simp add: slice_def len_def)

lemma make_int: "make z (int n) = Ok (replicate n z)"
  by (simp add: make_def)

text \<open>The value of an array that a loop fills from the left.\<close>

lemma list_update_fill:
  "length xs = k \<Longrightarrow> (xs @ replicate (Suc n) z)[k := v] = (xs @ [v]) @ replicate n z"
  by (simp add: list_update_append)

section \<open>Counting loops\<close>

text \<open>
  \<open>for_range lo hi body s\<close> is \<^verbatim>\<open>for i := lo; i < hi; i++ { body }\<close> over the state \<open>s\<close> of the
  variables the body assigns; an error or a panic of the body ends the loop.
\<close>

function for_range :: "int \<Rightarrow> int \<Rightarrow> (int \<Rightarrow> 's \<Rightarrow> ('e, 's) outcome) \<Rightarrow> 's \<Rightarrow> ('e, 's) outcome" where
  "for_range lo hi body s =
     (if lo < hi then obind (body lo s) (for_range (lo + 1) hi body) else Ok s)"
  by pat_completeness auto
termination by (relation "measure (\<lambda>(lo, hi, body, s). nat (hi - lo))") auto

declare for_range.simps [simp del]

text \<open>Total correctness of a loop: an invariant that every round establishes for the next index.\<close>

lemma for_range_inv:
  assumes "lo \<le> hi" and "I lo s"
    and "\<And>i s. lo \<le> i \<Longrightarrow> i < hi \<Longrightarrow> I i s \<Longrightarrow> \<exists>s'. body i s = Ok s' \<and> I (i + 1) s'"
  shows "\<exists>s'. for_range lo hi body s = Ok s' \<and> I hi s'"
  using assms
proof (induction lo hi body s rule: for_range.induct)
  case (1 lo hi body s)
  show ?case
  proof (cases "lo < hi")
    case True
    with 1(3,4) obtain s' where s': "body lo s = Ok s'" "I (lo + 1) s'" by blast
    have "\<exists>t. for_range (lo + 1) hi body s' = Ok t \<and> I hi t"
      using True s' 1(4) by (intro "1.IH") auto
    with True s' show ?thesis by (subst for_range.simps) simp
  next
    case False
    with 1(2,3) show ?thesis by (subst for_range.simps) auto
  qed
qed

lemma for_range_done [go_simps]: "hi \<le> lo \<Longrightarrow> for_range lo hi body s = Ok s"
  by (subst for_range.simps) simp

lemma for_range_step [go_simps]:
  "lo < hi \<Longrightarrow> for_range lo hi body s = obind (body lo s) (for_range (lo + 1) hi body)"
  by (subst for_range.simps) simp

text \<open>A loop that writes each cell of an array once, in order, computes a map.\<close>

lemma for_range_fill:
  assumes body: "\<And>k out. k < n \<Longrightarrow> length out = n \<Longrightarrow> body (a + int k) out = Ok (out[k := h k])"
    and out: "length out = n" and hi: "hi = a + int n"
  shows "for_range a hi body out = Ok (map h [0..<n])"
proof -
  let ?I = "\<lambda>i xs. length xs = n \<and> (\<forall>k < n. a + int k < i \<longrightarrow> xs ! k = h k)"
  have "\<exists>xs. for_range a hi body out = Ok xs \<and> ?I hi xs"
  proof (rule for_range_inv [where I = ?I])
    fix i xs assume i: "a \<le> i" "i < hi" and I: "?I i xs"
    define k where "k = nat (i - a)"
    then have k: "i = a + int k" "k < n" using i hi by auto
    then have "body i xs = Ok (xs[k := h k])" using body I by simp
    moreover have "?I (i + 1) (xs[k := h k])" using I k by (auto simp: nth_list_update)
    ultimately show "\<exists>s'. body i xs = Ok s' \<and> ?I (i + 1) s'" by blast
  qed (use out hi in auto)
  then obtain xs where "for_range a hi body out = Ok xs" "?I hi xs" by blast
  moreover have "xs = map h [0..<n]"
    using \<open>?I hi xs\<close> hi by (intro nth_equalityI) auto
  ultimately show ?thesis by simp
qed

end
