(* ===== verification/Float64.thy ===== *)
theory Float64
  imports Prelude
begin

text \<open>
  Go's \<^verbatim>\<open>float64\<close>: IEEE-754 binary64 with rounding to nearest, ties to even, as an executable
  model. A finite value is a sign and a rational magnitude, so the two zeros are distinct values;
  \<open>wf64\<close> says that the magnitude is one of the representable ones. Each operation computes the
  exact rational result and rounds it once; fused multiply-add, which the language permits and
  amd64 does not use by default, is not modelled.
  The locale \<open>rounding\<close> is the interface the numeric proofs rest on (monotone, odd, the
  identity on representable values); \<open>rv\<close>, the signed rounding of this model, interprets it.
\<close>

section \<open>Rounding to 53 bits\<close>

text \<open>
  \<open>rne\<close> rounds to the nearest integer, ties to even; \<open>flog2\<close> is the binary logarithm rounded
  down; \<open>ulp_exp\<close> is the exponent of the unit in the last place (at least -1074, the subnormal
  one); \<open>rmag\<close> rounds a magnitude.
\<close>

definition rne :: "rat \<Rightarrow> int" where
  "rne x = (let f = \<lfloor>x\<rfloor>; d = x - of_int f
            in if d < 1/2 then f else if 1/2 < d then f + 1 else if even f then f else f + 1)"

function ilog2 :: "int \<Rightarrow> int" where
  "ilog2 n = (if n < 2 then 0 else 1 + ilog2 (n div 2))"
  by pat_completeness auto
termination by (relation "measure nat") auto

declare ilog2.simps [simp del]

definition flog2 :: "rat \<Rightarrow> int" where
  "flog2 q = (if 1 \<le> q then ilog2 \<lfloor>q\<rfloor> else - (ilog2 (\<lceil>1 / q\<rceil> - 1) + 1))"

definition ulp_exp :: "rat \<Rightarrow> int" where
  "ulp_exp q = max (-1074) (flog2 q - 52)"

definition rmag :: "rat \<Rightarrow> rat" where
  "rmag q = of_int (rne (q / 2 powi ulp_exp q)) * 2 powi ulp_exp q"

definition representable :: "rat \<Rightarrow> bool" where
  "representable r \<longleftrightarrow> (\<exists>m e. 0 \<le> m \<and> m < 2 ^ 53 \<and> -1074 \<le> e \<and> r = of_int m * 2 powi e)"

lemma pow2_less_imp: "(2::rat) powi a < 2 powi b \<Longrightarrow> a < b"
  using power_int_increasing [of b a "2::rat"] by (cases "b \<le> a") auto

lemma representableI:
  "r = of_int m * 2 powi e \<Longrightarrow> 0 \<le> m \<Longrightarrow> m < 2 ^ 53 \<Longrightarrow> -1074 \<le> e \<Longrightarrow> representable r"
  by (auto simp: representable_def)

lemma rne_of_int [simp]: "rne (of_int k) = k"
  by (simp add: rne_def)

lemma rne_near: "\<bar>of_int (rne x) - x\<bar> \<le> 1/2"
  unfolding rne_def Let_def
  using of_int_floor_le [of x] floor_correct [of x]
  by (auto simp: abs_if not_less) linarith+

lemma rne_mono: 
  assumes "x \<le> y" shows "rne x \<le> rne y"
proof (cases "\<lfloor>x\<rfloor> = \<lfloor>y\<rfloor>")
  case True
  with assms show ?thesis by (auto simp: rne_def Let_def)
next
  case False
  with assms have "\<lfloor>x\<rfloor> + 1 \<le> \<lfloor>y\<rfloor>" using floor_mono [OF assms] by linarith
  then show ?thesis by (auto simp: rne_def Let_def)
qed

lemma rne_nonneg: "0 \<le> x \<Longrightarrow> 0 \<le> rne x"
  using rne_mono [of 0 x] rne_of_int [of 0] by simp

lemma rne_ge: "of_int k \<le> x \<Longrightarrow> k \<le> rne x"
  using rne_mono [of "of_int k" x] by simp

lemma rne_le: "x \<le> of_int k \<Longrightarrow> rne x \<le> k"
  using rne_mono [of x "of_int k"] by simp

lemma ilog2_numeral [simp]:
  "ilog2 (numeral (num.Bit0 k)) = 1 + ilog2 (numeral k)"
  "ilog2 (numeral (num.Bit1 k)) = 1 + ilog2 (numeral k)"
  "ilog2 1 = 0" "ilog2 0 = 0" "ilog2 (- numeral k) = 0" "ilog2 (- 1) = 0"
  by (simp_all add: ilog2.simps)

lemma floor_rat_numeral [simp]:
  "\<lfloor>numeral a / numeral b :: rat\<rfloor> = numeral a div numeral b"
  "\<lfloor>1 / numeral b :: rat\<rfloor> = 1 div numeral b"
  "\<lceil>numeral a / numeral b :: rat\<rceil> = - (- numeral a div numeral b)"
  "\<lceil>1 / numeral b :: rat\<rceil> = - (- 1 div numeral b)"
  using floor_divide_of_int_eq [of "numeral a" "numeral b", where ?'a = rat]
    floor_divide_of_int_eq [of 1 "numeral b", where ?'a = rat]
    floor_divide_of_int_eq [of "- numeral a" "numeral b", where ?'a = rat]
    floor_divide_of_int_eq [of "- 1" "numeral b", where ?'a = rat]
  by (simp_all add: ceiling_def)

lemma ilog2_bounds:
  "1 \<le> n \<Longrightarrow> 0 \<le> ilog2 n \<and> 2 ^ nat (ilog2 n) \<le> n \<and> n < 2 ^ (nat (ilog2 n) + 1)"
proof (induction n rule: ilog2.induct)
  case (1 n)
  show ?case
  proof (cases "n < 2")
    case True
    with 1 show ?thesis by (simp add: ilog2.simps)
  next
    case False
    let ?l = "ilog2 (n div 2)"
    from False 1 have IH: "0 \<le> ?l" "2 ^ nat ?l \<le> n div 2" "n div 2 < 2 ^ (nat ?l + 1)" by auto
    have l: "ilog2 n = 1 + ?l" using False by (simp add: ilog2.simps [of n])
    have "nat (ilog2 n) = Suc (nat ?l)" using l IH by linarith
    moreover have "2 * 2 ^ nat ?l \<le> n" "n < 4 * 2 ^ nat ?l" using IH(2,3) by simp_all
    ultimately show ?thesis using IH(1) l by simp
  qed
qed

lemma pow2_nat: "0 \<le> l \<Longrightarrow> (2::rat) powi l = of_int (2 ^ nat l)"
  by (simp add: power_int_def)

lemma flog2_bounds:
  assumes "0 < q"
  shows "2 powi flog2 q \<le> q" and "q < 2 powi (flog2 q + 1)"
proof -
  have "2 powi flog2 q \<le> q \<and> q < 2 powi (flog2 q + 1)"
  proof (cases "1 \<le> q")
    case True
    let ?l = "ilog2 \<lfloor>q\<rfloor>"
    from True have "1 \<le> \<lfloor>q\<rfloor>" by simp
    note l = ilog2_bounds [OF this]
    have "2 powi ?l \<le> q" using l by (simp add: pow2_nat le_floor_iff del: of_int_power)
    moreover have "nat (?l + 1) = nat ?l + 1" using l by linarith
    then have "q < 2 powi (?l + 1)"
      using l by (simp add: pow2_nat floor_less_iff del: of_int_power power_Suc)
    ultimately show ?thesis using True by (simp add: flog2_def)
  next
    case False
    let ?c = "\<lceil>1 / q\<rceil> - 1" and ?l = "ilog2 (\<lceil>1 / q\<rceil> - 1)"
    from False assms have "1 < 1 / q" by simp
    then have "1 \<le> ?c" by linarith
    note l = ilog2_bounds [OF this]
    have n: "nat (?l + 1) = nat ?l + 1" using l by linarith
    have "(2::rat) powi ?l \<le> of_int ?c" using l by (simp only: pow2_nat of_int_le_iff)
    also have "of_int ?c < 1 / q" by linarith
    finally have up: "q < 1 / 2 powi ?l" using assms by (simp add: field_simps)
    have "1 / q \<le> of_int (?c + 1)" by linarith
    also have "\<dots> \<le> 2 powi (?l + 1)"
      using l n by (simp add: pow2_nat del: of_int_power of_int_add of_int_diff power_Suc)
    finally have lo: "1 / 2 powi (?l + 1) \<le> q" using assms by (simp add: field_simps)
    have "2 powi (- (?l + 1)) = 1 / (2::rat) powi (?l + 1)"
      unfolding power_int_minus by (simp only: divide_inverse mult_1)
    moreover have "2 powi (- (?l + 1) + 1) = 1 / (2::rat) powi ?l"
      using power_int_minus [of "2::rat" "?l"] by (simp add: divide_inverse)
    moreover have "flog2 q = - (?l + 1)" using False by (simp add: flog2_def)
    ultimately show ?thesis using up lo by (simp only:)
  qed
  then show "2 powi flog2 q \<le> q" and "q < 2 powi (flog2 q + 1)" by auto
qed

lemma flog2_unique:
  assumes "2 powi l \<le> q" and "q < 2 powi (l + 1)"
  shows "flog2 q = l"
proof -
  have q: "0 < q" using assms(1) by (rule order_less_le_trans [rotated]) simp
  note b = flog2_bounds [OF q]
  have "(2::rat) powi l < 2 powi (flog2 q + 1)" using assms(1) b(2) by linarith
  then have "l < flog2 q + 1" by (rule pow2_less_imp)
  moreover have "(2::rat) powi (flog2 q) < 2 powi (l + 1)" using assms(2) b(1) by linarith
  then have "flog2 q < l + 1" by (rule pow2_less_imp)
  ultimately show ?thesis by linarith
qed

lemma flog2_mono:
  assumes "0 < x" and "x \<le> y"
  shows "flog2 x \<le> flog2 y"
proof -
  have "(2::rat) powi (flog2 x) < 2 powi (flog2 y + 1)"
    using flog2_bounds [of x] flog2_bounds [of y] assms by linarith
  then have "flog2 x < flog2 y + 1" by (rule pow2_less_imp)
  then show ?thesis by simp
qed

lemma rmag_0 [simp]: "rmag 0 = 0"
  using rne_of_int [of 0] by (simp add: rmag_def)

lemma rmag_nonneg: "0 \<le> q \<Longrightarrow> 0 \<le> rmag q"
  by (simp add: rmag_def rne_nonneg)

text \<open>A grid point at or above the unit in the last place is a fixed point of rounding.\<close>

lemma rmag_grid:
  assumes "ulp_exp q \<le> e" and "q = of_int m * 2 powi e"
  shows "rmag q = q"
proof -
  let ?u = "ulp_exp q"
  have "q / 2 powi ?u = of_int m * 2 powi (e - ?u)"
    by (simp add: assms(2) power_int_diff)
  also have "(2::rat) powi (e - ?u) = of_int (2 ^ nat (e - ?u))"
    using assms(1) by (simp add: power_int_def)
  finally have "q / 2 powi ?u = of_int (m * 2 ^ nat (e - ?u))" by simp
  then have "rne (q / 2 powi ?u) = m * 2 ^ nat (e - ?u)" by (simp only: rne_of_int)
  then have "of_int (rne (q / 2 powi ?u)) = q / 2 powi ?u"
    using \<open>q / 2 powi ?u = of_int (m * 2 ^ nat (e - ?u))\<close> by simp
  then show ?thesis by (simp add: rmag_def)
qed

lemma ulp_exp_le:
  assumes "0 < m" and "m < 2 ^ 53" and "-1074 \<le> e"
  shows "ulp_exp (of_int m * 2 powi e) \<le> e"
proof -
  let ?q = "rat_of_int m * 2 powi e"
  have "rat_of_int m < of_int (2 ^ 53)" using assms(2) by (simp only: of_int_less_iff)
  then have "?q < 2 ^ 53 * 2 powi e" by simp
  also have "\<dots> = 2 powi (e + 53)" by (simp add: power_int_add)
  finally have "?q < 2 powi (e + 53)" .
  moreover have "2 powi flog2 ?q \<le> ?q" using assms(1) by (intro flog2_bounds) simp
  ultimately have "(2::rat) powi flog2 ?q < 2 powi (e + 53)" by linarith
  then have "flog2 ?q < e + 53" by (rule pow2_less_imp)
  with assms(3) show ?thesis by (simp add: ulp_exp_def)
qed

lemma rmag_representable: "representable r \<Longrightarrow> rmag r = r"
proof -
  assume "representable r"
  then obtain m e where me: "0 \<le> m" "m < 2 ^ 53" "-1074 \<le> e" "r = of_int m * 2 powi e"
    by (auto simp: representable_def)
  show ?thesis
  proof (cases "m = 0")
    case True
    with me show ?thesis by simp
  next
    case False
    with me show ?thesis by (intro rmag_grid [of _ e m]) (simp_all add: ulp_exp_le)
  qed
qed

lemma rne_scaled_le:
  assumes "0 < q"
  shows "rne (q / 2 powi ulp_exp q) \<le> 2 ^ 53"
proof -
  have "q < 2 powi (flog2 q + 1)" using flog2_bounds assms by blast
  also have "\<dots> \<le> 2 powi (ulp_exp q + 53)"
    by (rule power_int_increasing) (auto simp: ulp_exp_def)
  also have "\<dots> = 2 ^ 53 * 2 powi ulp_exp q" by (simp add: power_int_add)
  finally have "q / 2 powi ulp_exp q \<le> 2 ^ 53" by (simp add: divide_le_eq)
  then have "q / 2 powi ulp_exp q \<le> of_int (2 ^ 53)" by simp
  then show ?thesis by (rule rne_le)
qed

lemma representable_rmag:
  assumes "0 \<le> q"
  shows "representable (rmag q)"
proof (cases "q = 0")
  case True
  then show ?thesis by (intro representableI [of _ 0 0]) simp_all
next
  case False
  let ?m = "rne (q / 2 powi ulp_exp q)" and ?u = "ulp_exp q"
  from False assms have q: "0 < q" by simp
  have m: "0 \<le> ?m" "?m \<le> 2 ^ 53" using q rne_scaled_le by (simp_all add: rne_nonneg)
  have u: "-1074 \<le> ?u" by (simp add: ulp_exp_def)
  show ?thesis
  proof (cases "?m = 2 ^ 53")
    case True
    then have "rmag q = of_int (2 ^ 52) * 2 powi (?u + 1)"
      by (simp add: rmag_def power_int_add)
    with u show ?thesis by (intro representableI [of _ "2 ^ 52" "?u + 1"]) simp_all
  next
    case False
    with m u show ?thesis by (intro representableI [of _ ?m ?u]) (simp_all add: rmag_def)
  qed
qed

lemma representable_0 [simp]: "representable 0"
  by (intro representableI [of _ 0 0]) simp_all

lemma rmag_idem: "0 \<le> q \<Longrightarrow> rmag (rmag q) = rmag q"
  by (simp add: rmag_representable representable_rmag)

lemma rmag_mono:
  assumes "0 \<le> x" and "x \<le> y"
  shows "rmag x \<le> rmag y"
proof (cases "x = 0")
  case True
  with assms show ?thesis by (simp add: rmag_nonneg)
next
  case False
  with assms have x: "0 < x" and y: "0 < y" by auto
  have le: "ulp_exp x \<le> ulp_exp y" using flog2_mono [OF x assms(2)] by (simp add: ulp_exp_def)
  show ?thesis
  proof (cases "ulp_exp x = ulp_exp y")
    case True
    have "rne (x / 2 powi ulp_exp y) \<le> rne (y / 2 powi ulp_exp y)"
      using assms(2) by (intro rne_mono divide_right_mono) auto
    with True show ?thesis by (simp add: rmag_def)
  next
    case False
    with le have lt: "ulp_exp x < ulp_exp y" by simp
    have uy: "ulp_exp y = flog2 y - 52" using lt by (auto simp: ulp_exp_def split: if_splits)
    have "rmag x \<le> of_int (2 ^ 53) * 2 powi ulp_exp x"
      unfolding rmag_def using rne_scaled_le [OF x]
      by (intro mult_right_mono) (simp_all only: of_int_le_iff, simp)
    also have "\<dots> = 2 powi (ulp_exp x + 53)" by (simp add: power_int_add)
    also have "\<dots> \<le> 2 powi flog2 y"
      by (rule power_int_increasing) (use lt uy in auto)
    also have "\<dots> = of_int (2 ^ 52) * 2 powi ulp_exp y"
      unfolding uy by (simp add: power_int_diff)
    also have "\<dots> \<le> rmag y"
    proof -
      have "of_int (2 ^ 52) \<le> y / 2 powi ulp_exp y"
        using flog2_bounds(1) [OF y] by (simp add: uy power_int_diff field_simps)
      then have "2 ^ 52 \<le> rne (y / 2 powi ulp_exp y)" by (rule rne_ge)
      then show ?thesis unfolding rmag_def
        by (intro mult_right_mono) (simp_all only: of_int_le_iff, simp)
    qed
    finally show ?thesis .
  qed
qed

lemma rmag_error: "\<bar>rmag q - q\<bar> \<le> 2 powi (ulp_exp q - 1)"
proof -
  let ?p = "(2::rat) powi ulp_exp q"
  have "rmag q - q = (of_int (rne (q / ?p)) - q / ?p) * ?p" by (simp add: rmag_def field_simps)
  then have "\<bar>rmag q - q\<bar> = \<bar>of_int (rne (q / ?p)) - q / ?p\<bar> * ?p" by (simp add: abs_mult)
  also have "\<dots> \<le> 1/2 * ?p" by (intro mult_right_mono rne_near) simp
  also have "\<dots> = 2 powi (ulp_exp q - 1)" by (simp add: power_int_diff)
  finally show ?thesis .
qed

lemma rmag_rel_error:
  assumes "2 powi (-1022) \<le> q"
  shows "\<bar>rmag q - q\<bar> \<le> q * 2 powi (-53)"
proof -
  have q: "0 < q" using assms by (rule order_less_le_trans [rotated]) simp
  have "(2::rat) powi (-1022) < 2 powi (flog2 q + 1)" using assms flog2_bounds(2) [OF q] by linarith
  then have "-1022 < flog2 q + 1" by (rule pow2_less_imp)
  then have "ulp_exp q = flog2 q - 52" by (simp add: ulp_exp_def)
  then have "\<bar>rmag q - q\<bar> \<le> 2 powi (flog2 q + (-53))" using rmag_error [of q] by simp
  also have "\<dots> = 2 powi flog2 q * 2 powi (-53)" by (rule power_int_add) simp
  also have "\<dots> \<le> q * 2 powi (-53)" using flog2_bounds(1) [OF q] by (intro mult_right_mono) simp_all
  finally show ?thesis .
qed

lemma representable_int:
  assumes "0 \<le> n" and "n \<le> 2 ^ 53"
  shows "representable (of_int n)"
proof (cases "n = 2 ^ 53")
  case True
  then show ?thesis by (intro representableI [of _ "2 ^ 52" 1]) simp_all
next
  case False
  with assms show ?thesis by (intro representableI [of _ n 0]) simp_all
qed


section \<open>The interface of a rounding function\<close>

definition rv :: "rat \<Rightarrow> rat" where
  "rv x = (if x < 0 then - rmag (- x) else rmag x)"

definition rep64 :: "rat \<Rightarrow> bool" where
  "rep64 x \<longleftrightarrow> representable \<bar>x\<bar>"

locale rounding =
  fixes r :: "rat \<Rightarrow> rat" and rep :: "rat \<Rightarrow> bool"
  assumes mono: "x \<le> y \<Longrightarrow> r x \<le> r y"
    and fix_rep: "rep x \<Longrightarrow> r x = x"
    and range_rep: "rep (r x)"
    and rep_zero: "rep 0"
    and odd: "r (- x) = - r x"
begin

lemma zero [simp]: "r 0 = 0"
  by (rule fix_rep) (rule rep_zero)

lemma le_rep: "x \<le> b \<Longrightarrow> rep b \<Longrightarrow> r x \<le> b"
  using mono [of x b] fix_rep [of b] by simp

lemma rep_le: "a \<le> x \<Longrightarrow> rep a \<Longrightarrow> a \<le> r x"
  using mono [of a x] fix_rep [of a] by simp

lemma nonneg: "0 \<le> x \<Longrightarrow> 0 \<le> r x"
  by (rule rep_le) (simp_all add: rep_zero)

lemma nonpos: "x \<le> 0 \<Longrightarrow> r x \<le> 0"
  by (rule le_rep) (simp_all add: rep_zero)

lemma abs_le_rep:
  assumes "\<bar>x\<bar> \<le> b" and "rep b"
  shows "\<bar>r x\<bar> \<le> b"
proof -
  from assms have "r x \<le> b" by (intro le_rep) auto
  moreover from assms have "r (- x) \<le> b" by (intro le_rep) auto
  ultimately show ?thesis by (simp add: odd abs_le_iff)
qed

lemma idem: "r (r x) = r x"
  by (rule fix_rep) (rule range_rep)

lemma abs_eq: "r \<bar>x\<bar> = \<bar>r x\<bar>"
  using nonneg [of x] nonpos [of x] by (cases "0 \<le> x") (simp_all add: odd abs_if)

end

lemma rv_mono: "x \<le> y \<Longrightarrow> rv x \<le> rv y"
  using rmag_mono [of x y] rmag_mono [of "- y" "- x"] rmag_nonneg [of "- x"] rmag_nonneg [of y]
  by (auto simp: rv_def)

interpretation rv64: rounding rv rep64
proof
  show "x \<le> y \<Longrightarrow> rv x \<le> rv y" for x y by (rule rv_mono)
  show "rep64 x \<Longrightarrow> rv x = x" for x
    by (auto simp: rep64_def rv_def rmag_representable abs_if split: if_splits)
  show "rep64 (rv x)" for x
    using rmag_nonneg [of x] rmag_nonneg [of "- x"]
    by (auto simp: rep64_def rv_def representable_rmag abs_if)
  show "rep64 0" by (simp add: rep64_def)
  show "rv (- x) = - rv x" for x by (simp add: rv_def)
qed

section \<open>The type and its operations\<close>

text \<open>\<open>Inf s\<close> and \<open>Fin s m\<close> carry the sign \<open>s\<close>, true for negative.\<close>

datatype float64 = NaN | Inf bool | Fin bool rat

fun fval :: "float64 \<Rightarrow> rat" where
  "fval (Fin s m) = (if s then - m else m)"
| "fval _ = 0"

fun is_finite :: "float64 \<Rightarrow> bool" where
  "is_finite (Fin s m) = True"
| "is_finite _ = False"

definition max64 :: rat where "max64 = 2 ^ 1024"

fun wf64 :: "float64 \<Rightarrow> bool" where
  "wf64 (Fin s m) \<longleftrightarrow> 0 \<le> m \<and> m < max64 \<and> rmag m = m"
| "wf64 _ = True"

definition rnd :: "bool \<Rightarrow> rat \<Rightarrow> float64" where
  "rnd s q = (let r = rmag q in if max64 \<le> r then Inf s else Fin s r)"

definition round64 :: "rat \<Rightarrow> float64" where
  "round64 x = rnd (x < 0) \<bar>x\<bar>"

text \<open>The conversion \<^verbatim>\<open>float64(n)\<close> of an integer.\<close>

definition f64 :: "int \<Rightarrow> float64" where
  "f64 n = round64 (of_int n)"

instantiation float64 :: "{zero, one, plus, minus, uminus, times, inverse, ord}"
begin

definition zero_float64 :: float64 where "zero_float64 = Fin False 0"

definition one_float64 :: float64 where "one_float64 = Fin False 1"

fun uminus_float64 :: "float64 \<Rightarrow> float64" where
  "uminus_float64 NaN = NaN"
| "uminus_float64 (Inf s) = Inf (\<not> s)"
| "uminus_float64 (Fin s m) = Fin (\<not> s) m"

fun plus_float64 :: "float64 \<Rightarrow> float64 \<Rightarrow> float64" where
  "plus_float64 NaN y = NaN"
| "plus_float64 x NaN = NaN"
| "plus_float64 (Inf s) (Inf t) = (if s = t then Inf s else NaN)"
| "plus_float64 (Inf s) (Fin t b) = Inf s"
| "plus_float64 (Fin s a) (Inf t) = Inf t"
| "plus_float64 (Fin s a) (Fin t b) =
     (let v = fval (Fin s a) + fval (Fin t b)
      in if v = 0 then Fin (s \<and> t) 0 else round64 v)"

definition minus_float64 :: "float64 \<Rightarrow> float64 \<Rightarrow> float64" where
  "minus_float64 x y = x + (- y)"

fun times_float64 :: "float64 \<Rightarrow> float64 \<Rightarrow> float64" where
  "times_float64 NaN y = NaN"
| "times_float64 x NaN = NaN"
| "times_float64 (Inf s) (Inf t) = Inf (s \<noteq> t)"
| "times_float64 (Inf s) (Fin t b) = (if b = 0 then NaN else Inf (s \<noteq> t))"
| "times_float64 (Fin s a) (Inf t) = (if a = 0 then NaN else Inf (s \<noteq> t))"
| "times_float64 (Fin s a) (Fin t b) = rnd (s \<noteq> t) (a * b)"

fun divide_float64 :: "float64 \<Rightarrow> float64 \<Rightarrow> float64" where
  "divide_float64 NaN y = NaN"
| "divide_float64 x NaN = NaN"
| "divide_float64 (Inf s) (Inf t) = NaN"
| "divide_float64 (Inf s) (Fin t b) = Inf (s \<noteq> t)"
| "divide_float64 (Fin s a) (Inf t) = Fin (s \<noteq> t) 0"
| "divide_float64 (Fin s a) (Fin t b) =
     (if b = 0 then (if a = 0 then NaN else Inf (s \<noteq> t)) else rnd (s \<noteq> t) (a / b))"

definition inverse_float64 :: "float64 \<Rightarrow> float64" where
  "inverse_float64 x = 1 div x"

fun less_eq_float64 :: "float64 \<Rightarrow> float64 \<Rightarrow> bool" where
  "less_eq_float64 NaN y = False"
| "less_eq_float64 x NaN = False"
| "less_eq_float64 (Inf s) y = (s \<or> y = Inf False)"
| "less_eq_float64 x (Inf t) = (\<not> t)"
| "less_eq_float64 (Fin s a) (Fin t b) = (fval (Fin s a) \<le> fval (Fin t b))"

definition less_float64 :: "float64 \<Rightarrow> float64 \<Rightarrow> bool" where
  "less_float64 x y \<longleftrightarrow> x \<le> y \<and> \<not> y \<le> x"

instance ..

end

text \<open>Go's \<^verbatim>\<open>==\<close>: false on NaN, true between the zeros.\<close>

definition feq :: "float64 \<Rightarrow> float64 \<Rightarrow> bool" where
  "feq x y \<longleftrightarrow> x \<le> y \<and> y \<le> x"

section \<open>Well-formedness and exact results\<close>

lemma flog2_nonpos: "q \<le> 0 \<Longrightarrow> flog2 q < 0"
proof -
  assume "q \<le> 0"
  then have "1 / q \<le> 0" by (simp add: divide_nonneg_nonpos)
  then have "\<lceil>1 / q\<rceil> - 1 < 2" by linarith
  with \<open>q \<le> 0\<close> show ?thesis by (simp add: flog2_def ilog2.simps)
qed

lemma max64_le_iff: "max64 \<le> q \<longleftrightarrow> 1024 \<le> flog2 q"
proof (cases "0 < q")
  case True
  have m: "max64 = 2 powi 1024" by (simp add: max64_def)
  have "2 powi 1024 \<le> q" if "1024 \<le> flog2 q"
    using power_int_increasing [OF that, of "2::rat"] flog2_bounds(1) [OF True] by linarith
  moreover have "1024 \<le> flog2 q" if "2 powi 1024 \<le> q"
    using that flog2_bounds(2) [OF True] pow2_less_imp [of 1024 "flog2 q + 1"] by linarith
  ultimately show ?thesis unfolding m by blast
next
  case False
  then have "\<not> max64 \<le> q" by (simp add: max64_def not_le) 
  with False flog2_nonpos [of q] show ?thesis by auto
qed

lemma rnd_code [code, f64_simps]:
  "rnd s q = (let r = rmag q in if 1024 \<le> flog2 r then Inf s else Fin s r)"
  by (simp add: rnd_def max64_le_iff)

lemma is_finite_iff: "is_finite x \<longleftrightarrow> (\<exists>s m. x = Fin s m)"
  by (cases x) auto

lemma wf64_rnd [simp]: "0 \<le> q \<Longrightarrow> wf64 (rnd s q)"
  by (simp add: rnd_def Let_def rmag_nonneg rmag_idem)

lemma wf64_round64 [simp]: "wf64 (round64 x)"
  by (simp add: round64_def)

lemma wf64_f64 [simp]: "wf64 (f64 n)"
  by (simp add: f64_def)

lemma max64_pos [simp]: "0 < max64" "0 \<le> max64" "\<not> max64 \<le> 0"
  by (simp_all add: max64_def)

lemma wf64_zero [simp]: "wf64 0"
  by (simp add: zero_float64_def)

lemma wf64_uminus [simp]: "wf64 (- x) = wf64 x" for x :: float64
  by (cases x) auto

lemma wf64_plus [simp]: "wf64 (x + y)" for x y :: float64
  by (cases x; cases y) (auto simp: Let_def)

lemma wf64_minus [simp]: "wf64 (x - y)" for x y :: float64
  by (simp add: minus_float64_def)

lemma wf64_times [simp]: "wf64 x \<Longrightarrow> wf64 y \<Longrightarrow> wf64 (x * y)" for x y :: float64
  by (cases x; cases y) auto

lemma wf64_divide [simp]: "wf64 x \<Longrightarrow> wf64 y \<Longrightarrow> wf64 (x / y)" for x y :: float64
  by (cases x; cases y) auto

lemma fval_uminus [simp]: "fval (- x) = - fval x"
  by (cases x) auto

lemma is_finite_uminus [simp]: "is_finite (- x) = is_finite x"
  by (cases x) auto

lemma rv_abs: "rmag \<bar>x\<bar> = \<bar>rv x\<bar>"
  using rmag_nonneg [of x] rmag_nonneg [of "- x"] by (auto simp: rv_def abs_if)

lemma round64_finite:
  "is_finite (round64 x) \<longleftrightarrow> \<bar>rv x\<bar> < max64"
  by (auto simp: round64_def rnd_def Let_def rv_abs)

lemma fval_round64:
  "\<bar>rv x\<bar> < max64 \<Longrightarrow> fval (round64 x) = rv x"
  by (auto simp: round64_def rnd_def Let_def rv_abs)
     (auto simp: rv_def rmag_nonneg split: if_splits)


lemma rep64_of_int: "\<bar>n\<bar> \<le> 2 ^ 53 \<Longrightarrow> rep64 (of_int n)"
  using representable_int [of "\<bar>n\<bar>"] by (simp add: rep64_def flip: of_int_abs)

lemma rep64_scaled:
  assumes "\<bar>m\<bar> \<le> 2 ^ 53" and "-1074 \<le> e"
  shows "rep64 (of_int m * 2 powi e)"
proof (cases "\<bar>m\<bar> = 2 ^ 53")
  case True
  then have "\<bar>rat_of_int m\<bar> = 2 ^ 53" by (metis of_int_abs of_int_numeral of_int_power)
  then have "\<bar>rat_of_int m * 2 powi e\<bar> = of_int (2 ^ 52) * 2 powi (e + 1)"
    by (simp add: abs_mult power_int_add)
  with assms(2) show ?thesis unfolding rep64_def
    by (intro representableI [of _ "2 ^ 52" "e + 1"]) simp_all
next
  case False
  with assms show ?thesis unfolding rep64_def
    by (intro representableI [of _ "\<bar>m\<bar>" e]) (simp_all add: abs_mult)
qed

lemma rep64_fval [simp]: "wf64 x \<Longrightarrow> rep64 (fval x)"
  by (cases x) (auto simp: rep64_def dest: representable_rmag)

lemma fval_bound: "wf64 x \<Longrightarrow> \<bar>fval x\<bar> < max64"
  by (cases x) auto

text \<open>Exact values: when no overflow happens an operation is the rounding of the exact result.\<close>

lemma plus_exact:
  assumes "is_finite x" and "is_finite y" and "\<bar>rv (fval x + fval y)\<bar> < max64"
  shows "is_finite (x + y) \<and> fval (x + y) = rv (fval x + fval y)"
proof -
  obtain s a t b where "x = Fin s a" "y = Fin t b" using assms by (auto simp: is_finite_iff)
  then show ?thesis using assms(3)
    by (simp add: Let_def round64_finite fval_round64 del: fval.simps) simp
qed

lemma minus_exact:
  assumes "is_finite x" and "is_finite y" and "\<bar>rv (fval x - fval y)\<bar> < max64"
  shows "is_finite (x - y) \<and> fval (x - y) = rv (fval x - fval y)"
  using plus_exact [of x "- y"] assms by (simp add: minus_float64_def)

lemma rnd_signed:
  assumes "0 \<le> q" and "\<bar>rv q\<bar> < max64"
  shows "is_finite (rnd s q) \<and> fval (rnd s q) = (if s then - rv q else rv q)"
  using assms rmag_nonneg [of q] by (auto simp: rnd_def Let_def rv_def)

lemma times_exact:
  assumes "is_finite x" and "is_finite y" and "wf64 x" and "wf64 y"
    and "\<bar>rv (fval x * fval y)\<bar> < max64"
  shows "is_finite (x * y) \<and> fval (x * y) = rv (fval x * fval y)"
proof -
  obtain s a t b where xy: "x = Fin s a" "y = Fin t b" using assms by (auto simp: is_finite_iff)
  then have ab: "0 \<le> a * b" using assms(3,4) by simp
  have v: "fval x * fval y = (if s \<noteq> t then - (a * b) else a * b)" by (simp add: xy)
  then have "\<bar>rv (a * b)\<bar> < max64" using assms(5) by (auto simp: rv64.odd split: if_splits)
  from rnd_signed [OF ab this, of "s \<noteq> t"] show ?thesis
    by (simp add: xy v [unfolded xy] rv64.odd)
qed

lemma divide_exact:
  assumes "is_finite x" and "is_finite y" and "wf64 x" and "wf64 y" and "fval y \<noteq> 0"
    and "\<bar>rv (fval x / fval y)\<bar> < max64"
  shows "is_finite (x / y) \<and> fval (x / y) = rv (fval x / fval y)"
proof -
  obtain s a t b where xy: "x = Fin s a" "y = Fin t b" using assms by (auto simp: is_finite_iff)
  then have ab: "0 \<le> a / b" and b: "b \<noteq> 0" using assms(3-5) by (auto split: if_splits)
  have v: "fval x / fval y = (if s \<noteq> t then - (a / b) else a / b)" by (simp add: xy)
  then have "\<bar>rv (a / b)\<bar> < max64" using assms(6) by (auto simp: rv64.odd split: if_splits)
  from rnd_signed [OF ab this, of "s \<noteq> t"] show ?thesis
    using b by (simp add: xy v [unfolded xy] rv64.odd)
qed

lemma le_finite: "is_finite x \<Longrightarrow> is_finite y \<Longrightarrow> x \<le> y \<longleftrightarrow> fval x \<le> fval y"
  by (auto simp: is_finite_iff)

lemma less_finite: "is_finite x \<Longrightarrow> is_finite y \<Longrightarrow> x < y \<longleftrightarrow> fval x < fval y"
  by (auto simp: less_float64_def le_finite)

lemma feq_finite: "is_finite x \<Longrightarrow> is_finite y \<Longrightarrow> feq x y \<longleftrightarrow> fval x = fval y"
  by (auto simp: feq_def le_finite)

lemma f64_exact:
  assumes "\<bar>n\<bar> \<le> 2 ^ 53"
  shows "is_finite (f64 n) \<and> fval (f64 n) = of_int n"
proof -
  have r: "rv (of_int n) = of_int n" using assms by (intro rv64.fix_rep rep64_of_int)
  have "\<bar>rat_of_int n\<bar> \<le> of_int (2 ^ 53)" using assms by (metis of_int_abs of_int_le_iff)
  also have "\<dots> < max64" by (simp add: max64_def)
  finally show ?thesis using r by (simp add: f64_def round64_finite fval_round64)
qed

lemma zero_finite [simp]: "is_finite 0" "fval 0 = 0"
  by (simp_all add: zero_float64_def)

lemma one_finite [simp]: "is_finite 1" "fval 1 = 1"
  by (simp_all add: one_float64_def)

lemma NaN_arith [simp]:
  "NaN + x = NaN" "x + NaN = NaN" "NaN - x = NaN" "x - NaN = NaN"
  "NaN * x = NaN" "x * NaN = NaN" "NaN / x = NaN" "x / NaN = NaN"
  "\<not> NaN \<le> x" "\<not> x \<le> NaN" "\<not> NaN < x" "\<not> x < NaN" "\<not> feq NaN x" "\<not> feq x NaN"
  by (cases x; simp add: minus_float64_def less_float64_def feq_def)+


section \<open>Relative error\<close>

text \<open>A finite, well-formed operand.\<close>

abbreviation fin64 :: "float64 \<Rightarrow> bool" where
  "fin64 x \<equiv> is_finite x \<and> wf64 x"

lemma pow2_1023_less_max: "(2::rat) ^ 1023 < max64"
  by (simp add: max64_def)

lemma rep64_pow2: "-1074 \<le> e \<Longrightarrow> rep64 (2 powi e)"
  using rep64_scaled [of 1 e] by simp

lemma rv_bounded: "\<bar>x\<bar> \<le> 2 ^ 1023 \<Longrightarrow> \<bar>rv x\<bar> < max64"
  using rv64.abs_le_rep [of x "2 ^ 1023"] rep64_pow2 [of 1023] pow2_1023_less_max by simp

lemma rv_rel_error:
  assumes "2 powi (-1022) \<le> \<bar>x\<bar>"
  shows "\<bar>rv x - x\<bar> \<le> \<bar>x\<bar> * 2 powi (-53)"
proof (cases "x < 0")
  case True
  with rmag_rel_error [of "- x"] assms show ?thesis by (simp add: rv_def abs_minus_commute)
next
  case False
  with rmag_rel_error [of x] assms show ?thesis by (simp add: rv_def)
qed

text \<open>The quotient of two finite operands, correctly rounded.\<close>

lemma divide_rel_error:
  assumes "fin64 x" and "fin64 y" and "fval y \<noteq> 0"
    and "2 powi (-1022) \<le> \<bar>fval x / fval y\<bar>" and "\<bar>fval x / fval y\<bar> \<le> 2 ^ 1023"
  shows "fin64 (x / y)"
    and "\<bar>fval (x / y) - fval x / fval y\<bar> \<le> \<bar>fval x / fval y\<bar> * 2 powi (-53)"
  using divide_exact [of x y] rv_bounded [OF assms(5)] rv_rel_error [OF assms(4)] assms by auto

text \<open>A quotient by a rounded quotient: two relative errors of at most \<open>u\<close>.\<close>

lemma perturbed_pos:
  fixes B u b :: rat
  assumes "0 < B" "0 < u" "u \<le> 1/3" "\<bar>b - B\<bar> \<le> B * u"
  shows "0 < b"
proof -
  have "0 < B * (1 - u)" using assms by (intro mult_pos_pos) auto
  moreover have "B * (1 - u) \<le> b" using assms(4) by (simp add: abs_le_iff algebra_simps)
  ultimately show ?thesis by linarith
qed

lemma two_roundings:
  fixes v B u b q :: rat
  assumes v: "0 < v" and B: "0 < B" and u: "0 < u" "u \<le> 1/3" and b: "\<bar>b - B\<bar> \<le> B * u"
    and qb: "q * b = v * B"
  shows "\<bar>q - v\<bar> \<le> v / 2 \<and> (\<forall>r. \<bar>r - q\<bar> \<le> q * u \<longrightarrow> \<bar>r - v\<bar> \<le> 3 * v * u)"
proof -
  note b0 = perturbed_pos [OF B u b]
  have bB: "B * (1 - u) \<le> b" using b by (simp add: abs_le_iff algebra_simps)
  have "(q - v) * b = v * (B - b)" using qb by (simp add: algebra_simps)
  then have "\<bar>(q - v) * b\<bar> = \<bar>v * (B - b)\<bar>" by simp
  then have "\<bar>q - v\<bar> * b = v * \<bar>B - b\<bar>" using b0 v by (simp add: abs_mult)
  also have "\<dots> \<le> v * (B * u)" using b v by (intro mult_left_mono) (auto simp: abs_minus_commute)
  finally have "\<bar>q - v\<bar> * (B * (1 - u)) \<le> v * (B * u)"
    using mult_left_mono [OF bB, of "\<bar>q - v\<bar>"] by linarith
  then have "B * (\<bar>q - v\<bar> * (1 - u)) \<le> B * (v * u)" by (simp add: algebra_simps)
  then have qv: "\<bar>q - v\<bar> * (1 - u) \<le> v * u" using B by simp
  have "\<bar>q - v\<bar> * (2/3) \<le> \<bar>q - v\<bar> * (1 - u)" using u by (intro mult_left_mono) auto
  moreover have "v * u \<le> v * (1/3)" using u v by (intro mult_left_mono) auto
  ultimately have "\<bar>q - v\<bar> * (2/3) \<le> v * (1/3)" using qv by (meson order_trans)
  then have half: "\<bar>q - v\<bar> \<le> v / 2" by simp
  have "\<bar>r - v\<bar> \<le> 3 * v * u" if r: "\<bar>r - q\<bar> \<le> q * u" for r
  proof -
    have "\<bar>r - v\<bar> \<le> q * u + \<bar>q - v\<bar>" using r by linarith
    moreover have "q * u \<le> (v + \<bar>q - v\<bar>) * u" using u by (intro mult_right_mono) auto
    ultimately have "\<bar>r - v\<bar> \<le> v * u + \<bar>q - v\<bar> * (1 + u)" by (simp add: algebra_simps)
    then have "\<bar>r - v\<bar> * (1 - u) \<le> (v * u + \<bar>q - v\<bar> * (1 + u)) * (1 - u)"
      using u by (intro mult_right_mono) auto
    also have "\<dots> = v * u * (1 - u) + \<bar>q - v\<bar> * (1 - u) * (1 + u)" by (simp add: algebra_simps)
    also have "\<dots> \<le> v * u * (1 - u) + v * u * (1 + u)"
      using mult_right_mono [OF qv, of "1 + u"] u by simp
    also have "\<dots> = 2 * (v * u)" by (simp add: algebra_simps)
    finally have "\<bar>r - v\<bar> * (1 - u) \<le> 2 * (v * u)" .
    moreover have "\<bar>r - v\<bar> * (2/3) \<le> \<bar>r - v\<bar> * (1 - u)" using u by (intro mult_left_mono) auto
    ultimately have "\<bar>r - v\<bar> * (2/3) \<le> 2 * (v * u)" by (rule order_trans [rotated])
    then show ?thesis by (simp add: algebra_simps)
  qed
  with half show ?thesis by blast
qed

section \<open>Square root\<close>

text \<open>
  \<^verbatim>\<open>math.Sqrt\<close> is correctly rounded: \<open>isqrt\<close> is the integer square root, \<open>sqrt_mant\<close> rounds
  the root of a rational to the nearest integer, and \<open>sqrt_mag\<close> scales it to 53 bits.
\<close>

function isqrt :: "int \<Rightarrow> int" where
  "isqrt n = (if n < 1 then 0
     else let r = 2 * isqrt (n div 4) in if (r + 1) * (r + 1) \<le> n then r + 1 else r)"
  by pat_completeness auto
termination by (relation "measure nat") auto

declare isqrt.simps [simp del]

definition sqrt_exp :: "rat \<Rightarrow> int" where
  "sqrt_exp q = max (-1074) (flog2 q div 2 - 52)"

definition sqrt_mant :: "rat \<Rightarrow> int" where
  "sqrt_mant x = (let f = isqrt \<lfloor>x\<rfloor>; h = (of_int f + 1/2) * (of_int f + 1/2)
     in if x < h then f else if h < x then f + 1 else if even f then f else f + 1)"

definition sqrt_mag :: "rat \<Rightarrow> rat" where
  "sqrt_mag q = of_int (sqrt_mant (q / 2 powi (2 * sqrt_exp q))) * 2 powi sqrt_exp q"

fun fsqrt :: "float64 \<Rightarrow> float64" where
  "fsqrt NaN = NaN"
| "fsqrt (Inf s) = (if s then NaN else Inf False)"
| "fsqrt (Fin s m) = (if m = 0 then Fin s 0 else if s then NaN else Fin False (sqrt_mag m))"

lemma isqrt_correct:
  "0 \<le> n \<Longrightarrow> 0 \<le> isqrt n \<and> isqrt n * isqrt n \<le> n \<and> n < (isqrt n + 1) * (isqrt n + 1)"
proof (induction n rule: isqrt.induct)
  case (1 n)
  show ?case
  proof (cases "n < 1")
    case True
    with 1 show ?thesis by (simp add: isqrt.simps)
  next
    case False
    let ?k = "isqrt (n div 4)"
    from False 1 have IH: "0 \<le> ?k" "?k * ?k \<le> n div 4" "n div 4 < (?k + 1) * (?k + 1)" by auto
    have "4 * (?k * ?k) \<le> n" using IH(2) by linarith
    moreover have "n < 4 * ((?k + 1) * (?k + 1))" using IH(3) by linarith
    ultimately show ?thesis using False IH(1)
      by (auto simp: isqrt.simps [of n] Let_def algebra_simps)
  qed
qed

lemma sqrt_mant_correct:
  assumes "0 \<le> x"
  shows "0 \<le> sqrt_mant x"
    and "x \<le> (of_int (sqrt_mant x) + 1/2) * (of_int (sqrt_mant x) + 1/2)"
    and "0 < sqrt_mant x \<Longrightarrow> (of_int (sqrt_mant x) - 1/2) * (of_int (sqrt_mant x) - 1/2) \<le> x"
proof -
  let ?f = "isqrt \<lfloor>x\<rfloor>"
  have "0 \<le> \<lfloor>x\<rfloor>" using assms by simp
  note f = isqrt_correct [OF this]
  have "rat_of_int (?f * ?f) \<le> of_int \<lfloor>x\<rfloor>" using f by (simp only: of_int_le_iff)
  then have lo: "rat_of_int ?f * of_int ?f \<le> x" using order_trans [OF _ of_int_floor_le [of x]] by (simp only: of_int_mult)
  have "\<lfloor>x\<rfloor> + 1 \<le> (?f + 1) * (?f + 1)" using f by linarith
  then have "rat_of_int (\<lfloor>x\<rfloor> + 1) \<le> of_int ((?f + 1) * (?f + 1))" by (simp only: of_int_le_iff)
  then have hi: "x \<le> (of_int ?f + 1) * (of_int ?f + 1)" using floor_correct [of x] by simp
  have nn: "0 \<le> rat_of_int ?f" using f by simp
  show "0 \<le> sqrt_mant x" using f by (auto simp: sqrt_mant_def Let_def)
  show "x \<le> (of_int (sqrt_mant x) + 1/2) * (of_int (sqrt_mant x) + 1/2)"
    using hi nn by (auto simp: sqrt_mant_def Let_def algebra_simps)
  show "0 < sqrt_mant x \<Longrightarrow> (of_int (sqrt_mant x) - 1/2) * (of_int (sqrt_mant x) - 1/2) \<le> x"
    using lo nn f by (auto simp: sqrt_mant_def Let_def algebra_simps)
qed

lemma sqrt_mant_bound:
  assumes "0 \<le> x" and "x < 2 ^ 106"
  shows "sqrt_mant x \<le> 2 ^ 53"
proof -
  let ?f = "isqrt \<lfloor>x\<rfloor>"
  have "0 \<le> \<lfloor>x\<rfloor>" using assms by simp
  note f = isqrt_correct [OF this]
  have "\<lfloor>x\<rfloor> < 2 ^ 106" using assms(2) by (simp add: floor_less_iff)
  then have "?f * ?f < 2 ^ 106" using f by linarith
  then have "?f * ?f < 2 ^ 53 * 2 ^ 53" by simp
  then have "?f < 2 ^ 53" using f mult_mono [of "2 ^ 53" ?f "2 ^ 53" ?f] by (cases "?f < 2 ^ 53") auto
  then show ?thesis by (auto simp: sqrt_mant_def Let_def)
qed

lemma sqrt_scaled_bound:
  assumes "0 < q"
  shows "q / 2 powi (2 * sqrt_exp q) < 2 ^ 106"
proof -
  have e: "flog2 q div 2 - 52 \<le> sqrt_exp q" by (simp add: sqrt_exp_def)
  have "q < 2 powi (flog2 q + 1)" using flog2_bounds assms by blast
  also have "\<dots> \<le> 2 powi (106 + 2 * sqrt_exp q)"
    by (rule power_int_increasing) (use e in \<open>linarith\<close>, simp)
  also have "\<dots> = 2 ^ 106 * 2 powi (2 * sqrt_exp q)" by (simp add: power_int_add)
  finally show ?thesis by (simp add: divide_less_eq)
qed

lemma sqrt_mag_rep:
  assumes "0 < q"
  shows "0 \<le> sqrt_mag q" and "rep64 (sqrt_mag q)"
proof -
  let ?x = "q / 2 powi (2 * sqrt_exp q)"
  have x: "0 \<le> ?x" "?x < 2 ^ 106" using assms sqrt_scaled_bound by auto
  have m: "0 \<le> sqrt_mant ?x" "sqrt_mant ?x \<le> 2 ^ 53"
    using sqrt_mant_correct(1) [OF x(1)] sqrt_mant_bound [OF x] by auto
  show "0 \<le> sqrt_mag q" using m by (simp add: sqrt_mag_def)
  show "rep64 (sqrt_mag q)" unfolding sqrt_mag_def
    using m by (intro rep64_scaled) (auto simp: sqrt_exp_def)
qed

end
