(* ===== verification/Models.thy ===== *)
theory Models
  imports Float64
begin

text \<open>
  The domain types of \<^verbatim>\<open>internal/models/models.go\<close>, the snapshot of
  \<^verbatim>\<open>internal/provider/provider.go\<close> and the way calls on a Go interface are written:
  a method takes the state of the world and returns a value or an error together with the new
  state. Field names carry a prefix for their struct, since record fields share one name space.
\<close>

section \<open>Times and calls\<close>

text \<open>
  \<^verbatim>\<open>time.Time\<close> is the number of nanoseconds since 1 January of year 1, UTC, so the zero
  value is 0 and \<^verbatim>\<open>Before\<close> and \<^verbatim>\<open>After\<close> are comparisons.
\<close>

type_synonym time = int

definition IsZero :: "time \<Rightarrow> bool" where
  "IsZero t \<longleftrightarrow> t = 0"

type_synonym 'a ret = "gerror + 'a"

type_synonym ('w, 'a) call = "'w \<Rightarrow> 'a ret \<times> 'w"

section \<open>Domain types\<close>

record Company =
  co_Symbol :: string
  co_Name :: string
  co_Exchange :: string
  co_Sector :: string
  co_Industry :: string
  co_Currency :: string
  co_Description :: string

record DailyPrice =
  dp_Date :: time
  dp_Open :: float64
  dp_High :: float64
  dp_Low :: float64
  dp_Close :: float64
  dp_Volume :: int

record IncomeStatement =
  inc_Period :: string
  inc_FiscalDate :: time
  inc_Revenue :: float64
  inc_GrossProfit :: float64
  inc_OperatingIncome :: float64
  inc_NetIncome :: float64
  inc_DilutedEPS :: float64

record BalanceSheet =
  bal_Period :: string
  bal_FiscalDate :: time
  bal_TotalAssets :: float64
  bal_TotalLiabilities :: float64
  bal_TotalEquity :: float64
  bal_TotalDebt :: float64
  bal_CurrentAssets :: float64
  bal_CurrentLiabilities :: float64
  bal_SharesOutstanding :: float64

record CashFlow =
  cfl_Period :: string
  cfl_FiscalDate :: time
  cfl_OperatingCashFlow :: float64
  cfl_InvestingCashFlow :: float64
  cfl_FinancingCashFlow :: float64
  cfl_NetChangeInCash :: float64

record ScreenerFilter =
  sf_Sector :: "string option"
  sf_MinROE :: "float64 option"
  sf_MaxPE :: "float64 option"
  sf_MinRevenueGrowth :: "float64 option"

record ScreenerResult =
  sr_Symbol :: string
  sr_Name :: string
  sr_Sector :: string
  sr_ROE :: "float64 option"
  sr_PE :: "float64 option"
  sr_RevenueGrowth :: "float64 option"

record APIKey =
  key_ID :: int
  key_KeyPrefix :: string
  key_KeyHash :: string
  key_Label :: string
  key_CreatedAt :: time
  key_ExpiresAt :: "time option"
  key_RevokedAt :: "time option"

record IngestionRun =
  run_ID :: int
  run_Symbol :: string
  run_Status :: string
  run_CompaniesInserted :: int
  run_PricesInserted :: int
  run_IncomeInserted :: int
  run_BalanceInserted :: int
  run_CashFlowInserted :: int
  run_ErrorMessage :: msg
  run_StartedAt :: time
  run_FinishedAt :: time

record CompanySnapshot =
  snap_Company :: Company
  snap_Prices :: "DailyPrice list"
  snap_Income :: "IncomeStatement list"
  snap_Balance :: "BalanceSheet list"
  snap_CashFlow :: "CashFlow list"

text \<open>The zero value of a run, \<^verbatim>\<open>models.IngestionRun{}\<close>, and of a key.\<close>

definition zero_IngestionRun :: IngestionRun where
  "zero_IngestionRun = \<lparr>run_ID = 0, run_Symbol = [], run_Status = [], run_CompaniesInserted = 0,
     run_PricesInserted = 0, run_IncomeInserted = 0, run_BalanceInserted = 0, run_CashFlowInserted = 0,
     run_ErrorMessage = [], run_StartedAt = 0, run_FinishedAt = 0\<rparr>"

section \<open>Errors of the database package\<close>

definition sql_ErrNoRows :: gerror where
  "sql_ErrNoRows = Sentinel ''sql: no rows in result set''"

end
