(* ===== verification/GoStd.thy ===== *)
theory GoStd
  imports Prelude
begin

text \<open>
  The functions of Go's standard library on strings that the program calls. A string is its list
  of bytes (a \<^typ>\<open>char\<close> is a byte), as in Go.
\<close>

section \<open>White space\<close>

text \<open>
  The UTF-8 encodings of the characters for which \<^verbatim>\<open>unicode.IsSpace\<close> holds: tab, newline,
  vertical tab, form feed, carriage return, space, U+0085, U+00A0, U+1680, U+2000 to U+200A,
  U+2028, U+2029, U+202F, U+205F and U+3000.
\<close>

abbreviation byte :: "nat \<Rightarrow> char" where
  "byte n \<equiv> char_of n"

definition space_encodings :: "string list" where
  "space_encodings = map (\<lambda>b. [byte b]) [9, 10, 11, 12, 13, 32] @
     [[byte 0xC2, byte 0x85], [byte 0xC2, byte 0xA0], [byte 0xE1, byte 0x9A, byte 0x80]] @
     map (\<lambda>b. [byte 0xE2, byte 0x80, byte b])
       [0x80, 0x81, 0x82, 0x83, 0x84, 0x85, 0x86, 0x87, 0x88, 0x89, 0x8A, 0xA8, 0xA9, 0xAF] @
     [[byte 0xE2, byte 0x81, byte 0x9F], [byte 0xE3, byte 0x80, byte 0x80]]"

text \<open>\<open>strip pats s\<close> removes patterns from the front as long as one matches.\<close>

definition match_front :: "string list \<Rightarrow> string \<Rightarrow> string option" where
  "match_front pats s = find (\<lambda>p. take (length p) s = p \<and> p \<noteq> []) pats"

lemma match_front_Some:
  "match_front pats s = Some p \<Longrightarrow> p \<in> set pats \<and> p \<noteq> [] \<and> s = p @ drop (length p) s"
  by (auto simp: match_front_def find_Some_iff) (metis append_take_drop_id)

function strip :: "string list \<Rightarrow> string \<Rightarrow> string" where
  "strip pats s = (case match_front pats s of None \<Rightarrow> s | Some p \<Rightarrow> strip pats (drop (length p) s))"
  by pat_completeness auto
termination
proof (relation "measure (\<lambda>(pats, s). length s)", goal_cases)
  case (2 pats s p)
  from match_front_Some [OF 2] have "p \<noteq> []" "s = p @ drop (length p) s" by auto
  then show ?case by (cases s) auto
qed simp

declare strip.simps [simp del]

text \<open>\<^verbatim>\<open>strings.TrimSpace\<close>: encodings of white space are removed from both ends.\<close>

definition TrimSpace :: "string \<Rightarrow> string" where
  "TrimSpace s = rev (strip (map rev space_encodings) (rev (strip space_encodings s)))"

section \<open>Upper case\<close>

definition upper_char :: "char \<Rightarrow> char" where
  "upper_char c = (if of_char c \<in> {97..122::nat} then byte (of_char c - 32) else c)"

text \<open>
  \<^verbatim>\<open>strings.ToUpper\<close>, as far as a symbol depends on it: ASCII letters are mapped, and so are the
  only two characters outside ASCII whose upper case is an ASCII letter, the dotless i (U+0131,
  bytes C4 B1) and the long s (U+017F, bytes C5 BF). Other characters outside ASCII are kept; Go
  maps them to characters outside ASCII as well, which no valid symbol contains.
\<close>

fun ToUpper :: "string \<Rightarrow> string" where
  "ToUpper [] = []"
| "ToUpper [c] = [upper_char c]"
| "ToUpper (c # d # s) =
     (if c = byte 0xC4 \<and> d = byte 0xB1 then CHR ''I'' # ToUpper s
      else if c = byte 0xC5 \<and> d = byte 0xBF then CHR ''S'' # ToUpper s
      else upper_char c # ToUpper (d # s))"

section \<open>Splitting\<close>

text \<open>\<^verbatim>\<open>strings.Split(s, ",")\<close>: never empty; an empty string gives one empty part.\<close>

fun Split :: "char \<Rightarrow> string \<Rightarrow> string list" where
  "Split sep [] = [[]]"
| "Split sep (c # s) =
     (if c = sep then [] # Split sep s
      else (case Split sep s of p # ps \<Rightarrow> (c # p) # ps | [] \<Rightarrow> [[c]]))"

lemma Split_not_Nil [simp]: "Split sep s \<noteq> []"
  by (induction s) (auto split: list.splits)

fun Join :: "char \<Rightarrow> string list \<Rightarrow> string" where
  "Join sep [] = []"
| "Join sep [p] = p"
| "Join sep (p # q # ps) = p @ sep # Join sep (q # ps)"

lemma Join_Cons_head: "ps \<noteq> [] \<Longrightarrow> Join sep ((c # p) # ps) = c # Join sep (p # ps)"
  by (cases ps) auto

lemma Join_Split: "Join sep (Split sep s) = s"
proof (induction s)
  case (Cons c s)
  obtain p ps where ps: "Split sep s = p # ps" by (metis Split_not_Nil neq_Nil_conv)
  show ?case using Cons ps by (cases ps) auto
qed simp

lemma Split_parts: "p \<in> set (Split sep s) \<Longrightarrow> sep \<notin> set p"
  by (induction s arbitrary: p) (auto split: list.splits if_splits)

section \<open>Numbers\<close>

definition digit_val :: "char \<Rightarrow> int option" where
  "digit_val c = (let n = of_char c in if 48 \<le> n \<and> n \<le> (57::nat) then Some (int n - 48) else None)"

fun digits_val :: "int \<Rightarrow> string \<Rightarrow> int option" where
  "digits_val acc [] = Some acc"
| "digits_val acc (c # s) =
     (case digit_val c of None \<Rightarrow> None | Some d \<Rightarrow> digits_val (acc * 10 + d) s)"

text \<open>
  \<^verbatim>\<open>strconv.Atoi\<close>: an optional sign and at least one decimal digit, in the range of int.
  \<^const>\<open>None\<close> stands for either of its errors (syntax and range), which no caller tells apart.
\<close>

definition Atoi :: "string \<Rightarrow> int option" where
  "Atoi s =
     (let (neg, t) = (case s of c # t \<Rightarrow> if c = CHR ''-'' then (True, t)
                                        else if c = CHR ''+'' then (False, t) else (False, s)
                      | [] \<Rightarrow> (False, s))
      in if t = [] then None
         else case digits_val 0 t of
           None \<Rightarrow> None
         | Some n \<Rightarrow> (let v = (if neg then - n else n)
                      in if - (2 ^ 63) \<le> v \<and> v \<le> max_int then Some v else None))"

text \<open>Decimal digits of a number, as \<^verbatim>\<open>%d\<close> prints them.\<close>

definition digit_char :: "nat \<Rightarrow> char" where
  "digit_char d = byte (48 + d)"

fun show_nat :: "nat \<Rightarrow> string" where
  "show_nat n = (if n < 10 then [digit_char n] else show_nat (n div 10) @ [digit_char (n mod 10)])"

declare show_nat.simps [simp del]

definition show_int :: "int \<Rightarrow> string" where
  "show_int n = (if n < 0 then CHR ''-'' # show_nat (nat (- n)) else show_nat (nat n))"

lemma digit_val_char [simp]: "d < 10 \<Longrightarrow> digit_val (digit_char d) = Some (int d)"
  by (simp add: digit_val_def digit_char_def Let_def)

lemma digits_val_append:
  "digits_val a (s @ t) = (case digits_val a s of None \<Rightarrow> None | Some b \<Rightarrow> digits_val b t)"
  by (induction s arbitrary: a) (auto split: option.splits)

lemma show_nat_not_Nil [simp]: "show_nat n \<noteq> []"
  by (subst show_nat.simps) simp

lemma digits_val_show_nat: "digits_val 0 (show_nat n) = Some (int n)"
proof (induction n rule: show_nat.induct)
  case (1 n)
  show ?case
  proof (cases "n < 10")
    case True
    then show ?thesis by (simp add: show_nat.simps)
  next
    case False
    with 1 have "digits_val 0 (show_nat (n div 10)) = Some (int (n div 10))" by simp
    with False show ?thesis
      by (subst show_nat.simps) (simp add: digits_val_append zdiv_int zmod_int)
  qed
qed

lemma show_nat_digits: "c \<in> set (show_nat n) \<Longrightarrow> digit_val c \<noteq> None"
proof (induction n arbitrary: c rule: show_nat.induct)
  case (1 n)
  show ?case
  proof (cases "n < 10")
    case True
    with 1(2) show ?thesis by (simp add: show_nat.simps)
  next
    case False
    with 1 show ?thesis by (subst (asm) show_nat.simps) auto
  qed
qed

lemma show_nat_inject: "show_nat m = show_nat n \<Longrightarrow> m = n"
  by (metis digits_val_show_nat of_nat_eq_iff option.inject)

lemma show_nat_sign: "show_nat n \<noteq> CHR ''-'' # s" "show_nat n \<noteq> CHR ''+'' # s"
  using show_nat_digits [of "CHR ''-''" n] show_nat_digits [of "CHR ''+''" n]
  by (auto simp: digit_val_def)

lemma show_int_inject: "show_int m = show_int n \<Longrightarrow> m = n"
  using show_nat_sign(1) [of "nat m"] show_nat_sign(1) [of "nat n"]
  by (auto simp: show_int_def dest!: show_nat_inject split: if_splits) (metis show_nat_sign(1))+

text \<open>Printing and parsing are inverse.\<close>

lemma Atoi_show_int: "- (2 ^ 63) \<le> n \<Longrightarrow> n \<le> max_int \<Longrightarrow> Atoi (show_int n) = Some n"
proof -
  assume n: "- (2 ^ 63) \<le> n" "n \<le> max_int"
  obtain c s where cs: "show_nat (nat n) = c # s" by (metis show_nat_not_Nil neq_Nil_conv)
  have "c \<noteq> CHR ''-''" "c \<noteq> CHR ''+''" using show_nat_sign cs by metis+
  with n cs digits_val_show_nat [of "nat n"] digits_val_show_nat [of "nat (- n)"] show ?thesis
    by (auto simp: Atoi_def show_int_def Let_def)
qed

section \<open>Hexadecimal\<close>

definition hex_digit :: "nat \<Rightarrow> char" where
  "hex_digit d = (if d < 10 then byte (48 + d) else byte (87 + d))"

text \<open>\<^verbatim>\<open>hex.EncodeToString\<close>.\<close>

definition hex_EncodeToString :: "string \<Rightarrow> string" where
  "hex_EncodeToString bs =
     concat (map (\<lambda>b. [hex_digit (of_char b div 16), hex_digit (of_char b mod 16)]) bs)"

definition is_hex :: "char \<Rightarrow> bool" where
  "is_hex c \<longleftrightarrow> (let n = of_char c in 48 \<le> n \<and> n \<le> 57 \<or> 97 \<le> n \<and> n \<le> (102::nat))"

lemma is_hex_digit: "d < 16 \<Longrightarrow> is_hex (hex_digit d)"
  by (auto simp: is_hex_def hex_digit_def Let_def)

lemma hex_digit_code: "d < 16 \<Longrightarrow> of_char (hex_digit d) = (if d < 10 then 48 + d else 87 + d)"
  by (simp add: hex_digit_def take_bit_eq_mod)

lemma hex_digit_inject: 
  assumes "d < 16" "e < 16" "hex_digit d = hex_digit e"
  shows "d = e"
proof -
  have "(if d < 10 then 48 + d else 87 + d) = (if e < 10 then 48 + e else 87 + e)"
    using hex_digit_code [OF assms(1)] hex_digit_code [OF assms(2)] assms(3) by metis
  with assms(1,2) show ?thesis by (simp split: if_splits)
qed

lemma hex_length [simp]: "length (hex_EncodeToString bs) = 2 * length bs"
  by (induction bs) (auto simp: hex_EncodeToString_def)

lemma hex_chars: "c \<in> set (hex_EncodeToString bs) \<Longrightarrow> is_hex c"
proof -
  have "of_char (x::char) < (256::nat)" for x by (cases x) (simp add: horner_sum_bound)
  then have b: "of_char (x::char) div 16 < (16::nat)" for x
    by (simp add: less_mult_imp_div_less)
  show "c \<in> set (hex_EncodeToString bs) \<Longrightarrow> is_hex c"
    using b is_hex_digit by (induction bs) (auto simp: hex_EncodeToString_def)
qed

end
