(* ===== verification/Sha256.thy ===== *)
theory Sha256
  imports GoStd "HOL-Library.Word"
begin

text \<open>
  \<^verbatim>\<open>crypto/sha256\<close>, as FIPS 180-4 defines it, over 32-bit words: padding, the message schedule,
  the 64 rounds and the digest as 32 bytes. \<^verbatim>\<open>internal/auth\<close> stores and compares these digests.
\<close>

unbundle bit_operations_syntax

type_synonym w32 = "32 word"

text \<open>
  The constants are defined as the standard defines them: the first 32 bits of the fractional parts of
  the cube roots of the first 64 primes, and of the square roots of the first eight. An integer root is
  found bit by bit; 38 bits are enough, since no root here exceeds \<open>18\<close> before the binary point.
\<close>

fun iroot :: "nat \<Rightarrow> nat \<Rightarrow> nat \<Rightarrow> nat \<Rightarrow> nat" where
  "iroot k n 0 r = r"
| "iroot k n (Suc b) r = iroot k n b (let r' = r + 2 ^ b in if r' ^ k \<le> n then r' else r)"

lemma iroot_correct:
  "r ^ k \<le> n \<Longrightarrow> n < (r + 2 ^ b) ^ k \<Longrightarrow> iroot k n b r ^ k \<le> n \<and> n < Suc (iroot k n b r) ^ k"
proof (induction b arbitrary: r)
  case (Suc b)
  show ?case using Suc.IH [of "r + 2 ^ b"] Suc.IH [of r] Suc.prems
    by (cases "(r + 2 ^ b) ^ k \<le> n") (simp_all add: Let_def mult_2 add.assoc)
qed simp

definition first_primes :: "nat list" where
  "first_primes =
     [2, 3, 5, 7, 11, 13, 17, 19, 23, 29, 31, 37, 41, 43, 47, 53, 59, 61, 67, 71, 73, 79, 83, 89, 97, 101, 103,
      107, 109, 113, 127, 131, 137, 139, 149, 151, 157, 163, 167, 173, 179, 181, 191, 193, 197, 199, 211, 223,
      227, 229, 233, 239, 241, 251, 257, 263, 269, 271, 277, 281, 283, 293, 307, 311]"

definition root_frac :: "nat \<Rightarrow> nat \<Rightarrow> w32" where
  "root_frac k p = of_nat (iroot k (p * 2 ^ (32 * k)) 38 0)"

definition sha256_K :: "w32 list" where
  "sha256_K = map (root_frac 3) first_primes"

definition sha256_init :: "w32 list" where
  "sha256_init = map (root_frac 2) (take 8 first_primes)"

lemma length_sha256_init [simp]: "length sha256_init = 8"
  by (simp add: sha256_init_def first_primes_def)

text \<open>Big-endian encoding of a number in \<open>n\<close> bytes, and the word of four bytes.\<close>

fun be_bytes :: "nat \<Rightarrow> nat \<Rightarrow> string" where
  "be_bytes 0 v = []"
| "be_bytes (Suc n) v = be_bytes n (v div 256) @ [byte (v mod 256)]"

fun be_words :: "string \<Rightarrow> w32 list" where
  "be_words (a # b # c # d # s) =
     of_nat (((of_char a * 256 + of_char b) * 256 + of_char c) * 256 + of_char d) # be_words s"
| "be_words _ = []"

definition sha256_pad :: "string \<Rightarrow> string" where
  "sha256_pad m = m @ [byte 0x80] @ replicate ((119 - length m mod 64) mod 64) (byte 0) @
     be_bytes 8 (8 * length m)"

text \<open>The schedule is extended at the front of the reversed list, so word \<open>t\<close> has \<open>t-2\<close>, \<open>t-7\<close>, \<open>t-15\<close>
  and \<open>t-16\<close> at the positions 1, 6, 14 and 15.\<close>

definition sha256_next :: "w32 list \<Rightarrow> w32" where
  "sha256_next ws =
     (let a = ws ! 14; b = ws ! 1;
          s0 = word_rotr 7 a XOR word_rotr 18 a XOR drop_bit 3 a;
          s1 = word_rotr 17 b XOR word_rotr 19 b XOR drop_bit 10 b
      in ws ! 15 + s0 + ws ! 6 + s1)"

primrec sha256_schedule :: "nat \<Rightarrow> w32 list \<Rightarrow> w32 list" where
  "sha256_schedule 0 ws = rev ws"
| "sha256_schedule (Suc n) ws = sha256_schedule n (sha256_next ws # ws)"

fun sha256_round :: "w32 list \<Rightarrow> w32 \<times> w32 \<Rightarrow> w32 list" where
  "sha256_round [a, b, c, d, e, f, g, h] (k, w) =
     (let s1 = word_rotr 6 e XOR word_rotr 11 e XOR word_rotr 25 e;
          ch = (e AND f) XOR (NOT e AND g);
          t1 = h + s1 + ch + k + w;
          s0 = word_rotr 2 a XOR word_rotr 13 a XOR word_rotr 22 a;
          maj = (a AND b) XOR (a AND c) XOR (b AND c);
          t2 = s0 + maj
      in [t1 + t2, a, b, c, d + t1, e, f, g])"
| "sha256_round st kw = st"

definition sha256_block :: "w32 list \<Rightarrow> w32 list \<Rightarrow> w32 list" where
  "sha256_block st blk =
     map2 (+) st (foldl sha256_round st (zip sha256_K (sha256_schedule 48 (rev blk))))"

function sha256_blocks :: "w32 list \<Rightarrow> w32 list \<Rightarrow> w32 list" where
  "sha256_blocks st ws =
     (if length ws < 16 then st else sha256_blocks (sha256_block st (take 16 ws)) (drop 16 ws))"
  by pat_completeness auto
termination by (relation "measure (\<lambda>(st, ws). length ws)") auto

declare sha256_blocks.simps [simp del]

definition sha256_Sum256 :: "string \<Rightarrow> string" where
  "sha256_Sum256 m =
     concat (map (\<lambda>w. be_bytes 4 (unat w)) (sha256_blocks sha256_init (be_words (sha256_pad m))))"

lemma length_be_bytes [simp]: "length (be_bytes n v) = n"
  by (induction n arbitrary: v) auto

lemma length_sha256_round [simp]: "length (sha256_round st kw) = length st"
  by (cases "(st, kw)" rule: sha256_round.cases) (auto simp: Let_def)

lemma length_foldl_round [simp]: "length (foldl sha256_round st kws) = length st"
  by (induction kws arbitrary: st) auto

lemma length_sha256_blocks [simp]: "length (sha256_blocks st ws) = length st"
  by (induction st ws rule: sha256_blocks.induct) (subst sha256_blocks.simps, simp add: sha256_block_def)

lemma length_concat_const: "(\<And>x. x \<in> set xs \<Longrightarrow> length (f x) = n) \<Longrightarrow> length (concat (map f xs)) = n * length xs"
  by (induction xs) auto

text \<open>A digest has 32 bytes, whatever the message.\<close>

lemma length_Sum256 [simp]: "length (sha256_Sum256 m) = 32"
  unfolding sha256_Sum256_def by (subst length_concat_const [where n = 4]) auto

end
