(* ===== verification/Auth.thy ===== *)
theory Auth
  imports Models Sha256
begin

text \<open>
  API keys, \<^verbatim>\<open>internal/auth/auth.go\<close>: generation, hashing, validation and revocation over the
  \<^verbatim>\<open>Store\<close> interface. The store is a record of operations on a world \<open>'w\<close>; its contract is the
  locale \<open>key_store\<close>, which the repository's model implements. Randomness and the clock are
  operations of the environment; logging is left out.
\<close>

section \<open>The service\<close>

definition KeyPrefix :: string where "KeyPrefix = ''fda_''"

definition KeyEntropyBytes :: int where "KeyEntropyBytes = 32"

definition LookupPrefixLen :: int where "LookupPrefixLen = 8"

definition ErrInvalidKey :: gerror where
  "ErrInvalidKey = Sentinel ''auth: invalid api key''"

text \<open>The regular expression \<^verbatim>\<open>^fda_[0-9a-f]{64}$\<close>.\<close>

definition rawKeyRe :: "string \<Rightarrow> bool" where
  "rawKeyRe s \<longleftrightarrow> take 4 s = ''fda_'' \<and> length (drop 4 s) = 64 \<and> list_all is_hex (drop 4 s)"

record 'w Store =
  CreateAPIKey :: "APIKey \<Rightarrow> ('w, int) call"
  GetAPIKeysByPrefix :: "string \<Rightarrow> ('w, APIKey list) call"
  ListAPIKeys :: "('w, APIKey list) call"
  RevokeAPIKey :: "int \<Rightarrow> ('w, unit) call"

text \<open>
  The environment: \<^verbatim>\<open>rand.Read\<close> fails or says how it fills the buffer it is given, and
  \<^verbatim>\<open>time.Now\<close> reads the clock.
\<close>

record 'w Env =
  rand_Read :: "('w, nat \<Rightarrow> char) call"
  Now :: "'w \<Rightarrow> time \<times> 'w"

definition GenerateRaw :: "'w Env \<Rightarrow> ('w, string) call" where
  "GenerateRaw env w =
     (case rand_Read env w of
        (Inl err, w) \<Rightarrow> (Inl (wrap_text ''auth: generate key'' err), w)
      | (Inr fill, w) \<Rightarrow>
          (let b = map fill [0..<nat KeyEntropyBytes]
           in (Inr (KeyPrefix @ hex_EncodeToString b), w)))"

definition HashKey :: "string \<Rightarrow> string" where
  "HashKey raw = hex_EncodeToString (sha256_Sum256 raw)"

definition LookupPrefix :: "string \<Rightarrow> string res" where
  "LookupPrefix raw = Prelude.slice raw (len KeyPrefix) (len KeyPrefix + LookupPrefixLen)"

definition Create :: "'w Env \<Rightarrow> 'w Store \<Rightarrow> string \<Rightarrow> time option \<Rightarrow> 'w \<Rightarrow> (string \<times> APIKey) res \<times> 'w" where
  "Create env store label expiresAt w =
     (case GenerateRaw env w of
        (Inl err, w) \<Rightarrow> (Err err, w)
      | (Inr raw, w) \<Rightarrow>
          (case LookupPrefix raw of
             Ok prefix \<Rightarrow>
               (let k = \<lparr>key_ID = 0, key_KeyPrefix = prefix, key_KeyHash = HashKey raw, key_Label = label,
                         key_CreatedAt = 0, key_ExpiresAt = expiresAt, key_RevokedAt = None\<rparr>
                in case CreateAPIKey store k w of
                     (Inl err, w) \<Rightarrow> (Err err, w)
                   | (Inr i, w) \<Rightarrow> (Ok (raw, k\<lparr>key_ID := i\<rparr>), w))
           | Err e \<Rightarrow> (Err e, w)
           | Panic \<Rightarrow> (Panic, w)))"

text \<open>The loop of \<^verbatim>\<open>Validate\<close> over the candidates.\<close>

fun validate_candidates :: "time \<Rightarrow> string \<Rightarrow> APIKey list \<Rightarrow> APIKey res" where
  "validate_candidates now hash [] = Err ErrInvalidKey"
| "validate_candidates now hash (k # ks) =
     (if hash \<noteq> key_KeyHash k then validate_candidates now hash ks
      else if key_RevokedAt k \<noteq> None \<or> (case key_ExpiresAt k of None \<Rightarrow> False | Some t \<Rightarrow> t < now)
      then Err ErrInvalidKey
      else Ok k)"

definition Validate :: "'w Env \<Rightarrow> 'w Store \<Rightarrow> string \<Rightarrow> 'w \<Rightarrow> APIKey res \<times> 'w" where
  "Validate env store raw w =
     (if len raw \<noteq> len KeyPrefix + 64 \<or> \<not> rawKeyRe raw then (Err ErrInvalidKey, w)
      else case LookupPrefix raw of
        Ok prefix \<Rightarrow>
          (case GetAPIKeysByPrefix store prefix w of
             (Inl err, w) \<Rightarrow> (Err (wrap_text ''auth: prefix lookup'' err), w)
           | (Inr candidates, w) \<Rightarrow>
               (let (now, w) = Now env w;
                    hash = HashKey raw
                in (validate_candidates now hash candidates, w)))
      | Err e \<Rightarrow> (Err e, w)
      | Panic \<Rightarrow> (Panic, w))"

definition Revoke :: "'w Store \<Rightarrow> int \<Rightarrow> ('w, unit) call" where
  "Revoke store i w = RevokeAPIKey store i w"

definition List_keys :: "'w Store \<Rightarrow> ('w, APIKey list) call" where
  "List_keys store w = ListAPIKeys store w"

section \<open>Keys and their parts\<close>

lemma length_HashKey [simp]: "length (HashKey raw) = 64"
  by (simp add: HashKey_def)

lemma LookupPrefix_Ok: "12 \<le> length raw \<Longrightarrow> LookupPrefix raw = Ok (take 8 (drop 4 raw))"
  by (simp add: LookupPrefix_def KeyPrefix_def LookupPrefixLen_def Prelude.slice_def len_def)

lemma rawKeyRe_length: "rawKeyRe raw \<Longrightarrow> length raw = 68"
proof -
  assume "rawKeyRe raw"
  then have "take 4 raw = ''fda_''" "length (drop 4 raw) = 64" by (auto simp: rawKeyRe_def)
  then have "length (take 4 raw @ drop 4 raw) = 68" by (simp only: length_append) simp
  then show ?thesis by simp
qed

lemma GenerateRaw_wf:
  "GenerateRaw env w = (Inr raw, w') \<Longrightarrow> rawKeyRe raw"
  using hex_chars
  by (auto simp: GenerateRaw_def Let_def rawKeyRe_def KeyPrefix_def KeyEntropyBytes_def
      list_all_iff split: prod.splits sum.splits)

text \<open>A key is usable when it is neither revoked nor expired; expiry is checked strictly after.\<close>

definition active :: "time \<Rightarrow> APIKey \<Rightarrow> bool" where
  "active now k \<longleftrightarrow> key_RevokedAt k = None \<and> (case key_ExpiresAt k of None \<Rightarrow> True | Some t \<Rightarrow> now \<le> t)"

lemma find_SomeD: "find P xs = Some x \<Longrightarrow> x \<in> set xs \<and> P x"
  by (induction xs) (auto split: if_splits)

lemma find_unique:
  assumes "x \<in> set xs" "P x" "\<And>y. y \<in> set xs \<Longrightarrow> P y \<Longrightarrow> y = x"
  shows "find P xs = Some x"
proof (cases "find P xs")
  case None
  with assms(1,2) show ?thesis by (auto simp: find_None_iff)
next
  case (Some y)
  with find_SomeD [OF Some] assms(3) show ?thesis by simp
qed

lemma validate_candidates_eq:
  "validate_candidates now hash ks =
     (case find (\<lambda>k. key_KeyHash k = hash) ks of
        None \<Rightarrow> Err ErrInvalidKey
      | Some k \<Rightarrow> if active now k then Ok k else Err ErrInvalidKey)"
  by (induction ks) (auto simp: active_def not_less split: option.splits)

lemma Validate_wf:
  assumes "rawKeyRe raw"
  shows "Validate env store raw w =
    (case GetAPIKeysByPrefix store (take 8 (drop 4 raw)) w of
       (Inl err, w) \<Rightarrow> (Err (wrap_text ''auth: prefix lookup'' err), w)
     | (Inr ks, w) \<Rightarrow> (case Now env w of (now, w) \<Rightarrow> (validate_candidates now (HashKey raw) ks, w)))"
  using rawKeyRe_length [OF assms] assms
  by (simp add: Validate_def LookupPrefix_Ok len_def KeyPrefix_def Let_def split: prod.splits sum.splits)

lemma Validate_malformed: "\<not> rawKeyRe raw \<Longrightarrow> Validate env store raw w = (Err ErrInvalidKey, w)"
  by (simp add: Validate_def)

section \<open>The contract of the store\<close>

text \<open>
  What the service relies on. \<open>keys w\<close> are the rows of the key table in the order of their ids,
  \<open>inv\<close> is the store's own invariant. A failed write may or may not have reached the table.
\<close>

locale key_store =
  fixes store :: "'w Store" and keys :: "'w \<Rightarrow> APIKey list" and inv :: "'w \<Rightarrow> bool"
  assumes distinct_hash: "inv w \<Longrightarrow> distinct (map key_KeyHash (keys w))"
    and distinct_id: "inv w \<Longrightarrow> distinct (map key_ID (keys w))"
    and by_prefix: "inv w \<Longrightarrow> GetAPIKeysByPrefix store p w = (r, w') \<Longrightarrow>
      inv w' \<and> keys w' = keys w \<and> (\<forall>ks. r = Inr ks \<longrightarrow> ks = filter (\<lambda>k. key_KeyPrefix k = p) (keys w))"
    and list_all_keys: "inv w \<Longrightarrow> ListAPIKeys store w = (r, w') \<Longrightarrow>
      inv w' \<and> keys w' = keys w \<and> (\<forall>ks. r = Inr ks \<longrightarrow> ks = keys w)"
    and create: "inv w \<Longrightarrow> CreateAPIKey store k w = (rc, w') \<Longrightarrow>
      inv w' \<and> (\<forall>i. rc = Inr i \<longrightarrow> (\<exists>t. keys w' =
        keys w @ [k\<lparr>key_ID := i, key_CreatedAt := t, key_RevokedAt := None\<rparr>])) \<and>
      (keys w' = keys w \<or> (\<exists>i t. keys w' =
        keys w @ [k\<lparr>key_ID := i, key_CreatedAt := t, key_RevokedAt := None\<rparr>]))"
    and revoke: "inv w \<Longrightarrow> RevokeAPIKey store i w = (ru, w') \<Longrightarrow>
      inv w' \<and> (keys w' = keys w \<or> (\<exists>t. keys w' =
        map (\<lambda>k. if key_ID k = i \<and> key_RevokedAt k = None then k\<lparr>key_RevokedAt := Some t\<rparr> else k) (keys w))) \<and>
      (ru = Inr () \<longrightarrow> (\<exists>k \<in> set (keys w'). key_ID k = i) \<and>
        (\<forall>k \<in> set (keys w'). key_ID k = i \<longrightarrow> key_RevokedAt k \<noteq> None))"
begin

lemma Validate_Ok:
  assumes "inv w" "Validate env store raw w = (Ok k, w')"
  shows "rawKeyRe raw \<and> k \<in> set (keys w) \<and> key_KeyHash k = HashKey raw \<and>
    key_KeyPrefix k = take 8 (drop 4 raw) \<and> key_RevokedAt k = None \<and> (\<exists>w1. active (fst (Now env w1)) k)"
proof (cases "rawKeyRe raw")
  case True
  obtain r w1 where g: "GetAPIKeysByPrefix store (take 8 (drop 4 raw)) w = (r, w1)" by force
  with assms True obtain ks where ks: "r = Inr ks"
    and v: "validate_candidates (fst (Now env w1)) (HashKey raw) ks = Ok k"
    by (auto simp: Validate_wf split: sum.splits prod.splits)
  have "ks = filter (\<lambda>k. key_KeyPrefix k = take 8 (drop 4 raw)) (keys w)"
    using by_prefix [OF assms(1) g] ks by simp
  moreover from v have "k \<in> set ks" "key_KeyHash k = HashKey raw" "active (fst (Now env w1)) k"
    by (auto simp: validate_candidates_eq dest: find_SomeD split: option.splits if_splits)
  ultimately show ?thesis using True by (auto simp: active_def)
qed (use assms in \<open>simp add: Validate_malformed\<close>)

lemma Validate_complete:
  assumes w: "inv w" and raw: "rawKeyRe raw" and k: "k \<in> set (keys w)" "key_KeyHash k = HashKey raw"
      "key_KeyPrefix k = take 8 (drop 4 raw)"
    and g: "GetAPIKeysByPrefix store (take 8 (drop 4 raw)) w = (Inr ks, w1)"
  shows "Validate env store raw w =
    (if active (fst (Now env w1)) k then Ok k else Err ErrInvalidKey, snd (Now env w1))"
proof -
  have ks: "ks = filter (\<lambda>k. key_KeyPrefix k = take 8 (drop 4 raw)) (keys w)"
    using by_prefix [OF w g] by simp
  with k have kin: "k \<in> set ks" by simp
  have d: "distinct (map key_KeyHash ks)"
    unfolding ks using distinct_hash [OF w] by (simp add: distinct_map_filter)
  have "find (\<lambda>k. key_KeyHash k = HashKey raw) ks = Some k"
  proof (rule find_unique [where P = "\<lambda>k. key_KeyHash k = HashKey raw"])
    fix k' assume "k' \<in> set ks" "key_KeyHash k' = HashKey raw"
    with kin k(2) d show "k' = k" by (simp add: distinct_map inj_on_def)
  qed (use kin k in auto)
  with raw g show ?thesis by (simp add: Validate_wf validate_candidates_eq split: prod.splits)
qed

lemma Validate_keys:
  assumes "inv w" "Validate env store raw w = (r, w')" "\<And>w. inv w \<Longrightarrow> inv (snd (Now env w)) \<and> keys (snd (Now env w)) = keys w"
  shows "inv w' \<and> keys w' = keys w"
proof (cases "rawKeyRe raw")
  case True
  obtain q w1 where g: "GetAPIKeysByPrefix store (take 8 (drop 4 raw)) w = (q, w1)" by force
  from by_prefix [OF assms(1) g] assms(2) True g assms(3) [of w1] show ?thesis
    by (auto simp: Validate_wf split: sum.splits prod.splits)
qed (use assms in \<open>simp add: Validate_malformed\<close>)

end

end
