(* ===== verification/Cache.thy ===== *)
theory Cache
  imports Models
begin

text \<open>
  The cache interface of \<^verbatim>\<open>internal/service/cache.go\<close> and its Redis implementation
  \<^verbatim>\<open>internal/cache/cache.go\<close>. The Redis client is an argument: a record of the commands the
  program issues, on a world \<open>'w\<close>.
\<close>

record 'w Redis_client =
  rdb_Get :: "string \<Rightarrow> ('w, string) call"
  rdb_Set :: "string \<Rightarrow> string \<Rightarrow> int \<Rightarrow> ('w, unit) call"
  rdb_Del :: "string list \<Rightarrow> ('w, int) call"
  rdb_Incr :: "string \<Rightarrow> ('w, int) call"
  rdb_Expire :: "string \<Rightarrow> int \<Rightarrow> ('w, bool) call"

record 'w Cache =
  cache_Get :: "string \<Rightarrow> ('w, string) call"
  cache_Set :: "string \<Rightarrow> string \<Rightarrow> ('w, unit) call"
  cache_Del :: "string list \<Rightarrow> ('w, unit) call"

record 'w Redis =
  rc_client :: "'w Redis_client"
  rc_ttl :: int
  rc_prefix :: string

definition cache_NewRedis :: "'w Redis_client \<Rightarrow> int \<Rightarrow> 'w Redis" where
  "cache_NewRedis client ttl = \<lparr>rc_client = client, rc_ttl = ttl, rc_prefix = ''fda:''\<rparr>"

definition redis_key :: "'w Redis \<Rightarrow> string \<Rightarrow> string" where
  "redis_key c k = rc_prefix c @ k"

definition Redis_Get :: "'w Redis \<Rightarrow> string \<Rightarrow> ('w, string) call" where
  "Redis_Get c key w = rdb_Get (rc_client c) (redis_key c key) w"

definition Redis_Set :: "'w Redis \<Rightarrow> string \<Rightarrow> string \<Rightarrow> ('w, unit) call" where
  "Redis_Set c key val w = rdb_Set (rc_client c) (redis_key c key) val (rc_ttl c) w"

definition Redis_Del :: "'w Redis \<Rightarrow> string list \<Rightarrow> ('w, unit) call" where
  "Redis_Del c keys w =
     (case rdb_Del (rc_client c) (map (redis_key c) keys) w of
        (Inl err, w) \<Rightarrow> (Inl err, w)
      | (Inr n, w) \<Rightarrow> (Inr (), w))"

text \<open>A \<^verbatim>\<open>*Redis\<close> as a value of the interface.\<close>

definition Redis_Cache :: "'w Redis \<Rightarrow> 'w Cache" where
  "Redis_Cache c = \<lparr>cache_Get = Redis_Get c, cache_Set = Redis_Set c, cache_Del = Redis_Del c\<rparr>"

lemma map_le_Some: "m \<subseteq>\<^sub>m n \<Longrightarrow> m k = Some v \<Longrightarrow> n k = Some v"
  by (metis domI map_le_def)

section \<open>The contract of a cache\<close>

text \<open>
  \<open>entries w\<close> is what the cache holds. A cache may lose entries at any time (time-outs, eviction),
  so a call leaves a part of what was there; a hit is an entry that was there, a successful deletion
  leaves nothing under its keys, and storing adds at most the one entry.
\<close>

locale cache_contract =
  fixes c :: "'w Cache" and entries :: "'w \<Rightarrow> string \<Rightarrow> string option"
  assumes get_sub: "cache_Get c k w = (r, w') \<Longrightarrow> entries w' \<subseteq>\<^sub>m entries w"
    and get_hit: "cache_Get c k w = (Inr v, w') \<Longrightarrow> entries w k = Some v"
    and set_sub: "cache_Set c k v w = (ru, w') \<Longrightarrow> entries w' \<subseteq>\<^sub>m (entries w)(k \<mapsto> v) \<or> entries w' \<subseteq>\<^sub>m entries w"
    and del_sub: "cache_Del c ks w = (ru, w') \<Longrightarrow> entries w' \<subseteq>\<^sub>m entries w"
    and del_gone: "cache_Del c ks w = (Inr (), w') \<Longrightarrow> k \<in> set ks \<Longrightarrow> entries w' k = None"
begin

lemma set_other: "cache_Set c k v w = (r, w') \<Longrightarrow> k' \<noteq> k \<Longrightarrow> entries w' k' = None \<or> entries w' k' = entries w k'"
  using set_sub [of k v w r w'] by (auto simp: map_le_def dom_def)

lemma set_this: "cache_Set c k v w = (r, w') \<Longrightarrow> entries w' k \<in> {None, Some v, entries w k}"
  using set_sub [of k v w r w'] by (auto simp: map_le_def dom_def)

lemma sub_None: "entries w' \<subseteq>\<^sub>m entries w \<Longrightarrow> entries w k = None \<Longrightarrow> entries w' k = None"
  by (metis domIff map_le_implies_dom_le subset_iff)

end

text \<open>
  Keys are prefixed injectively, so any client that is a cache for prefixed keys makes \<open>Redis\<close>
  a cache: the contract holds of the program's wrapper whenever the client's commands have it.
\<close>

definition client_cache :: "'w Redis_client \<Rightarrow> int \<Rightarrow> 'w Cache" where
  "client_cache cl ttl = \<lparr>cache_Get = rdb_Get cl, cache_Set = (\<lambda>k v. rdb_Set cl k v ttl),
     cache_Del = (\<lambda>ks w. case rdb_Del cl ks w of (Inl e, w) \<Rightarrow> (Inl e, w) | (Inr n, w) \<Rightarrow> (Inr (), w))\<rparr>"

lemma Redis_Cache_calls:
  "cache_Get (Redis_Cache (cache_NewRedis cl ttl)) k = cache_Get (client_cache cl ttl) (''fda:'' @ k)"
  "cache_Set (Redis_Cache (cache_NewRedis cl ttl)) k v = cache_Set (client_cache cl ttl) (''fda:'' @ k) v"
  "cache_Del (Redis_Cache (cache_NewRedis cl ttl)) ks = cache_Del (client_cache cl ttl) (map ((@) ''fda:'') ks)"
  by (simp_all add: Redis_Cache_def Redis_Get_def [abs_def] Redis_Set_def [abs_def] Redis_Del_def [abs_def]
      redis_key_def [abs_def] cache_NewRedis_def client_cache_def)

locale redis_cache = raw: cache_contract "client_cache cl ttl" raw_entries
  for cl :: "'w Redis_client" and ttl :: int and raw_entries :: "'w \<Rightarrow> string \<Rightarrow> string option"
begin

lemma key_sub: "raw_entries w' \<subseteq>\<^sub>m raw_entries w \<Longrightarrow>
    (\<lambda>k. raw_entries w' (p @ k)) \<subseteq>\<^sub>m (\<lambda>k. raw_entries w (p @ k))"
  by (auto simp: map_le_def dom_def)

lemma key_upd: "raw_entries w' \<subseteq>\<^sub>m (raw_entries w)(p @ k \<mapsto> v) \<Longrightarrow>
    (\<lambda>k. raw_entries w' (p @ k)) \<subseteq>\<^sub>m (\<lambda>k. raw_entries w (p @ k))(k \<mapsto> v)"
  by (auto simp: map_le_def dom_def)

end

sublocale redis_cache \<subseteq> wrapped: cache_contract "Redis_Cache (cache_NewRedis cl ttl)"
  "\<lambda>w k. raw_entries w (''fda:'' @ k)"
proof (unfold_locales, unfold Redis_Cache_calls)
  fix w w' :: 'w and k v :: string and ks :: "string list" and r :: "string ret" and ru :: "unit ret"
  let ?e = "\<lambda>w k. raw_entries w (''fda:'' @ k)"
  show "cache_Get (client_cache cl ttl) (''fda:'' @ k) w = (r, w') \<Longrightarrow> ?e w' \<subseteq>\<^sub>m ?e w"
    by (intro key_sub raw.get_sub)
  show "cache_Get (client_cache cl ttl) (''fda:'' @ k) w = (Inr v, w') \<Longrightarrow> ?e w k = Some v"
    by (rule raw.get_hit)
  show "cache_Set (client_cache cl ttl) (''fda:'' @ k) v w = (ru, w') \<Longrightarrow>
      ?e w' \<subseteq>\<^sub>m (?e w)(k \<mapsto> v) \<or> ?e w' \<subseteq>\<^sub>m ?e w"
    using key_sub key_upd raw.set_sub by metis
  show "cache_Del (client_cache cl ttl) (map ((@) ''fda:'') ks) w = (ru, w') \<Longrightarrow> ?e w' \<subseteq>\<^sub>m ?e w"
    by (intro key_sub raw.del_sub)
  show "cache_Del (client_cache cl ttl) (map ((@) ''fda:'') ks) w = (Inr (), w') \<Longrightarrow> k \<in> set ks \<Longrightarrow>
      ?e w' k = None"
    by (rule raw.del_gone) auto
qed

end
