(* ===== verification/Ingestion.thy ===== *)
theory Ingestion
  imports Auth Cache
begin

text \<open>
  The ingestion pipeline of \<^verbatim>\<open>internal/service/ingestion.go\<close>: symbol normalization, validation of
  the provider's rows, and \<^verbatim>\<open>Ingest\<close>, which fetches a snapshot, writes it through the
  \<^verbatim>\<open>DataStore\<close> interface, records the run and invalidates the cache. \<^verbatim>\<open>Ingest\<close> returns the
  run together with an error or nil, so its result is a pair. Logging is left out.
\<close>

section \<open>Symbols\<close>

definition ErrInvalidSymbol :: gerror where
  "ErrInvalidSymbol = Sentinel ''ingestion: invalid symbol''"

definition ErrNoPrices :: gerror where
  "ErrNoPrices = Sentinel ''ingestion: no valid price data in provider response''"

text \<open>The regular expression \<^verbatim>\<open>^[A-Z0-9.]{1,10}$\<close>.\<close>

definition symbol_char :: "char \<Rightarrow> bool" where
  "symbol_char c \<longleftrightarrow> (let n = of_char c in 65 \<le> n \<and> n \<le> 90 \<or> 48 \<le> n \<and> n \<le> 57 \<or> n = (46::nat))"

definition symbolRe :: "string \<Rightarrow> bool" where
  "symbolRe s \<longleftrightarrow> 1 \<le> length s \<and> length s \<le> 10 \<and> list_all symbol_char s"

definition IsValidSymbol :: "string \<Rightarrow> bool" where
  "IsValidSymbol s = symbolRe s"

definition normalizeSymbol :: "string \<Rightarrow> string ret" where
  "normalizeSymbol symbol =
     (let nsym = ToUpper (TrimSpace symbol)
      in if \<not> IsValidSymbol nsym
         then Inl (Errorf (Error_text ErrInvalidSymbol @ [Lit '': '', Q symbol]) [ErrInvalidSymbol])
         else Inr nsym)"

section \<open>Validation of rows\<close>

definition isValidPeriod :: "string \<Rightarrow> bool" where
  "isValidPeriod p \<longleftrightarrow> p = ''annual'' \<or> p = ''quarterly''"

text \<open>The loops append the rows they keep.\<close>

fun validPrices :: "DailyPrice list \<Rightarrow> DailyPrice list" where
  "validPrices [] = []"
| "validPrices (p # ps) =
     (if IsZero (dp_Date p) \<or> dp_Open p \<le> 0 \<or> dp_High p \<le> 0 \<or> dp_Low p \<le> 0 \<or> dp_Close p \<le> 0
      then validPrices ps
      else if dp_High p < dp_Open p \<or> dp_High p < dp_Close p \<or> dp_Open p < dp_Low p \<or> dp_Close p < dp_Low p
      then validPrices ps
      else if dp_Volume p < 0 then validPrices ps
      else p # validPrices ps)"

fun validIncomeStatements :: "IncomeStatement list \<Rightarrow> IncomeStatement list" where
  "validIncomeStatements [] = []"
| "validIncomeStatements (s # ss) =
     (if IsZero (inc_FiscalDate s) \<or> \<not> isValidPeriod (inc_Period s) then validIncomeStatements ss
      else s # validIncomeStatements ss)"

fun validBalanceSheets :: "BalanceSheet list \<Rightarrow> BalanceSheet list" where
  "validBalanceSheets [] = []"
| "validBalanceSheets (s # ss) =
     (if IsZero (bal_FiscalDate s) \<or> \<not> isValidPeriod (bal_Period s) then validBalanceSheets ss
      else s # validBalanceSheets ss)"

fun validCashFlows :: "CashFlow list \<Rightarrow> CashFlow list" where
  "validCashFlows [] = []"
| "validCashFlows (f # fs) =
     (if IsZero (cfl_FiscalDate f) \<or> \<not> isValidPeriod (cfl_Period f) then validCashFlows fs
      else f # validCashFlows fs)"

section \<open>The pipeline\<close>

record 'w DataStore =
  UpsertCompany :: "Company \<Rightarrow> ('w, int) call"
  InsertPrices :: "int \<Rightarrow> DailyPrice list \<Rightarrow> ('w, int) call"
  InsertIncomeStatements :: "int \<Rightarrow> IncomeStatement list \<Rightarrow> ('w, int) call"
  InsertBalanceSheets :: "int \<Rightarrow> BalanceSheet list \<Rightarrow> ('w, int) call"
  InsertCashFlows :: "int \<Rightarrow> CashFlow list \<Rightarrow> ('w, int) call"
  RecordRun :: "IngestionRun \<Rightarrow> ('w, unit) call"

record 'w IngestionService =
  ing_provider :: "string \<Rightarrow> ('w, CompanySnapshot) call"
  ing_store :: "'w DataStore"
  ing_cache :: "'w Cache option"

definition NewIngestionService ::
    "(string \<Rightarrow> ('w, CompanySnapshot) call) \<Rightarrow> 'w DataStore \<Rightarrow> 'w Cache list \<Rightarrow> 'w IngestionService" where
  "NewIngestionService p store cache =
     \<lparr>ing_provider = p, ing_store = store,
      ing_cache = (if 0 < len cache then Some (hd cache) else None)\<rparr>"

text \<open>The closure \<^verbatim>\<open>fail\<close>: it completes the run, records it and drops the recording error.\<close>

definition ingest_fail ::
    "'w Env \<Rightarrow> 'w DataStore \<Rightarrow> IngestionRun \<Rightarrow> string \<Rightarrow> gerror option \<Rightarrow> 'w \<Rightarrow>
     (IngestionRun \<times> gerror option) \<times> 'w" where
  "ingest_fail env store run kind insertErr w =
     (let run = run\<lparr>run_Status := kind\<rparr>;
          run = (case insertErr of None \<Rightarrow> run | Some e \<Rightarrow> run\<lparr>run_ErrorMessage := Error_text e\<rparr>);
          (now, w) = Now env w;
          run = run\<lparr>run_FinishedAt := now\<rparr>;
          (recErr, w) = RecordRun store run w
      in ((run, insertErr), w))"

text \<open>The invalidation loop over the two keys of a symbol; deletion errors are dropped.\<close>

definition invalidate :: "'w Cache option \<Rightarrow> string \<Rightarrow> 'w \<Rightarrow> 'w" where
  "invalidate cache nsym w =
     (case cache of
        None \<Rightarrow> w
      | Some c \<Rightarrow> foldl (\<lambda>w k. snd (cache_Del c [k] w)) w [''analytics:'' @ nsym, ''technical:'' @ nsym])"

text \<open>The last part of \<^verbatim>\<open>Ingest\<close>: the successful run is recorded and the cache invalidated.\<close>

definition ingest_finish ::
    "'w Env \<Rightarrow> 'w IngestionService \<Rightarrow> string \<Rightarrow> IngestionRun \<Rightarrow> 'w \<Rightarrow> (IngestionRun \<times> gerror option) \<times> 'w" where
  "ingest_finish env s nsym run w =
     (let run = run\<lparr>run_Status := ''success''\<rparr>;
          (now, w) = Now env w;
          run = run\<lparr>run_FinishedAt := now\<rparr>
      in case RecordRun (ing_store s) run w of
           (Inl recErr, w) \<Rightarrow> ((run, Some (wrap_text ''ingestion succeeded but audit failed'' recErr)), w)
         | (Inr _, w) \<Rightarrow> ((run, None), invalidate (ing_cache s) nsym w))"

text \<open>The three guarded inserts of the statements, each skipped when no row is valid.\<close>

definition ingest_statements ::
    "'w Env \<Rightarrow> 'w IngestionService \<Rightarrow> string \<Rightarrow> int \<Rightarrow> CompanySnapshot \<Rightarrow> IngestionRun \<Rightarrow> 'w \<Rightarrow>
     (IngestionRun \<times> gerror option) \<times> 'w" where
  "ingest_statements env s nsym companyID snap run w =
     (let store = ing_store s;
          income = validIncomeStatements (snap_Income snap);
          balance = validBalanceSheets (snap_Balance snap);
          cashFlow = validCashFlows (snap_CashFlow snap)
      in case (if 0 < len income then InsertIncomeStatements store companyID income w else (Inr 0, w)) of
        (Inl iErr, w) \<Rightarrow> ingest_fail env store run ''failure'' (Some (wrap_text ''insert income statements'' iErr)) w
      | (Inr n, w) \<Rightarrow>
          (let run = (if 0 < len income then run\<lparr>run_IncomeInserted := n\<rparr> else run)
           in case (if 0 < len balance then InsertBalanceSheets store companyID balance w else (Inr 0, w)) of
             (Inl bErr, w) \<Rightarrow> ingest_fail env store run ''failure'' (Some (wrap_text ''insert balance sheets'' bErr)) w
           | (Inr n, w) \<Rightarrow>
               (let run = (if 0 < len balance then run\<lparr>run_BalanceInserted := n\<rparr> else run)
                in case (if 0 < len cashFlow then InsertCashFlows store companyID cashFlow w else (Inr 0, w)) of
                  (Inl cfErr, w) \<Rightarrow>
                    ingest_fail env store run ''failure'' (Some (wrap_text ''insert cash flow statements'' cfErr)) w
                | (Inr n, w) \<Rightarrow>
                    (let run = (if 0 < len cashFlow then run\<lparr>run_CashFlowInserted := n\<rparr> else run)
                     in ingest_finish env s nsym run w))))"

definition Ingest ::
    "'w Env \<Rightarrow> 'w IngestionService \<Rightarrow> string \<Rightarrow> 'w \<Rightarrow> (IngestionRun \<times> gerror option) \<times> 'w" where
  "Ingest env s symbol w =
     (case normalizeSymbol symbol of
        Inl err \<Rightarrow> ((zero_IngestionRun, Some err), w)
      | Inr nsym \<Rightarrow>
          (let (started, w) = Now env w;
               run = zero_IngestionRun\<lparr>run_Symbol := nsym, run_Status := ''failure'', run_StartedAt := started\<rparr>;
               store = ing_store s
           in case ing_provider s nsym w of
             (Inl fetchErr, w) \<Rightarrow> ingest_fail env store run ''failure'' (Some (wrap_text ''fetch snapshot'' fetchErr)) w
           | (Inr snap, w) \<Rightarrow>
               (case UpsertCompany store (snap_Company snap) w of
                  (Inl upsErr, w) \<Rightarrow> ingest_fail env store run ''failure'' (Some (wrap_text ''upsert company'' upsErr)) w
                | (Inr companyID, w) \<Rightarrow>
                    (let run = run\<lparr>run_CompaniesInserted := 1\<rparr>;
                         prices = validPrices (snap_Prices snap)
                     in if len prices = 0 then ingest_fail env store run ''failure'' (Some ErrNoPrices) w
                        else case InsertPrices store companyID prices w of
                          (Inl pErr, w) \<Rightarrow> ingest_fail env store run ''failure'' (Some (wrap_text ''insert prices'' pErr)) w
                        | (Inr n, w) \<Rightarrow>
                            ingest_statements env s nsym companyID snap (run\<lparr>run_PricesInserted := n\<rparr>) w))))"

section \<open>Normal forms of symbols\<close>

lemma match_front_None:
  assumes "\<forall>p \<in> set pats. \<forall>c s'. p = c # s' \<longrightarrow> \<not> P c" "list_all P s"
  shows "match_front pats s = None"
proof -
  have "take (length p) s \<noteq> p" if p: "p \<in> set pats" "p \<noteq> []" for p
  proof -
    obtain c q where "p = c # q" using p by (meson neq_Nil_conv)
    moreover from this p assms(1) have "\<not> P c" by blast
    ultimately show ?thesis using assms(2) by (cases s) auto
  qed
  then show ?thesis by (auto simp: match_front_def find_None_iff)
qed

lemma strip_None: "match_front pats s = None \<Longrightarrow> strip pats s = s"
  by (subst strip.simps) simp

lemma space_not_symbol:
  "\<forall>p \<in> set space_encodings. \<forall>c s'. p = c # s' \<longrightarrow> \<not> symbol_char c"
  "\<forall>p \<in> set (map rev space_encodings). \<forall>c s'. p = c # s' \<longrightarrow> \<not> symbol_char c"
  by (auto simp: space_encodings_def symbol_char_def)

lemma TrimSpace_symbol: "list_all symbol_char s \<Longrightarrow> TrimSpace s = s"
  using match_front_None [OF space_not_symbol(1)] match_front_None [OF space_not_symbol(2), of "rev s"]
  by (simp add: TrimSpace_def strip_None)

lemma upper_symbol: "symbol_char c \<Longrightarrow> upper_char c = c"
  by (auto simp: symbol_char_def upper_char_def Let_def)

lemma symbol_ascii: "symbol_char c \<Longrightarrow> c \<noteq> byte 0xC4 \<and> c \<noteq> byte 0xC5"
  by (auto simp: symbol_char_def)

lemma ToUpper_symbol: "list_all symbol_char s \<Longrightarrow> ToUpper s = s"
proof (induction s rule: ToUpper.induct)
  case (3 c d s)
  then have "c \<noteq> byte 0xC4" "c \<noteq> byte 0xC5" "upper_char c = c" "ToUpper (d # s) = d # s"
    using symbol_ascii [of c] upper_symbol [of c] by auto
  then show ?case by (simp only: ToUpper.simps simp_thms if_False)
qed (simp_all add: upper_symbol)

lemma normalizeSymbol_Inr: "normalizeSymbol symbol = Inr s \<longleftrightarrow> IsValidSymbol s \<and> s = ToUpper (TrimSpace symbol)"
  by (cases "IsValidSymbol (ToUpper (TrimSpace symbol))") (auto simp: normalizeSymbol_def Let_def)

lemma normalizeSymbol_Inl:
  "normalizeSymbol symbol = Inl e \<Longrightarrow>
     e = Errorf (Error_text ErrInvalidSymbol @ [Lit '': '', Q symbol]) [ErrInvalidSymbol]"
  by (auto simp: normalizeSymbol_def Let_def split: if_splits)

lemma normalizeSymbol_fixed: "IsValidSymbol s \<Longrightarrow> normalizeSymbol s = Inr s"
  by (auto simp: normalizeSymbol_Inr IsValidSymbol_def symbolRe_def TrimSpace_symbol ToUpper_symbol)

section \<open>Exactly which symbols are accepted\<close>

text \<open>
  The specification names its characters one by one: \<open>blanks\<close> are the ASCII characters \<^verbatim>\<open>TrimSpace\<close>
  removes, \<open>symbol_chars\<close> those of a symbol, and \<open>capital\<close> is the table of the capital letters.
\<close>

definition blanks :: string where
  "blanks = [CHR 0x09, CHR 0x0A, CHR 0x0B, CHR 0x0C, CHR 0x0D, CHR '' '']"

definition symbol_chars :: string where
  "symbol_chars = ''ABCDEFGHIJKLMNOPQRSTUVWXYZ0123456789.''"

definition small_letters :: string where
  "small_letters = ''abcdefghijklmnopqrstuvwxyz''"

definition capital :: "char \<Rightarrow> char" where
  "capital c = (case map_of (zip small_letters symbol_chars) c of None \<Rightarrow> c | Some d \<Rightarrow> d)"

lemma codes:
  "map of_char symbol_chars = [65..<91] @ [48..<58] @ [46::nat]"
  "map of_char small_letters = [97..<123::nat]"
  by (simp_all add: symbol_chars_def small_letters_def upt_rec)

lemma mem_codes: "c \<in> set cs \<longleftrightarrow> of_char c \<in> set (map of_char cs :: nat list)"
  by (auto simp: of_char_eq_iff)

lemma mem_symbol_chars: "c \<in> set symbol_chars \<longleftrightarrow> of_char c \<in> {65..<91::nat} \<union> {48..<58} \<union> {46}"
  unfolding mem_codes [of c symbol_chars] codes by (simp only: set_append set_upt list.set Un_assoc)

lemma mem_small_letters: "c \<in> set small_letters \<longleftrightarrow> of_char c \<in> {97..<123::nat}"
  unfolding mem_codes [of c small_letters] codes by (simp only: set_upt)

lemma symbol_char_iff: "symbol_char c \<longleftrightarrow> c \<in> set symbol_chars"
  unfolding mem_symbol_chars symbol_char_def Let_def by auto

lemma capital_small:
  assumes "c \<in> set small_letters"
  shows "of_char (capital c) = (of_char c - 32 :: nat)"
  using assms by (auto simp: small_letters_def capital_def symbol_chars_def)

lemma capital_other: "c \<notin> set small_letters \<Longrightarrow> capital c = c"
  by (auto simp: capital_def dest: map_of_SomeD set_zip_leftD split: option.splits)

lemma capital_upper: "upper_char c = capital c"
proof (cases "c \<in> set small_letters")
  case True
  then have "upper_char c = byte (of_char c - 32)" unfolding mem_small_letters upper_char_def by auto
  also have "\<dots> = capital c" unfolding capital_small [OF True, symmetric] by simp
  finally show ?thesis .
next
  case False
  with capital_other [OF False] show ?thesis unfolding mem_small_letters upper_char_def by auto
qed

lemma symbol_capital: "symbol_char (capital c) \<longleftrightarrow> c \<in> set (symbol_chars @ small_letters)"
proof (cases "c \<in> set small_letters")
  case True
  then have "of_char c \<in> {97..<123::nat}" by (simp only: mem_small_letters)
  then have "symbol_char (capital c)" using capital_small [OF True] by (simp add: symbol_char_def Let_def) linarith
  with True show ?thesis by simp
next
  case False
  with capital_other show ?thesis by (simp add: symbol_char_iff)
qed

lemma letter_not_blank: "c \<in> set (symbol_chars @ small_letters) \<Longrightarrow> c \<notin> set blanks"
  by (auto simp: symbol_chars_def small_letters_def blanks_def)

text \<open>On ASCII only the six single-byte patterns can match.\<close>

abbreviation ascii_only :: "string \<Rightarrow> bool" where
  "ascii_only \<equiv> list_all (\<lambda>c. of_char c < (128::nat))"

lemma strip_ascii:
  assumes "\<forall>c \<in> set blanks. [c] \<in> set pats"
    and "\<forall>p \<in> set pats. p \<in> (\<lambda>c. [c]) ` set blanks \<or> \<not> ascii_only p"
  shows "ascii_only s \<Longrightarrow> strip pats s = dropWhile (\<lambda>c. c \<in> set blanks) s"
proof (induction s)
  case Nil
  have "match_front pats [] = None" by (auto simp: match_front_def find_None_iff)
  then show ?case by (simp add: strip_None)
next
  case (Cons c s)
  show ?case
  proof (cases "match_front pats (c # s)")
    case None
    with assms(1) have "c \<notin> set blanks" by (force simp: match_front_def find_None_iff)
    with None show ?thesis by (simp add: strip_None)
  next
    case (Some p)
    from match_front_Some [OF Some] have p: "p \<in> set pats" "p \<noteq> []" "c # s = p @ drop (length p) (c # s)" by auto
    from p(3) Cons.prems have "ascii_only p" by (metis list_all_append)
    with assms(2) p(1) obtain b where "b \<in> set blanks" "p = [b]" by blast
    with p(3) Some Cons show ?thesis by (subst strip.simps) simp
  qed
qed

lemma space_patterns:
  "\<forall>c \<in> set blanks. [c] \<in> set space_encodings"
  "\<forall>p \<in> set space_encodings. p \<in> (\<lambda>c. [c]) ` set blanks \<or> \<not> ascii_only p"
  by code_simp+

lemma TrimSpace_ascii:
  "ascii_only s \<Longrightarrow> TrimSpace s = rev (dropWhile (\<lambda>c. c \<in> set blanks) (rev (dropWhile (\<lambda>c. c \<in> set blanks) s)))"
proof -
  assume a: "ascii_only s"
  have "ascii_only (rev (dropWhile (\<lambda>c. c \<in> set blanks) s))"
    using a by (auto simp: list_all_iff dest: set_dropWhileD)
  moreover have "\<forall>c \<in> set blanks. [c] \<in> set (map rev space_encodings)" using space_patterns(1) by force
  moreover have "\<forall>p \<in> set (map rev space_encodings). p \<in> (\<lambda>c. [c]) ` set blanks \<or> \<not> ascii_only p"
    using space_patterns(2) by (fastforce simp: list_all_rev image_iff)
  ultimately show ?thesis using a strip_ascii [OF space_patterns a]
    by (simp add: TrimSpace_def strip_ascii)
qed

lemma ToUpper_ascii: "ascii_only s \<Longrightarrow> ToUpper s = map capital s"
proof (induction s rule: ToUpper.induct)
  case (3 c d s)
  then have "c \<noteq> byte 0xC4" "c \<noteq> byte 0xC5" by auto
  with 3 show ?case by (simp add: capital_upper)
qed (simp_all add: capital_upper)

text \<open>Trimming decomposes the input, and a middle part without blanks at its ends is what remains.\<close>

lemma trim_parts:
  "\<exists>pre post. s = pre @ rev (dropWhile P (rev (dropWhile P s))) @ post \<and> (\<forall>c \<in> set pre \<union> set post. P c)"
proof -
  let ?u = "dropWhile P s"
  have "s = takeWhile P s @ rev (dropWhile P (rev ?u)) @ rev (takeWhile P (rev ?u))"
    by (metis rev_append rev_rev_ident takeWhile_dropWhile_id)
  then show ?thesis by (metis UnE set_rev set_takeWhileD)
qed

lemma trim_middle:
  assumes "\<forall>c \<in> set pre \<union> set post. P c" "\<forall>c \<in> set t. \<not> P c"
  shows "rev (dropWhile P (rev (dropWhile P (pre @ t @ post)))) = t"
proof (cases t)
  case Nil
  with assms have "\<forall>c \<in> set (pre @ t @ post). P c" by auto
  then have "dropWhile P (pre @ t @ post) = []" by (simp only: dropWhile_eq_Nil_conv)
  then show ?thesis by (simp only: Nil rev.simps dropWhile.simps)
next
  case (Cons c t')
  with assms have "dropWhile P (pre @ t @ post) = t @ post" by (simp add: dropWhile_append2)
  moreover have "dropWhile P (rev post @ rev t) = rev t"
  proof -
    have "dropWhile P (rev post @ rev t) = dropWhile P (rev t)" using assms(1) by (intro dropWhile_append2) simp
    moreover have "dropWhile P (rev t) = rev t" using assms(2) by (cases "rev t") (auto simp: rev_eq_Cons_iff)
    ultimately show ?thesis by simp
  qed
  ultimately show ?thesis by simp
qed



section \<open>Row filters\<close>

text \<open>The order of the float64 numbers, infinities included; a comparison with NaN is false.\<close>

definition price_ok :: "DailyPrice \<Rightarrow> bool" where
  "price_ok p \<longleftrightarrow> dp_Date p \<noteq> 0 \<and> 0 < dp_Low p \<and> dp_Low p \<le> dp_Open p \<and> dp_Open p \<le> dp_High p \<and>
     dp_Low p \<le> dp_Close p \<and> dp_Close p \<le> dp_High p \<and> 0 \<le> dp_Volume p"

lemma float_le_total: "x \<noteq> NaN \<Longrightarrow> y \<noteq> NaN \<Longrightarrow> x \<le> y \<or> y \<le> (x::float64)"
  by (cases x; cases y) auto

lemma float_le_trans: "x \<le> y \<Longrightarrow> y \<le> z \<Longrightarrow> x \<le> (z::float64)"
  by (cases x; cases y; cases z) auto

lemma float_less_iff: "x \<noteq> NaN \<Longrightarrow> y \<noteq> NaN \<Longrightarrow> x < y \<longleftrightarrow> \<not> y \<le> (x::float64)"
  using float_le_total by (auto simp: less_float64_def)

lemma validPrices_filter:
  "validPrices ps = filter (\<lambda>p. \<not> (IsZero (dp_Date p) \<or> dp_Open p \<le> 0 \<or> dp_High p \<le> 0 \<or> dp_Low p \<le> 0 \<or>
     dp_Close p \<le> 0) \<and> \<not> (dp_High p < dp_Open p \<or> dp_High p < dp_Close p \<or> dp_Open p < dp_Low p \<or>
     dp_Close p < dp_Low p) \<and> \<not> dp_Volume p < 0) ps"
  by (induction ps) auto

lemma price_ok_finite:
  assumes "is_finite (dp_Open p)" "is_finite (dp_High p)" "is_finite (dp_Low p)" "is_finite (dp_Close p)"
  shows "price_ok p \<longleftrightarrow> dp_Date p \<noteq> 0 \<and> 0 < fval (dp_Low p) \<and>
     fval (dp_Low p) \<le> fval (dp_Open p) \<and> fval (dp_Open p) \<le> fval (dp_High p) \<and>
     fval (dp_Low p) \<le> fval (dp_Close p) \<and> fval (dp_Close p) \<le> fval (dp_High p) \<and> 0 \<le> dp_Volume p"
  using assms by (auto simp: price_ok_def le_finite less_finite)



text \<open>
  A row whose prices are not numbers passes the price filter: every comparison with NaN is false,
  so none of the guards rejects it.
\<close>
theorem validPrices_keeps_NaN:
  assumes "d \<noteq> 0" "0 \<le> v"
  shows "validPrices [\<lparr>dp_Date = d, dp_Open = NaN, dp_High = NaN, dp_Low = NaN, dp_Close = NaN, dp_Volume = v\<rparr>] =
    [\<lparr>dp_Date = d, dp_Open = NaN, dp_High = NaN, dp_Low = NaN, dp_Close = NaN, dp_Volume = v\<rparr>]"
  using assms by (simp add: IsZero_def less_float64_def)

theorem validPrices_keeps_NaN_witness:
  "validPrices [\<lparr>dp_Date = 1, dp_Open = NaN, dp_High = NaN, dp_Low = NaN, dp_Close = NaN, dp_Volume = 0\<rparr>] =
    [\<lparr>dp_Date = 1, dp_Open = NaN, dp_High = NaN, dp_Low = NaN, dp_Close = NaN, dp_Volume = 0\<rparr>]"
  using validPrices_keeps_NaN [of 1 0] by simp

section \<open>What an ingestion does\<close>

text \<open>
  Every ingestion of a valid symbol ends in one of two places: the completion of a successful run
  or \<open>ingest_fail\<close>. \<open>P\<close> is any property of the world that fetching and writing keep.
\<close>

lemma ingest_statements_outcome:
  assumes P: "P w" and run: "run_Symbol run = nsym" "run_ErrorMessage run = []"
    and inc: "\<And>i xs w r w'. P w \<Longrightarrow> InsertIncomeStatements (ing_store s) i xs w = (r, w') \<Longrightarrow> P w'"
    and bal: "\<And>i xs w r w'. P w \<Longrightarrow> InsertBalanceSheets (ing_store s) i xs w = (r, w') \<Longrightarrow> P w'"
    and cfl: "\<And>i xs w r w'. P w \<Longrightarrow> InsertCashFlows (ing_store s) i xs w = (r, w') \<Longrightarrow> P w'"
  shows "\<exists>run' w1. P w1 \<and> run_Symbol run' = nsym \<and> run_ErrorMessage run' = [] \<and>
    (ingest_statements env s nsym i snap run w = ingest_finish env s nsym run' w1 \<or>
     (\<exists>e. ingest_statements env s nsym i snap run w = ingest_fail env (ing_store s) run' ''failure'' (Some e) w1))"
proof -
  let ?inc = "validIncomeStatements (snap_Income snap)" and ?bal = "validBalanceSheets (snap_Balance snap)"
  let ?cfl = "validCashFlows (snap_CashFlow snap)"
  obtain r1 w1 where 1: "(if 0 < len ?inc then InsertIncomeStatements (ing_store s) i ?inc w else (Inr 0, w)) = (r1, w1)"
    by force
  with P inc have P1: "P w1" by (auto split: if_splits)
  obtain r2 w2 where 2: "(if 0 < len ?bal then InsertBalanceSheets (ing_store s) i ?bal w1 else (Inr 0, w1)) = (r2, w2)"
    by force
  with P1 bal have P2: "P w2" by (auto split: if_splits)
  obtain r3 w3 where 3: "(if 0 < len ?cfl then InsertCashFlows (ing_store s) i ?cfl w2 else (Inr 0, w2)) = (r3, w3)"
    by force
  with P2 cfl have P3: "P w3" by (auto split: if_splits)
  let ?run1 = "\<lambda>n. if 0 < len ?inc then run\<lparr>run_IncomeInserted := n\<rparr> else run"
  let ?run2 = "\<lambda>n m. if 0 < len ?bal then (?run1 n)\<lparr>run_BalanceInserted := m\<rparr> else ?run1 n"
  let ?run3 = "\<lambda>n m k. if 0 < len ?cfl then (?run2 n m)\<lparr>run_CashFlowInserted := k\<rparr> else ?run2 n m"
  have R: "run_Symbol (?run1 n) = nsym \<and> run_ErrorMessage (?run1 n) = []"
    "run_Symbol (?run2 n m) = nsym \<and> run_ErrorMessage (?run2 n m) = []"
    "run_Symbol (?run3 n m k) = nsym \<and> run_ErrorMessage (?run3 n m k) = []" for n m k
    using run by simp_all
  note eq = ingest_statements_def Let_def 1 2 3 prod.case sum.case
  show ?thesis
  proof (cases r1)
    case (Inl e)
    show ?thesis unfolding eq Inl using P1 run by blast
  next
    case r1: (Inr n)
    show ?thesis
    proof (cases r2)
      case (Inl e)
      show ?thesis unfolding ingest_statements_def Let_def 1 r1 prod.case sum.case 2 Inl using P2 R(1) by blast
    next
      case r2: (Inr m)
      show ?thesis
        unfolding ingest_statements_def Let_def 1 r1 prod.case sum.case 2 r2 3
        by (cases r3; simp only: sum.case) (use P3 R(2,3) in blast)+
    qed
  qed
qed

lemma Ingest_outcome:
  assumes P: "P w" and nsym: "normalizeSymbol symbol = Inr nsym"
    and now: "\<And>w t w'. P w \<Longrightarrow> Now env w = (t, w') \<Longrightarrow> P w'"
    and fetch: "\<And>w r w'. P w \<Longrightarrow> ing_provider s nsym w = (r, w') \<Longrightarrow> P w'"
    and ups: "\<And>c w r w'. P w \<Longrightarrow> UpsertCompany (ing_store s) c w = (r, w') \<Longrightarrow> P w'"
    and pri: "\<And>i xs w r w'. P w \<Longrightarrow> InsertPrices (ing_store s) i xs w = (r, w') \<Longrightarrow> P w'"
    and inc: "\<And>i xs w r w'. P w \<Longrightarrow> InsertIncomeStatements (ing_store s) i xs w = (r, w') \<Longrightarrow> P w'"
    and bal: "\<And>i xs w r w'. P w \<Longrightarrow> InsertBalanceSheets (ing_store s) i xs w = (r, w') \<Longrightarrow> P w'"
    and cfl: "\<And>i xs w r w'. P w \<Longrightarrow> InsertCashFlows (ing_store s) i xs w = (r, w') \<Longrightarrow> P w'"
  shows "\<exists>run' w1. P w1 \<and> run_Symbol run' = nsym \<and> run_ErrorMessage run' = [] \<and>
    (Ingest env s symbol w = ingest_finish env s nsym run' w1 \<or>
     (\<exists>e. Ingest env s symbol w = ingest_fail env (ing_store s) run' ''failure'' (Some e) w1))"
proof -
  obtain t w1 where 1: "Now env w = (t, w1)" by force
  define run where "run = zero_IngestionRun\<lparr>run_Symbol := nsym, run_Status := ''failure'', run_StartedAt := t\<rparr>"
  have R: "run_Symbol run = nsym" "run_ErrorMessage run = []" by (simp_all add: run_def zero_IngestionRun_def)
  have P1: "P w1" using now P 1 by blast
  obtain r2 w2 where 2: "ing_provider s nsym w1 = (r2, w2)" by force
  have P2: "P w2" using fetch P1 2 by blast
  note eq = Ingest_def nsym Let_def 1 prod.case sum.case run_def [symmetric] 2
  show ?thesis
  proof (cases r2)
    case (Inl e)
    show ?thesis unfolding eq Inl using P2 R by blast
  next
    case r2: (Inr snap)
    obtain r3 w3 where 3: "UpsertCompany (ing_store s) (snap_Company snap) w2 = (r3, w3)" by force
    have P3: "P w3" using ups P2 3 by blast
    let ?r1 = "run\<lparr>run_CompaniesInserted := 1\<rparr>" and ?ps = "validPrices (snap_Prices snap)"
    have R1: "run_Symbol ?r1 = nsym" "run_ErrorMessage ?r1 = []" using R by simp_all
    show ?thesis
    proof (cases r3)
      case (Inl e)
      show ?thesis unfolding eq r2 3 Inl using P3 R by blast
    next
      case r3: (Inr i)
      obtain r4 w4 where 4: "InsertPrices (ing_store s) i ?ps w3 = (r4, w4)" by force
      have P4: "P w4" using pri P3 4 by blast
      show ?thesis
      proof (cases "len ?ps = 0")
        case True
        show ?thesis unfolding eq r2 3 r3 if_P [OF True] using P3 R1 by blast
      next
        case False
        note eq4 = eq r2 3 r3 if_not_P [OF False] 4
        show ?thesis
        proof (cases r4)
          case (Inl e)
          show ?thesis unfolding eq4 Inl using P4 R1 by blast
        next
          case (Inr n)
          have R2: "run_Symbol (?r1\<lparr>run_PricesInserted := n\<rparr>) = nsym" "run_ErrorMessage (?r1\<lparr>run_PricesInserted := n\<rparr>) = []"
            using R by simp_all
          show ?thesis unfolding eq4 Inr
            by (intro ingest_statements_outcome [where P = P])
              (fact P4, fact R2(1), fact R2(2), erule (1) inc, erule (1) bal, erule (1) cfl)
        qed
      qed
    qed
  qed
qed

section \<open>Audit and invalidation\<close>

text \<open>
  The part of the store's contract the audit trail rests on: \<open>runs w\<close> are the rows of the audit
  table, recording appends one (a failed recording may have reached the table or not), and the
  data writes leave the table alone. In a \<open>calm\<close> world no statement fails: recording succeeds, and the
  data writes keep the world calm.
\<close>

locale audit_store =
  fixes store :: "'w DataStore" and runs :: "'w \<Rightarrow> 'r list" and row :: "IngestionRun \<Rightarrow> 'r" and calm :: "'w \<Rightarrow> bool"
  assumes record_run: "RecordRun store run w = (ru, w') \<Longrightarrow>
      (ru = Inr () \<longrightarrow> runs w' = runs w @ [row run]) \<and> runs w' \<in> {runs w, runs w @ [row run]} \<and> (calm w \<longrightarrow> ru = Inr ())"
    and upsert_runs: "UpsertCompany store c w = (ri, w') \<Longrightarrow> runs w' = runs w \<and> (calm w \<longrightarrow> calm w')"
    and prices_runs: "InsertPrices store i ps w = (ri, w') \<Longrightarrow> runs w' = runs w \<and> (calm w \<longrightarrow> calm w')"
    and income_runs: "InsertIncomeStatements store i xs w = (ri, w') \<Longrightarrow> runs w' = runs w \<and> (calm w \<longrightarrow> calm w')"
    and balance_runs: "InsertBalanceSheets store i bs w = (ri, w') \<Longrightarrow> runs w' = runs w \<and> (calm w \<longrightarrow> calm w')"
    and cash_runs: "InsertCashFlows store i fs w = (ri, w') \<Longrightarrow> runs w' = runs w \<and> (calm w \<longrightarrow> calm w')"
begin

lemma fail_audited:
  assumes "ingest_fail env store run kind (Some e) w = ((run', err), w')"
  shows "run_Symbol run' = run_Symbol run \<and> run_Status run' = kind \<and> run_ErrorMessage run' = Error_text e \<and> err = Some e \<and>
    (\<exists>ru. RecordRun store run' (snd (Now env w)) = (ru, w'))"
  using assms by (auto simp: ingest_fail_def Let_def split: prod.splits)

lemma finish_audited:
  assumes "ingest_finish env s nsym run w = ((run', err), w')" "ing_store s = store"
  shows "run_Symbol run' = run_Symbol run \<and> run_Status run' = ''success'' \<and> run_ErrorMessage run' = run_ErrorMessage run \<and>
    (\<exists>ru w2. RecordRun store run' (snd (Now env w)) = (ru, w2) \<and> (ing_cache s = None \<longrightarrow> w' = w2) \<and>
      (case err of None \<Rightarrow> ru = Inr ()
       | Some e \<Rightarrow> \<exists>re. ru = Inl re \<and> e = wrap_text ''ingestion succeeded but audit failed'' re))"
  using assms by (auto simp: ingest_finish_def invalidate_def Let_def split: prod.splits sum.splits)

text \<open>
  A run ends with one call of \<^verbatim>\<open>RecordRun\<close> on exactly the run it returns, in a world whose audit table is
  still the one it started with; without a cache to invalidate this is the last thing it does.
\<close>

lemma Ingest_audited:
  assumes ing: "Ingest env s symbol w = ((run, err), w')" and nsym: "normalizeSymbol symbol = Inr nsym"
    and st: "ing_store s = store"
    and now: "\<And>w. runs (snd (Now env w)) = runs w \<and> (calm w \<longrightarrow> calm (snd (Now env w)))"
    and fetch: "\<And>w. runs (snd (ing_provider s nsym w)) = runs w \<and> (calm w \<longrightarrow> calm (snd (ing_provider s nsym w)))"
  shows "run_Symbol run = nsym \<and>
    (\<exists>ru w1 w2. runs w1 = runs w \<and> (calm w \<longrightarrow> calm w1) \<and> RecordRun store run w1 = (ru, w2) \<and> (ing_cache s = None \<longrightarrow> w' = w2) \<and>
      (case err of
         None \<Rightarrow> run_Status run = ''success'' \<and> run_ErrorMessage run = [] \<and> ru = Inr ()
       | Some e \<Rightarrow> run_Status run = ''failure'' \<and> run_ErrorMessage run = Error_text e \<or>
           run_Status run = ''success'' \<and> run_ErrorMessage run = [] \<and>
             (\<exists>re. ru = Inl re \<and> e = wrap_text ''ingestion succeeded but audit failed'' re)))"
proof -
  let ?P = "\<lambda>v. runs v = runs w \<and> (calm w \<longrightarrow> calm v)"
  have nw: "?P v'" if "?P v" "Now env v = (t, v')" for v t v' using now [of v] that by auto
  have ft: "?P v'" if "?P v" "ing_provider s nsym v = (t, v')" for v t v' using fetch [of v] that by auto
  have "\<exists>run' w1. ?P w1 \<and> run_Symbol run' = nsym \<and> run_ErrorMessage run' = [] \<and>
    (Ingest env s symbol w = ingest_finish env s nsym run' w1 \<or>
     (\<exists>e. Ingest env s symbol w = ingest_fail env (ing_store s) run' ''failure'' (Some e) w1))"
    by (rule Ingest_outcome [where P = ?P, OF _ nsym nw ft])
      (auto simp: st dest: upsert_runs prices_runs income_runs balance_runs cash_runs)
  then obtain run' w1 where w1: "?P w1" "run_Symbol run' = nsym" "run_ErrorMessage run' = []"
    and c: "ingest_finish env s nsym run' w1 = ((run, err), w') \<or>
      (\<exists>e. ingest_fail env store run' ''failure'' (Some e) w1 = ((run, err), w'))"
    using ing st by metis
  have w2: "?P (snd (Now env w1))" using nw [OF w1(1)] by (metis prod.collapse)
  from c show ?thesis
  proof
    assume "ingest_finish env s nsym run' w1 = ((run, err), w')"
    from finish_audited [OF this st] w1 w2 show ?thesis by (cases err) fastforce+
  next
    assume "\<exists>e. ingest_fail env store run' ''failure'' (Some e) w1 = ((run, err), w')"
    then obtain e where "ingest_fail env store run' ''failure'' (Some e) w1 = ((run, err), w')" by blast
    from fail_audited [OF this] w1 w2 show ?thesis by fastforce
  qed
qed

end

context cache_contract
begin

lemma invalidate_purges:
  assumes ok: "\<And>ks w. \<exists>w'. cache_Del c ks w = (Inr (), w')"
    and k: "k \<in> {''analytics:'' @ nsym, ''technical:'' @ nsym}"
  shows "entries (invalidate (Some c) nsym w) k = None"
proof -
  obtain w1 where 1: "cache_Del c [''analytics:'' @ nsym] w = (Inr (), w1)" using ok by blast
  obtain w2 where 2: "cache_Del c [''technical:'' @ nsym] w1 = (Inr (), w2)" using ok by blast
  have "invalidate (Some c) nsym w = w2" using 1 2 by (simp add: invalidate_def)
  moreover have "entries w2 (''technical:'' @ nsym) = None" using del_gone [OF 2] by simp
  moreover have "entries w2 (''analytics:'' @ nsym) = None"
    using sub_None [OF del_sub [OF 2]] del_gone [OF 1] by simp
  ultimately show ?thesis using k by auto
qed

end

end
