(* ===== verification/Analytics.thy ===== *)
theory Analytics
  imports Float64
begin

text \<open>
  The package \<^verbatim>\<open>internal/analytics\<close> without its price series: the sentinel errors, the guarded
  quotient \<open>ratio\<close> and the nine fundamental metrics built on it. The lemmas say when each
  metric is defined and how far its float64 value can be from the exact quotient.
\<close>

section \<open>Errors\<close>

definition analytics_ErrInsufficientData :: gerror where
  "analytics_ErrInsufficientData = Sentinel ''analytics: insufficient data''"

definition analytics_ErrInvalidInput :: gerror where
  "analytics_ErrInvalidInput = Sentinel ''analytics: invalid input''"

definition analytics_ErrUndefined :: gerror where
  "analytics_ErrUndefined = Sentinel ''analytics: undefined ratio''"

lemmas analytics_errors =
  analytics_ErrInsufficientData_def analytics_ErrInvalidInput_def analytics_ErrUndefined_def

section \<open>Guards and quotients\<close>

definition ratio :: "float64 \<Rightarrow> float64 \<Rightarrow> bool \<Rightarrow> float64 res" where
  "ratio num den allowNegative =
     (if feq den 0 \<or> (\<not> allowNegative \<and> den < 0) then Err analytics_ErrUndefined
      else Ok (num / den))"

fun checkPositive :: "float64 list \<Rightarrow> gerror option" where
  "checkPositive [] = None"
| "checkPositive (x # v) = (if x \<le> 0 then Some analytics_ErrInvalidInput else checkPositive v)"

section \<open>The fundamental metrics\<close>

definition growth :: "float64 \<Rightarrow> float64 \<Rightarrow> float64 res" where
  "growth prev latest =
     (if prev \<le> 0 then Err analytics_ErrUndefined else Ok ((latest - prev) / prev))"

definition RevenueGrowth :: "float64 \<Rightarrow> float64 \<Rightarrow> float64 res" where
  "RevenueGrowth prev latest = growth prev latest"

definition EarningsGrowth :: "float64 \<Rightarrow> float64 \<Rightarrow> float64 res" where
  "EarningsGrowth prev latest = growth prev latest"

definition CurrentRatio :: "float64 \<Rightarrow> float64 \<Rightarrow> float64 res" where
  "CurrentRatio currentAssets currentLiabilities = ratio currentAssets currentLiabilities False"

definition DebtToEquity :: "float64 \<Rightarrow> float64 \<Rightarrow> float64 res" where
  "DebtToEquity totalDebt equity = ratio totalDebt equity False"

definition ROE :: "float64 \<Rightarrow> float64 \<Rightarrow> float64 res" where
  "ROE netIncome equity = ratio netIncome equity False"

definition ROA :: "float64 \<Rightarrow> float64 \<Rightarrow> float64 res" where
  "ROA netIncome totalAssets = ratio netIncome totalAssets False"

definition NetMargin :: "float64 \<Rightarrow> float64 \<Rightarrow> float64 res" where
  "NetMargin netIncome revenue = ratio netIncome revenue True"

definition PERatio :: "float64 \<Rightarrow> float64 \<Rightarrow> float64 res" where
  "PERatio price dilutedEPS =
     (if price \<le> 0 then Err analytics_ErrInvalidInput else ratio price dilutedEPS True)"

definition PriceToBook :: "float64 \<Rightarrow> float64 \<Rightarrow> float64 \<Rightarrow> float64 res" where
  "PriceToBook price totalEquity sharesOutstanding =
     (if price \<le> 0 then Err analytics_ErrInvalidInput
      else if sharesOutstanding \<le> 0 \<or> totalEquity \<le> 0 then Err analytics_ErrUndefined
      else Ok (price / (totalEquity / sharesOutstanding)))"

lemmas metric_defs =
  growth_def RevenueGrowth_def EarningsGrowth_def CurrentRatio_def DebtToEquity_def ROE_def
  ROA_def NetMargin_def PERatio_def PriceToBook_def ratio_def

section \<open>Lemmas\<close>

lemma checkPositive_None: "checkPositive xs = None \<longleftrightarrow> (\<forall>x \<in> set xs. \<not> x \<le> 0)"
  by (induction xs) auto

lemma checkPositive_Some: "checkPositive xs = Some e \<Longrightarrow> e = analytics_ErrInvalidInput"
  by (induction xs) (auto split: if_splits)

lemma zero_le_iff: "0 \<le> x \<longleftrightarrow> x = Inf False \<or> (is_finite x \<and> 0 \<le> fval x)" for x :: float64
  by (cases x) (auto simp: zero_float64_def)

lemma le_zero_iff: "x \<le> 0 \<longleftrightarrow> x = Inf True \<or> (is_finite x \<and> fval x \<le> 0)" for x :: float64
  by (cases x) (auto simp: zero_float64_def)

lemma round64_sign:
  "0 \<le> v \<Longrightarrow> 0 \<le> round64 v" "v \<le> 0 \<Longrightarrow> round64 v \<le> 0"
  by (auto simp: zero_le_iff le_zero_iff round64_def rnd_def Let_def rmag_nonneg)

lemma minus_sign:
  assumes "is_finite x" "is_finite y"
  shows "y \<le> x \<Longrightarrow> 0 \<le> x - y" and "x \<le> y \<Longrightarrow> x - y \<le> 0"
proof -
  obtain s a t b where xy: "x = Fin s a" "y = Fin t b" using assms by (auto simp: is_finite_iff)
  have d: "x - y = (if fval x - fval y = 0 then Fin (s \<and> \<not> t) 0 else round64 (fval x - fval y))"
    by (simp add: xy minus_float64_def Let_def)
  show "y \<le> x \<Longrightarrow> 0 \<le> x - y" "x \<le> y \<Longrightarrow> x - y \<le> 0"
    using round64_sign [of "fval x - fval y"] le_finite assms unfolding d
    by (auto simp: zero_le_iff le_zero_iff)
qed

lemma divide_sign:
  assumes "is_finite y" "wf64 y" "0 < fval y" "wf64 x"
  shows "0 \<le> x \<Longrightarrow> 0 \<le> x / y" and "x \<le> 0 \<Longrightarrow> x / y \<le> 0"
proof -
  obtain b where y: "y = Fin False b" "0 < b"
    using assms by (auto simp: is_finite_iff split: if_splits)
  have sgn: "0 \<le> rnd s q" if "\<not> s \<or> q = 0" "0 \<le> q" for s q
    using that by (auto simp: zero_le_iff rnd_def Let_def rmag_nonneg)
  have sgn': "rnd s q \<le> 0" if "s \<or> q = 0" "0 \<le> q" for s q
    using that by (auto simp: le_zero_iff rnd_def Let_def rmag_nonneg)
  have "(0 \<le> x \<longrightarrow> 0 \<le> x / y) \<and> (x \<le> 0 \<longrightarrow> x / y \<le> 0)"
  proof (cases x)
    case (Fin s a)
    with assms(4) have a: "0 \<le> a" by simp
    then have "0 \<le> a / b" using y by simp
    with Fin y sgn [of s "a / b"] sgn' [of s "a / b"] a
    show ?thesis
      by (auto simp: zero_le_iff [of "Fin s a"] le_zero_iff [of "Fin s a"] split: if_splits)
  qed (use y in \<open>auto simp: zero_le_iff le_zero_iff\<close>)
  then show "0 \<le> x \<Longrightarrow> 0 \<le> x / y" "x \<le> 0 \<Longrightarrow> x / y \<le> 0" by auto
qed

section \<open>Properties\<close>

text \<open>
  C27. On finite inputs each of the nine metrics returns a number exactly under its documented
  condition, and an error otherwise: the price must be positive for P/E and P/B; equity, assets
  and liabilities must be positive where they are denominators; revenue and diluted EPS only have
  to be nonzero; the base of a growth rate must be positive.
\<close>
theorem metrics_defined_iff:
  assumes "\<forall>x \<in> {price, eps, equity, shares, income, assets, revenue, curAssets, curLiab, debt, prev}. is_finite x"
  shows "(is_Ok (PERatio price eps) \<longleftrightarrow> 0 < fval price \<and> fval eps \<noteq> 0) \<and>
    (is_Ok (PriceToBook price equity shares) \<longleftrightarrow>
       0 < fval price \<and> 0 < fval shares \<and> 0 < fval equity) \<and>
    (is_Ok (ROE income equity) \<longleftrightarrow> 0 < fval equity) \<and>
    (is_Ok (ROA income assets) \<longleftrightarrow> 0 < fval assets) \<and>
    (is_Ok (NetMargin income revenue) \<longleftrightarrow> fval revenue \<noteq> 0) \<and>
    (is_Ok (CurrentRatio curAssets curLiab) \<longleftrightarrow> 0 < fval curLiab) \<and>
    (is_Ok (DebtToEquity debt equity) \<longleftrightarrow> 0 < fval equity) \<and>
    (is_Ok (RevenueGrowth prev latest) \<longleftrightarrow> 0 < fval prev) \<and>
    (is_Ok (EarningsGrowth prev latest) \<longleftrightarrow> 0 < fval prev)"
proof -
  have r: "is_Ok (ratio n d True) \<longleftrightarrow> fval d \<noteq> 0" "is_Ok (ratio n d False) \<longleftrightarrow> 0 < fval d"
    if "is_finite d" for n d using that by (auto simp: ratio_def feq_finite less_finite)
  show ?thesis using assms r
    by (simp add: PERatio_def PriceToBook_def ROE_def ROA_def NetMargin_def CurrentRatio_def
        DebtToEquity_def RevenueGrowth_def EarningsGrowth_def growth_def le_finite)
qed

theorem metrics_defined_iff_witness:
  "is_Ok (PERatio (f64 10) (f64 2)) \<and> is_Ok (PERatio (f64 10) (f64 (-2))) \<and>
   \<not> is_Ok (ROE (f64 1) (f64 (-4))) \<and> \<not> is_Ok (NetMargin (f64 1) (f64 0))"
proof -
  have v: "is_finite (f64 n) \<and> fval (f64 n) = of_int n" if "n \<in> {10, 2, -2, 1, -4, 0}" for n
    using that by (intro f64_exact) auto
  let ?z = "f64 0"
  show ?thesis
    using metrics_defined_iff [of "f64 10" "f64 2" "f64 (-4)" ?z "f64 1" ?z ?z ?z ?z ?z ?z]
      metrics_defined_iff [of "f64 10" "f64 (-2)" "f64 (-4)" ?z "f64 1" ?z ?z ?z ?z ?z ?z] v
    by simp
qed

text \<open>
  C33. The growth rate of a finite base and a finite latest value: it is not negative when the
  value did not fall, not positive when it did not rise, and never below -1 when the latest value
  is not negative, rounding and overflow included.
\<close>
theorem growth_sign:
  assumes fin: "fin64 prev" "fin64 latest" and g: "growth prev latest = Ok g"
  shows "(prev \<le> latest \<longrightarrow> 0 \<le> g) \<and> (latest \<le> prev \<longrightarrow> g \<le> 0) \<and> (0 \<le> latest \<longrightarrow> - 1 \<le> g)"
proof -
  from g have gdef: "g = (latest - prev) / prev" and "\<not> prev \<le> 0"
    by (auto simp: growth_def split: if_splits)
  then have pos: "0 < fval prev" using fin by (simp add: le_finite)
  have a: "prev \<le> latest \<longrightarrow> 0 \<le> g" "latest \<le> prev \<longrightarrow> g \<le> 0"
    using minus_sign [of latest prev] divide_sign [of prev "latest - prev"] fin pos
    by (simp_all add: gdef)
  have "- 1 \<le> g" if nn: "0 \<le> latest"
  proof (cases "latest \<le> prev")
    case True
    let ?v = "fval latest - fval prev"
    have v: "- fval prev \<le> ?v" "?v \<le> 0" using True nn fin by (simp_all add: le_finite)
    have rep: "rep64 (- fval prev)" using fin rep64_fval [of prev] by (simp add: rep64_def)
    have b: "- fval prev \<le> rv ?v" "rv ?v \<le> 0"
      using rv64.rep_le [OF v(1) rep] rv64.nonpos [OF v(2)] by auto
    then have lt: "\<bar>rv ?v\<bar> < max64" using fval_bound [of prev] fin by auto
    from minus_exact [OF _ _ lt] fin have d: "fin64 (latest - prev)" "fval (latest - prev) = rv ?v" by auto
    let ?q = "rv ?v / fval prev"
    have q: "- 1 \<le> ?q" "?q \<le> 0" using b pos by (simp_all add: le_divide_eq divide_le_0_iff)
    have "rep64 (- 1)" using rep64_of_int [of "- 1"] by simp
    from rv64.rep_le [OF q(1) this] rv64.nonpos [OF q(2)] have r: "- 1 \<le> rv ?q" "rv ?q \<le> 0" by auto
    then have "\<bar>rv ?q\<bar> < max64" by (auto simp: max64_def)
    from divide_exact [of "latest - prev" prev] this d fin pos
    have "is_finite g" "fval g = rv ?q" by (auto simp: gdef)
    with r show ?thesis by (simp add: le_finite)
  next
    case False
    then have "0 \<le> g" using a fin by (auto simp: le_finite)
    then show ?thesis by (auto simp: zero_le_iff le_finite one_float64_def)
  qed
  with a show ?thesis by blast
qed

theorem growth_sign_witness:
  "\<exists>g. growth (f64 4) (f64 3) = Ok g \<and> g \<le> 0 \<and> - 1 \<le> g"
proof -
  have v: "fin64 (f64 4)" "fin64 (f64 3)" "fval (f64 4) = 4" "fval (f64 3) = 3"
    using f64_exact [of 4] f64_exact [of 3] by simp_all
  then have "growth (f64 4) (f64 3) = Ok ((f64 3 - f64 4) / f64 4)"
    by (simp add: growth_def le_finite)
  from growth_sign [OF v(1,2) this] v this show ?thesis by (simp add: le_finite)
qed

text \<open>
  C31. A metric that is a quotient of two finite numbers is the correctly rounded quotient: when
  the exact value is in the normal range of float64, \<open>ratio\<close> returns a finite number within one
  part in \<open>2^53\<close> of it.
\<close>
theorem ratio_accuracy:
  assumes fin: "fin64 num" "fin64 den" and den: "0 < fval den \<or> (neg \<and> fval den < 0)"
    and range: "2 powi (-1022) \<le> \<bar>fval num / fval den\<bar>" "\<bar>fval num / fval den\<bar> \<le> 2 ^ 1023"
  shows "\<exists>r. ratio num den neg = Ok r \<and> fin64 r \<and>
    \<bar>fval r - fval num / fval den\<bar> \<le> \<bar>fval num / fval den\<bar> * 2 powi (-53)"
proof -
  have "ratio num den neg = Ok (num / den)"
    using fin den by (auto simp: ratio_def feq_finite less_finite)
  then show ?thesis using divide_rel_error [OF fin _ range] den by auto
qed

theorem ratio_accuracy_witness:
  "\<exists>r. ratio (f64 1) (f64 3) False = Ok r \<and> fin64 r \<and>
    \<bar>fval r - fval (f64 1) / fval (f64 3)\<bar> \<le> \<bar>fval (f64 1) / fval (f64 3)\<bar> * 2 powi (-53)"
proof -
  have v: "fval (f64 1) = 1" "fval (f64 3) = 3" "fin64 (f64 1)" "fin64 (f64 3)"
    using f64_exact [of 1] f64_exact [of 3] by simp_all
  have "(2::rat) powi (-1022) \<le> 2 powi (-2)" by (rule power_int_increasing) simp_all
  then have r: "(2::rat) powi (-1022) \<le> 1 / 3" by simp
  show ?thesis by (rule ratio_accuracy) (use v r in simp_all)
qed

text \<open>
  C32. Price-to-book divides twice, by the book value per share and then the price by it, so it
  rounds twice: for positive finite inputs in range the result is finite and within three parts
  in \<open>2^53\<close> of the exact \<open>price * shares / equity\<close>.
\<close>
theorem PriceToBook_accuracy:
  assumes fin: "fin64 price" "fin64 equity" "fin64 shares"
    and pos: "0 < fval price" "0 < fval equity" "0 < fval shares"
    and book: "2 powi (-1022) \<le> fval equity / fval shares" "fval equity / fval shares \<le> 2 ^ 1023"
    and v: "v = fval price * fval shares / fval equity" "2 powi (-1021) \<le> v" "v \<le> 2 ^ 1022"
  shows "\<exists>r. PriceToBook price equity shares = Ok r \<and> fin64 r \<and> \<bar>fval r - v\<bar> \<le> 3 * v * 2 powi (-53)"
proof -
  define u :: rat where "u = 2 powi (-53)"
  have u: "0 < u" "u \<le> 1/3" by (simp_all add: u_def power_int_minus)
  define B where "B = fval equity / fval shares"
  define b where "b = fval (equity / shares)"
  define q where "q = fval price / b"
  have B: "0 < B" and vB: "v * B = fval price" and v0: "0 < v" using pos by (simp_all add: B_def v(1))
  have eb: "fin64 (equity / shares)" "\<bar>b - B\<bar> \<le> B * u"
    using divide_rel_error [of equity shares] fin pos book B by (auto simp: b_def B_def u_def)
  have b0: "0 < b" by (rule perturbed_pos [OF B u eb(2)])
  have qb: "q * b = v * B" using b0 vB by (simp add: q_def)
  have half: "\<bar>q - v\<bar> \<le> v / 2" and err: "\<And>r. \<bar>r - q\<bar> \<le> q * u \<Longrightarrow> \<bar>r - v\<bar> \<le> 3 * v * u"
    using two_roundings [OF v0 B u eb(2) qb] by blast+
  have q: "v / 2 \<le> q" "q \<le> 2 * v" "0 < q" using half v0 by linarith+
  have "(2::rat) powi (-1021) = 2 * 2 powi (-1022)" using power_int_add [of "2::rat" 1 "-1022"] by simp
  with v(2) have "2 powi (-1022) \<le> v / 2" by simp
  then have qr: "2 powi (-1022) \<le> q" "q \<le> 2 ^ 1023"
    using q(1,2) v(3) order_trans by (blast, simp)
  have r: "fin64 (price / (equity / shares))" "\<bar>fval (price / (equity / shares)) - q\<bar> \<le> q * u"
    using divide_rel_error [of price "equity / shares"] fin eb b0 qr q(3)
    by (auto simp: q_def b_def u_def)
  have "PriceToBook price equity shares = Ok (price / (equity / shares))"
    using fin pos by (simp add: PriceToBook_def le_finite)
  with r(1) err [OF r(2)] show ?thesis by (auto simp: u_def)
qed

theorem PriceToBook_accuracy_witness:
  "\<exists>r. PriceToBook (f64 7) (f64 3) (f64 2) = Ok r \<and> fin64 r \<and> \<bar>fval r - 14/3\<bar> \<le> 3 * (14/3) * 2 powi (-53)"
proof -
  have v: "fval (f64 7) = 7" "fval (f64 3) = 3" "fval (f64 2) = 2"
    "fin64 (f64 7)" "fin64 (f64 3)" "fin64 (f64 2)"
    using f64_exact [of 7] f64_exact [of 3] f64_exact [of 2] by simp_all
  have "(2::rat) powi (-1022) \<le> 2 powi 0" "(2::rat) powi (-1021) \<le> 2 powi 0"
    by (rule power_int_increasing; simp)+
  then have r: "(2::rat) powi (-1022) \<le> 3/2" "(2::rat) powi (-1021) \<le> 14/3" by simp_all
  show ?thesis by (rule PriceToBook_accuracy) (use v r in simp_all)
qed

end
