(* ===== verification/Technical.thy ===== *)
theory Technical
  imports Analytics
begin

text \<open>
  The price series of \<^verbatim>\<open>internal/analytics/technical.go\<close>: returns, moving averages, the RSI,
  volatility and average volume. Loops are \<open>for_range\<close> over the variables they assign, slices
  are read and written through checked indices, and \<^verbatim>\<open>window+1\<close> is 64-bit arithmetic.
\<close>

section \<open>The indicators\<close>

definition DailyReturn :: "float64 list \<Rightarrow> float64 list res" where
  "DailyReturn prices =
     (if len prices < 2 then Err analytics_ErrInsufficientData
      else case checkPositive prices of
        Some err \<Rightarrow> Err err
      | None \<Rightarrow>
          obind (make 0 (len prices - 1)) (\<lambda>out.
          for_range 1 (len prices) (\<lambda>i out.
            obind (idx prices i) (\<lambda>p.
            obind (idx prices (i - 1)) (\<lambda>q.
            upd out (i - 1) (p / q - 1)))) out))"

definition SMA :: "float64 list \<Rightarrow> int \<Rightarrow> float64 list res" where
  "SMA prices window =
     (if window < 1 then Err analytics_ErrInvalidInput
      else if len prices < window then Err analytics_ErrInsufficientData
      else case checkPositive prices of
        Some err \<Rightarrow> Err err
      | None \<Rightarrow>
          obind (make 0 (len prices - window + 1)) (\<lambda>out.
          obind (for_range 0 (len prices) (\<lambda>i (sum, out).
            obind (idx prices i) (\<lambda>p.
            let sum = sum + p in
            obind (if window \<le> i then obind (idx prices (i - window)) (\<lambda>q. Ok (sum - q))
                   else Ok sum) (\<lambda>sum.
            obind (if window - 1 \<le> i then upd out (i - window + 1) (sum / f64 window)
                   else Ok out) (\<lambda>out.
            Ok (sum, out))))) (0, out)) (\<lambda>(sum, out).
          Ok out)))"

definition EMA :: "float64 list \<Rightarrow> int \<Rightarrow> float64 list res" where
  "EMA prices window =
     obind (SMA prices window) (\<lambda>sma.
     obind (make 0 (len sma)) (\<lambda>out.
     obind (idx sma 0) (\<lambda>s0.
     obind (upd out 0 s0) (\<lambda>out.
     let alpha = f64 2 / f64 (wrap64 (window + 1)) in
     for_range 1 (len out) (\<lambda>i out.
       obind (idx prices (i + window - 1)) (\<lambda>p.
       obind (idx out (i - 1)) (\<lambda>prev.
       upd out i (p * alpha + prev * (1 - alpha))))) out))))"

definition rsiValue :: "float64 \<Rightarrow> float64 \<Rightarrow> float64" where
  "rsiValue avgGain avgLoss =
     (if feq avgLoss 0 then (if feq avgGain 0 then f64 50 else f64 100)
      else f64 100 - f64 100 / (1 + avgGain / avgLoss))"

text \<open>The two loops of \<open>RSI\<close> that range over deltas: the seed sums, and Wilder's smoothing.\<close>

fun rsi_seed :: "float64 list \<Rightarrow> float64 \<times> float64 \<Rightarrow> float64 \<times> float64" where
  "rsi_seed [] (avgGain, avgLoss) = (avgGain, avgLoss)"
| "rsi_seed (d # ds) (avgGain, avgLoss) =
     rsi_seed ds (if 0 < d then (avgGain + d, avgLoss) else (avgGain, avgLoss - d))"

fun rsi_smooth :: "int \<Rightarrow> float64 list \<Rightarrow> float64 \<Rightarrow> float64 \<Rightarrow> float64 list" where
  "rsi_smooth period [] avgGain avgLoss = []"
| "rsi_smooth period (d # ds) avgGain avgLoss =
     (let (g, l) = (if 0 < d then (d, 0) else (0, - d));
          avgGain = (avgGain * f64 (period - 1) + g) / f64 period;
          avgLoss = (avgLoss * f64 (period - 1) + l) / f64 period
      in rsiValue avgGain avgLoss # rsi_smooth period ds avgGain avgLoss)"

definition RSI :: "float64 list \<Rightarrow> int \<Rightarrow> float64 list res" where
  "RSI prices period =
     (if period < 1 then Err analytics_ErrInvalidInput
      else if len prices < wrap64 (period + 1) then Err analytics_ErrInsufficientData
      else case checkPositive prices of
        Some err \<Rightarrow> Err err
      | None \<Rightarrow>
          obind (make 0 (len prices - 1)) (\<lambda>deltas.
          obind (for_range 1 (len prices) (\<lambda>i deltas.
            obind (idx prices i) (\<lambda>p.
            obind (idx prices (i - 1)) (\<lambda>q.
            upd deltas (i - 1) (p - q)))) deltas) (\<lambda>deltas.
          obind (slice deltas 0 period) (\<lambda>seed.
          let (avgGain, avgLoss) = rsi_seed seed (0, 0);
              avgGain = avgGain / f64 period;
              avgLoss = avgLoss / f64 period in
          obind (slice deltas period (len deltas)) (\<lambda>rest.
          Ok (rsiValue avgGain avgLoss # rsi_smooth period rest avgGain avgLoss))))))"

definition volatilitySeries :: "float64 list \<Rightarrow> int \<Rightarrow> float64 list res" where
  "volatilitySeries prices window =
     (if window < 1 then Err analytics_ErrInvalidInput
      else if len prices < wrap64 (window + 1) then Err analytics_ErrInsufficientData
      else case checkPositive prices of
        Some err \<Rightarrow> Err err
      | None \<Rightarrow>
          obind (DailyReturn prices) (\<lambda>ret.
          obind (make 0 (len ret - window + 1)) (\<lambda>out.
          for_range 0 (len out) (\<lambda>i out.
            obind (slice ret i (i + window)) (\<lambda>w.
            let mean = foldl (+) 0 w / f64 window;
                sq = foldl (\<lambda>sq r. let d = r - mean in sq + d * d) 0 w in
            upd out i (fsqrt (sq / f64 (window - 1))))) out)))"

definition Volatility :: "float64 list \<Rightarrow> int \<Rightarrow> float64 res" where
  "Volatility prices window =
     obind (volatilitySeries prices window) (\<lambda>series. idx series (len series - 1))"

definition AverageVolume :: "float64 list \<Rightarrow> int \<Rightarrow> float64 list res" where
  "AverageVolume volumes window =
     (if window < 1 then Err analytics_ErrInvalidInput
      else if len volumes < window then Err analytics_ErrInsufficientData
      else case checkPositive volumes of
        Some err \<Rightarrow> Err err
      | None \<Rightarrow>
          obind (make 0 (len volumes - window + 1)) (\<lambda>out.
          obind (for_range 0 (len volumes) (\<lambda>i (sum, out).
            obind (idx volumes i) (\<lambda>v.
            let sum = sum + v in
            obind (if window \<le> i then obind (idx volumes (i - window)) (\<lambda>q. Ok (sum - q))
                   else Ok sum) (\<lambda>sum.
            obind (if window - 1 \<le> i then upd out (i - window + 1) (sum / f64 window)
                   else Ok out) (\<lambda>out.
            Ok (sum, out))))) (0, out)) (\<lambda>(sum, out).
          Ok out)))"

section \<open>What the loops compute\<close>

lemma DailyReturn_Ok:
  assumes "2 \<le> length prices" and "checkPositive prices = None"
  shows "DailyReturn prices =
    Ok (map (\<lambda>k. prices ! Suc k / prices ! k - 1) [0..<length prices - 1])"
proof -
  let ?n = "length prices - 1"
  have "for_range 1 (len prices) (\<lambda>i out.
            obind (idx prices i) (\<lambda>p.
            obind (idx prices (i - 1)) (\<lambda>q.
            upd out (i - 1) (p / q - 1)))) (replicate ?n 0) =
        Ok (map (\<lambda>k. prices ! Suc k / prices ! k - 1) [0..<?n])"
    using assms(1)
    by (intro for_range_fill) (auto simp: idx_def upd_def len_def nat_add_distrib)
  moreover have "make 0 (len prices - 1) = (Ok (replicate ?n 0) :: float64 list res)"
    using assms(1) by (auto simp: make_def len_def nat_diff_distrib)
  ultimately show ?thesis using assms by (simp add: DailyReturn_def len_def)
qed

text \<open>The running sum of the moving average after \<open>i\<close> prices.\<close>

primrec wsum :: "float64 list \<Rightarrow> nat \<Rightarrow> nat \<Rightarrow> float64" where
  "wsum prices w 0 = 0"
| "wsum prices w (Suc i) =
     (let s = wsum prices w i + prices ! i in if w \<le> i then s - prices ! (i - w) else s)"

lemma SMA_Ok:
  assumes w: "1 \<le> w" "w \<le> length prices" and pos: "checkPositive prices = None"
  shows "SMA prices (int w) =
    Ok (map (\<lambda>j. wsum prices w (j + w) / f64 (int w)) [0..<length prices - w + 1])"
proof -
  let ?n = "length prices - w + 1" and ?h = "\<lambda>j. wsum prices w (j + w) / f64 (int w)"
  define body where "body = (\<lambda>i (sum, out).
            obind (idx prices i) (\<lambda>p.
            let sum = sum + p in
            obind (if int w \<le> i then obind (idx prices (i - int w)) (\<lambda>q. Ok (sum - q))
                   else Ok sum) (\<lambda>sum.
            obind (if int w - 1 \<le> i then upd out (i - int w + 1) (sum / f64 (int w))
                   else Ok out) (\<lambda>out.
            Ok (sum, out :: float64 list) :: (float64 \<times> float64 list) res))))"
  let ?I = "\<lambda>i (s, out). length out = ?n \<and> s = wsum prices w (nat i) \<and>
              (\<forall>j < ?n. int (j + w) \<le> i \<longrightarrow> out ! j = ?h j)"
  have "\<exists>t. for_range 0 (len prices) body (0, replicate ?n 0) = Ok t \<and> ?I (len prices) t"
  proof (rule for_range_inv [where I = ?I])
    fix i t assume i: "0 \<le> i" "i < len prices" and I: "?I i t"
    obtain s out where t: "t = (s, out)" by force
    define k where "k = nat i"
    then have k: "i = int k" "k < length prices" using i by (auto simp: len_def)
    define s' where "s' = wsum prices w (Suc k)"
    define out' where "out' = (if w \<le> Suc k then out[Suc k - w := s' / f64 (int w)] else out)"
    have "body i t = Ok (s', out')"
      using I k w unfolding body_def t s'_def out'_def
      by (auto simp: idx_def upd_def len_def Let_def nat_diff_distrib nat_add_distrib
            Suc_diff_le algebra_simps)
    moreover have "?I (i + 1) (s', out')"
      using I k w unfolding t s'_def out'_def
      by (auto simp: nth_list_update nat_add_distrib le_Suc_eq)
    ultimately show "\<exists>t'. body i t = Ok t' \<and> ?I (i + 1) t'" by blast
  qed (use w in \<open>auto simp: len_def\<close>)
  then obtain s out where r: "for_range 0 (len prices) body (0, replicate ?n 0) = Ok (s, out)"
    and I: "?I (len prices) (s, out)" by force
  have "out = map ?h [0..<?n]" using I w by (intro nth_equalityI) (auto simp: len_def simp del: upt_Suc)
  moreover have "make 0 (len prices - int w + 1) = (Ok (replicate ?n 0) :: float64 list res)"
    using w by (auto simp: make_def len_def nat_diff_distrib nat_add_distrib)
  ultimately show ?thesis using w pos r
    unfolding SMA_def body_def by (simp add: len_def)
qed

lemma AverageVolume_eq_SMA: "AverageVolume volumes window = SMA volumes window"
  by (simp add: AverageVolume_def SMA_def)

primrec ema_seq :: "float64 list \<Rightarrow> nat \<Rightarrow> float64 \<Rightarrow> float64 \<Rightarrow> nat \<Rightarrow> float64" where
  "ema_seq prices w alpha s0 0 = s0"
| "ema_seq prices w alpha s0 (Suc i) =
     prices ! (i + w) * alpha + ema_seq prices w alpha s0 i * (1 - alpha)"

lemma EMA_Ok:
  assumes w: "1 \<le> w" "w \<le> length prices" "int w < max_int" and pos: "checkPositive prices = None"
  shows "EMA prices (int w) =
    Ok (map (ema_seq prices w (f64 2 / f64 (int w + 1)) (wsum prices w w / f64 (int w)))
          [0..<length prices - w + 1])"
proof -
  let ?n = "length prices - w + 1" and ?a = "f64 2 / f64 (int w + 1)"
  let ?s = "wsum prices w w / f64 (int w)"
  let ?e = "ema_seq prices w ?a ?s"
  define body where "body = (\<lambda>i out.
       obind (idx prices (i + int w - 1)) (\<lambda>p.
       obind (idx out (i - 1)) (\<lambda>prev.
       upd out i (p * ?a + prev * (1 - ?a)) :: float64 list res)))"
  let ?I = "\<lambda>i out. length out = ?n \<and> (\<forall>j < ?n. int j < i \<longrightarrow> out ! j = ?e j)"
  have "\<exists>out. for_range 1 (int ?n) body ((replicate ?n 0)[0 := ?s]) = Ok out \<and> ?I (int ?n) out"
  proof (rule for_range_inv [where I = ?I])
    fix i out assume i: "1 \<le> i" "i < int ?n" and I: "?I i out"
    define k where "k = nat (i - 1)"
    then have k: "i = int (Suc k)" "Suc k < ?n" using i by auto
    have "body i out = Ok (out[Suc k := ?e (Suc k)])"
      using I k w unfolding body_def
      by (auto simp: idx_def upd_def len_def nat_add_distrib nat_diff_distrib add.commute)
    moreover have "?I (i + 1) (out[Suc k := ?e (Suc k)])"
      using I k by (auto simp: nth_list_update simp del: ema_seq.simps)
    ultimately show "\<exists>out'. body i out = Ok out' \<and> ?I (i + 1) out'" by blast
  qed auto
  then obtain out where r: "for_range 1 (int ?n) body ((replicate ?n 0)[0 := ?s]) = Ok out"
    and I: "?I (int ?n) out" by blast
  have out: "out = map ?e [0..<?n]" using I by (intro nth_equalityI) (auto simp del: upt_Suc)
  let ?sma = "map (\<lambda>j. wsum prices w (j + w) / f64 (int w)) [0..<?n]"
  have sma: "SMA prices (int w) = Ok ?sma" using w pos by (intro SMA_Ok)
  have l: "len ?sma = int ?n" "len ((replicate ?n 0)[0 := ?s]) = int ?n"
    by (simp_all add: len_def del: upt_Suc)
  have i0: "idx ?sma 0 = Ok ?s" by (simp add: idx_def len_def del: upt_Suc)
  have u0: "upd (replicate ?n 0) 0 ?s = Ok ((replicate ?n 0)[0 := ?s])"
    by (simp add: upd_def len_def)
  have wr: "wrap64 (int w + 1) = int w + 1" using w by (intro wrap64_id) auto
  show ?thesis
    unfolding EMA_def sma obind.simps l make_int i0 u0 Let_def wr
    using r [unfolded body_def] out by (simp only:)
qed

definition deltas_of :: "float64 list \<Rightarrow> float64 list" where
  "deltas_of prices = map (\<lambda>k. prices ! Suc k - prices ! k) [0..<length prices - 1]"

lemma RSI_Ok:
  assumes p: "1 \<le> p" "Suc p \<le> length prices" "int p < max_int" and pos: "checkPositive prices = None"
  shows "RSI prices (int p) =
    (let (g, l) = rsi_seed (take p (deltas_of prices)) (0, 0);
         g = g / f64 (int p); l = l / f64 (int p)
     in Ok (rsiValue g l # rsi_smooth (int p) (drop p (deltas_of prices)) g l))"
proof -
  let ?n = "length prices - 1"
  have "for_range 1 (len prices) (\<lambda>i deltas.
            obind (idx prices i) (\<lambda>x.
            obind (idx prices (i - 1)) (\<lambda>q.
            upd deltas (i - 1) (x - q) :: float64 list res))) (replicate ?n 0) = Ok (deltas_of prices)"
    unfolding deltas_of_def using p
    by (intro for_range_fill) (auto simp: idx_def upd_def len_def nat_add_distrib)
  note loop = this
  have mk: "make 0 (len prices - 1) = (Ok (replicate ?n 0) :: float64 list res)"
    using p by (auto simp: make_def len_def nat_diff_distrib)
  have d: "length (deltas_of prices) = ?n" by (simp add: deltas_of_def)
  have s1: "slice (deltas_of prices) 0 (int p) = (Ok (take p (deltas_of prices)) :: float64 list res)"
    using p by (auto simp: slice_def len_def d)
  have s2: "slice (deltas_of prices) (int p) (len (deltas_of prices)) =
      (Ok (drop p (deltas_of prices)) :: float64 list res)"
    using p by (auto simp: slice_def len_def d)
  have wr: "wrap64 (int p + 1) = int p + 1" using p by (intro wrap64_id) auto
  have g: "\<not> int p < 1" "\<not> len prices < int p + 1" using p by (auto simp: len_def)
  show ?thesis
    unfolding RSI_def wr pos mk if_not_P [OF g(1)] if_not_P [OF g(2)] option.case obind.simps loop s1 s2
    by (simp add: Let_def split: prod.splits)
qed

text \<open>The value one round of \<open>volatilitySeries\<close> writes for the returns \<open>w\<close> of its window.\<close>

definition sample_std :: "int \<Rightarrow> float64 list \<Rightarrow> float64" where
  "sample_std window w =
     (let mean = foldl (+) 0 w / f64 window;
          sq = foldl (\<lambda>sq r. let d = r - mean in sq + d * d) 0 w
      in fsqrt (sq / f64 (window - 1)))"

definition returns_of :: "float64 list \<Rightarrow> float64 list" where
  "returns_of prices = map (\<lambda>k. prices ! Suc k / prices ! k - 1) [0..<length prices - 1]"

lemma volatilitySeries_Ok:
  assumes w: "1 \<le> w" "Suc w \<le> length prices" "int w < max_int" and pos: "checkPositive prices = None"
  shows "volatilitySeries prices (int w) =
    Ok (map (\<lambda>i. sample_std (int w) (take w (drop i (returns_of prices)))) [0..<length prices - w])"
proof -
  let ?r = "returns_of prices" and ?n = "length prices - w"
  have r: "DailyReturn prices = Ok ?r" using w pos by (simp add: DailyReturn_Ok returns_of_def)
  have lr: "length ?r = length prices - 1" by (simp add: returns_of_def)
  have mk: "make 0 (len ?r - int w + 1) = (Ok (replicate ?n 0) :: float64 list res)"
    using w by (auto simp: make_def len_def lr)
  have sl: "slice ?r (int k) (int k + int w) = (Ok (take w (drop k ?r)) :: float64 list res)"
    if "k < ?n" for k
    using that w by (auto simp: slice_def len_def lr nat_add_distrib)
  have loop: "for_range 0 (len (replicate ?n (0::float64))) (\<lambda>i out.
            obind (slice ?r i (i + int w)) (\<lambda>w'.
            let mean = foldl (+) 0 w' / f64 (int w);
                sq = foldl (\<lambda>sq r. let d = r - mean in sq + d * d) 0 w' in
            upd out i (fsqrt (sq / f64 (int w - 1))) :: float64 list res)) (replicate ?n 0) =
      Ok (map (\<lambda>i. sample_std (int w) (take w (drop i ?r))) [0..<?n])"
    by (intro for_range_fill)
      (simp_all add: sl sample_std_def Let_def upd_def len_def)
  have wr: "wrap64 (int w + 1) = int w + 1" using w by (intro wrap64_id) auto
  have g: "\<not> int w < 1" "\<not> len prices < int w + 1" using w by (auto simp: len_def)
  show ?thesis
    unfolding volatilitySeries_def wr pos if_not_P [OF g(1)] if_not_P [OF g(2)] option.case r
      obind.simps mk loop ..
qed

lemma Volatility_Ok:
  assumes w: "1 \<le> w" "Suc w \<le> length prices" "int w < max_int" and pos: "checkPositive prices = None"
  shows "Volatility prices (int w) =
    Ok (sample_std (int w) (drop (length prices - Suc w) (returns_of prices)))"
proof -
  let ?s = "map (\<lambda>i. sample_std (int w) (take w (drop i (returns_of prices)))) [0..<length prices - w]"
  have "take w (drop (length prices - Suc w) (returns_of prices)) =
      drop (length prices - Suc w) (returns_of prices)"
    using w by (simp add: returns_of_def)
  moreover have "idx ?s (len ?s - 1) = (Ok (?s ! (length prices - Suc w)) :: float64 res)"
    using w by (simp add: idx_def len_def) (auto simp: nat_diff_distrib of_nat_diff)
  ultimately show ?thesis using w pos by (simp add: Volatility_def volatilitySeries_Ok)
qed

end
