(* ===== verification/Indicators.thy ===== *)
theory Indicators
  imports Technical
begin

text \<open>
  Numeric correctness of the indicators in float64 arithmetic: moving averages are the correctly
  rounded means when the prices lie on a common binary grid (share volumes always do), the RSI
  stays in its range, losses of precision are bounded, and every branch of the error handling is
  accounted for.
\<close>

section \<open>Window sums\<close>

definition win :: "nat \<Rightarrow> nat \<Rightarrow> 'a list \<Rightarrow> 'a list" where
  "win w i xs = drop (i - w) (take i xs)"

lemma win_step:
  fixes xs :: "int list"
  assumes "i < length xs"
  shows "sum_list (win w (Suc i) xs) =
    sum_list (win w i xs) + xs ! i - (if w \<le> i then xs ! (i - w) else 0)"
proof (cases "w \<le> i")
  case True
  have "drop (i - w) (take i xs) @ [xs ! i] = drop (i - w) (take (Suc i) xs)"
    using assms True by (simp add: take_Suc_conv_app_nth)
  also have "\<dots> = xs ! (i - w) # drop (Suc (i - w)) (take (Suc i) xs)"
    using assms True by (subst Cons_nth_drop_Suc [symmetric]) (auto simp: nth_take)
  finally have "sum_list (drop (i - w) (take i xs)) + xs ! i =
      xs ! (i - w) + sum_list (drop (Suc (i - w)) (take (Suc i) xs))"
    by (metis sum_list.Cons sum_list_append add.right_neutral sum_list.Nil)
  moreover have "Suc i - w = Suc (i - w)" using True by simp
  ultimately show ?thesis using True by (simp add: win_def)
next
  case False
  then show ?thesis using assms by (simp add: win_def take_Suc_conv_app_nth)
qed

lemma win_window: "j + w \<le> length xs \<Longrightarrow> win w (j + w) xs = take w (drop j xs)"
  by (simp add: win_def take_drop add.commute)

lemma win_bounds:
  fixes xs :: "int list"
  assumes "\<forall>x \<in> set xs. 0 < x \<and> x \<le> M" and "0 \<le> M"
  shows "0 \<le> sum_list (win w i xs)" and "sum_list (win w i xs) \<le> int w * M"
    and "win w i xs \<noteq> [] \<Longrightarrow> 0 < sum_list (win w i xs)"
proof -
  have *: "0 \<le> sum_list ys \<and> sum_list ys \<le> int (length ys) * M \<and> (ys \<noteq> [] \<longrightarrow> 0 < sum_list ys)"
    if "\<forall>y \<in> set ys. 0 < y \<and> y \<le> M" for ys :: "int list"
    using that by (induction ys) (auto simp: algebra_simps)
  have sub: "\<forall>y \<in> set (win w i xs). 0 < y \<and> y \<le> M"
    using assms(1) by (auto simp: win_def dest!: in_set_dropD in_set_takeD)
  have l: "length (win w i xs) \<le> w" by (simp add: win_def)
  have "int (length (win w i xs)) * M \<le> int w * M" using l assms(2) by (intro mult_right_mono) auto
  with * [OF sub] show "0 \<le> sum_list (win w i xs)" "sum_list (win w i xs) \<le> int w * M"
    "win w i xs \<noteq> [] \<Longrightarrow> 0 < sum_list (win w i xs)" by auto
qed

section \<open>Exact sums on a binary grid\<close>

definition grid :: "int \<Rightarrow> int \<Rightarrow> float64" where
  "grid k m = Fin False (of_int m * 2 powi k)"

lemma round64_grid:
  assumes "0 < m" "m \<le> 2 ^ 53" "-1074 \<le> k" "k \<le> 900"
  shows "round64 (of_int m * 2 powi k) = grid k m"
proof -
  let ?q = "rat_of_int m * 2 powi k"
  have q: "0 < ?q" using assms by simp
  have "rep64 ?q" using assms by (intro rep64_scaled) auto
  then have r: "rv ?q = ?q" by (rule rv64.fix_rep)
  have "rat_of_int m \<le> of_int (2 ^ 53)" using assms by (simp only: of_int_le_iff)
  then have "?q \<le> 2 ^ 53 * 2 powi 900"
    using assms by (intro mult_mono power_int_increasing) auto
  also have "\<dots> < max64" by (simp add: max64_def)
  finally have "?q < max64" .
  with r q show ?thesis by (auto simp: round64_def rnd_def Let_def rv_def grid_def)
qed

lemma grid_plus:
  assumes "0 \<le> a" "0 < b" "a + b \<le> 2 ^ 53" "-1074 \<le> k" "k \<le> 900"
  shows "grid k a + grid k b = grid k (a + b)"
  using round64_grid [of "a + b" k] assms
  by (simp add: grid_def flip: of_int_add distrib_right)

lemma grid_minus:
  assumes "0 \<le> b" "b < a" "a \<le> 2 ^ 53" "-1074 \<le> k" "k \<le> 900"
  shows "grid k a - grid k b = grid k (a - b)"
proof -
  have "rat_of_int a * 2 powi k + - (of_int b * 2 powi k) = of_int (a - b) * 2 powi k"
    by (simp add: algebra_simps)
  moreover have "rat_of_int (a - b) * 2 powi k \<noteq> 0" using assms by simp
  ultimately show ?thesis using round64_grid [of "a - b" k] assms
    by (simp add: grid_def minus_float64_def Let_def del: of_int_diff)
qed

lemma wsum_grid:
  assumes ms: "\<forall>m \<in> set ms. 0 < m \<and> m \<le> M" and M: "(int w + 1) * M \<le> 2 ^ 53" "0 \<le> M"
    and k: "-1074 \<le> k" "k \<le> 900" and w: "1 \<le> w" and i: "i \<le> length ms"
  shows "wsum (map (grid k) ms) w i = grid k (sum_list (win w i ms))"
  using i
proof (induction i)
  case 0
  show ?case by (simp add: win_def grid_def zero_float64_def)
next
  case (Suc i)
  then have i: "i < length ms" by simp
  let ?s = "sum_list (win w i ms)" and ?p = "ms ! i"
  have p: "0 < ?p" "?p \<le> M" using ms i by auto
  have s: "0 \<le> ?s" "?s \<le> int w * M" using win_bounds [OF ms M(2)] by auto
  then have le: "?s + ?p \<le> 2 ^ 53" using p M(1) by (simp add: algebra_simps)
  have plus: "wsum (map (grid k) ms) w i + map (grid k) ms ! i = grid k (?s + ?p)"
    using Suc.IH i s p le k by (simp add: grid_plus)
  have "win w (Suc i) ms \<noteq> []" using i w by (simp add: win_def)
  then have pos: "0 < sum_list (win w (Suc i) ms)" using win_bounds(3) [OF ms M(2)] by blast
  show ?case
  proof (cases "w \<le> i")
    case True
    have "0 < ms ! (i - w)" using ms i by simp
    with True show ?thesis using plus pos le k i win_step [OF i, of w]
      by (simp add: Let_def grid_minus)
  next
    case False
    with plus win_step [OF i, of w] show ?thesis by (simp add: Let_def)
  qed
qed

lemma grid_divide:
  assumes "0 < a" "1 \<le> w" "int w \<le> 2 ^ 53"
  shows "grid k a / f64 (int w) = round64 (of_int a * 2 powi k / of_nat w)"
proof -
  have "rep64 (of_int (int w))" using assms by (intro rep64_of_int) auto
  then have "rmag (of_nat w) = of_nat w"
    using rv64.fix_rep [of "of_nat w"] by (simp add: rv_def)
  moreover have "rat_of_nat w < max64"
  proof -
    have "rat_of_int (int w) \<le> of_int (2 ^ 53)" using assms by (simp only: of_int_le_iff)
    also have "\<dots> < max64" by (simp add: max64_def)
    finally show ?thesis by simp
  qed
  ultimately have "f64 (int w) = Fin False (of_nat w)"
    by (simp add: f64_def round64_def rnd_def Let_def)
  moreover have "\<not> rat_of_int a * 2 powi k / of_nat w < 0" using assms by (simp add: not_less)
  ultimately show ?thesis using assms by (simp add: grid_def round64_def)
qed

lemma checkPositive_grid: "\<forall>m \<in> set ms. 0 < m \<Longrightarrow> checkPositive (map (grid k) ms) = None"
  by (simp add: checkPositive_None grid_def zero_float64_def not_le zero_less_mult_iff)

lemma SMA_grid:
  assumes ms: "\<forall>m \<in> set ms. 0 < m \<and> m \<le> M" and M: "(int w + 1) * M \<le> 2 ^ 53"
    and k: "-1074 \<le> k" "k \<le> 900" and w: "1 \<le> w" "w \<le> length ms"
  shows "SMA (map (grid k) ms) (int w) =
    Ok (map (\<lambda>j. round64 (of_int (sum_list (take w (drop j ms))) * 2 powi k / of_nat w))
          [0..<length ms - w + 1])"
proof -
  obtain m where m: "m \<in> set ms" using w by (cases ms) auto
  with ms have M0: "1 \<le> M" by force
  then have M1: "(int w + 1) * 1 \<le> (int w + 1) * M" by (intro mult_left_mono) auto
  from order_trans [OF M1 M] have w53: "int w \<le> 2 ^ 53" by simp
  have "wsum (map (grid k) ms) w (j + w) / f64 (int w) =
      round64 (of_int (sum_list (take w (drop j ms))) * 2 powi k / of_nat w)"
    if j: "j < length ms - w + 1" for j
  proof -
    have jw: "j + w \<le> length ms" using j w by simp
    have "win w (j + w) ms \<noteq> []" using jw w by (simp add: win_window)
    then have "0 < sum_list (win w (j + w) ms)" using win_bounds(3) [OF ms] M0 by simp
    with wsum_grid [OF ms M _ k w(1) jw] M0 w w53 win_window [OF jw] show ?thesis
      by (simp add: grid_divide)
  qed
  moreover have "SMA (map (grid k) ms) (int w) = Ok (map (\<lambda>j. wsum (map (grid k) ms) w (j + w) / f64 (int w))
          [0..<length ms - w + 1])"
    using SMA_Ok [of w "map (grid k) ms"] w ms by (simp add: checkPositive_grid)
  ultimately show ?thesis by (simp del: upt_Suc)
qed

section \<open>Bounded values\<close>

text \<open>
  \<open>between a b x\<close>: a well-formed finite value in \<open>[a, b]\<close>. Bounds of the form
  \<open>bnd n = n * 2^1000\<close> are representable, so rounding never crosses them: an operation whose exact
  result stays within such a bound does so after rounding too.
\<close>

definition between :: "rat \<Rightarrow> rat \<Rightarrow> float64 \<Rightarrow> bool" where
  "between a b x \<longleftrightarrow> fin64 x \<and> a \<le> fval x \<and> fval x \<le> b"

definition bnd :: "int \<Rightarrow> rat" where
  "bnd n = of_int n * 2 ^ 1000"

lemma bnd_rep: "\<bar>n\<bar> \<le> 2 ^ 20 \<Longrightarrow> rep64 (bnd n)"
  using rep64_scaled [of n 1000] by (simp add: bnd_def)

lemma bnd_max: "\<bar>n\<bar> \<le> 2 ^ 20 \<Longrightarrow> \<bar>bnd n\<bar> < max64"
proof -
  assume "\<bar>n\<bar> \<le> 2 ^ 20"
  then have "rat_of_int \<bar>n\<bar> \<le> of_int (2 ^ 20)" by (simp only: of_int_le_iff)
  then have "\<bar>bnd n\<bar> \<le> 2 ^ 20 * 2 ^ 1000" by (simp add: bnd_def abs_mult)
  also have "\<dots> < max64" by (simp add: max64_def)
  finally show ?thesis .
qed

lemma rv_between:
  assumes "a \<le> x" "x \<le> b" "rep64 a" "rep64 b" "- max64 < a" "b < max64"
  shows "a \<le> rv x" "rv x \<le> b" "\<bar>rv x\<bar> < max64"
  using rv64.rep_le [OF assms(1,3)] rv64.le_rep [OF assms(2,4)] assms(5,6) by auto

lemma between_plus:
  assumes "between a b x" "between c d y" "rep64 (a + c)" "rep64 (b + d)" "- max64 < a + c" "b + d < max64"
  shows "between (a + c) (b + d) (x + y)"
  using plus_exact [of x y] rv_between [of "a + c" "fval x + fval y" "b + d"] assms
  by (auto simp: between_def)

lemma between_minus:
  assumes "between a b x" "between c d y" "rep64 (a - d)" "rep64 (b - c)" "- max64 < a - d" "b - c < max64"
  shows "between (a - d) (b - c) (x - y)"
  using minus_exact [of x y] rv_between [of "a - d" "fval x - fval y" "b - c"] assms
  by (auto simp: between_def)

lemma between_times:
  assumes "between a b x" "between c d y" "0 \<le> a" "0 \<le> c" "rep64 (b * d)" "b * d < max64"
  shows "between 0 (b * d) (x * y)"
proof -
  have "0 \<le> fval x * fval y" "fval x * fval y \<le> b * d"
    using assms(1-4) by (auto simp: between_def intro: mult_mono)
  from rv_between [OF this rv64.rep_zero assms(5) _ assms(6)]
  show ?thesis using times_exact [of x y] assms(1,2) by (auto simp: between_def)
qed

lemma between_divide:
  assumes "between 0 b x" "between c c y" "0 < c" "rep64 (b / c)" "b / c < max64"
  shows "between 0 (b / c) (x / y)"
proof -
  have y: "fval y = c" using assms(2) by (simp add: between_def)
  have "0 \<le> fval x / c" "fval x / c \<le> b / c"
    using assms(1,3) by (auto simp: between_def divide_right_mono)
  from rv_between [OF this rv64.rep_zero assms(4) _ assms(5)]
  show ?thesis using divide_exact [of x y] assms(1-3) y by (auto simp: between_def)
qed

lemma between_f64: "\<bar>n\<bar> \<le> 2 ^ 53 \<Longrightarrow> between (of_int n) (of_int n) (f64 n)"
  using f64_exact [of n] by (simp add: between_def)

lemma between_weaken: "between a b x \<Longrightarrow> a' \<le> a \<Longrightarrow> b \<le> b' \<Longrightarrow> between a' b' x"
  by (auto simp: between_def)

lemma between_uminus: "between a b x \<Longrightarrow> between (- b) (- a) (- x)"
  by (auto simp: between_def)

lemma between_zero [simp]: "0 \<le> n \<Longrightarrow> between 0 (bnd n) 0"
  by (simp add: between_def bnd_def)

text \<open>A price the indicators are run on: positive and at most \<open>2^1000\<close>.\<close>

definition price64 :: "float64 \<Rightarrow> bool" where
  "price64 x \<longleftrightarrow> fin64 x \<and> 0 < fval x \<and> fval x \<le> bnd 1"

lemma price64_between: "price64 x \<Longrightarrow> between 0 (bnd 1) x"
  by (simp add: price64_def between_def)

lemma checkPositive_price64: "\<forall>x \<in> set xs. price64 x \<Longrightarrow> checkPositive xs = None"
  by (auto simp: checkPositive_None price64_def le_finite)

lemma delta_between: "price64 x \<Longrightarrow> price64 y \<Longrightarrow> between (- bnd 1) (bnd 1) (x - y)"
  using between_minus [OF price64_between price64_between, of x y] bnd_rep [of 1] bnd_rep [of "-1"]
    bnd_max [of 1] by (simp add: bnd_def)

section \<open>The range of the RSI\<close>

lemma gain_between: "0 < d \<Longrightarrow> between (- b) b d \<Longrightarrow> between 0 b d"
  by (auto simp: between_def less_finite)

lemma loss_between: "\<not> 0 < d \<Longrightarrow> between (- b) b d \<Longrightarrow> between (- b) 0 d"
  by (auto simp: between_def less_finite)

lemma rsi_seed_between:
  assumes "\<forall>d \<in> set ds. between (- bnd 1) (bnd 1) d"
    and "between 0 (bnd k) g" "between 0 (bnd k) l" "0 \<le> k" "k + int (length ds) \<le> 2 ^ 20"
  shows "\<exists>g' l'. rsi_seed ds (g, l) = (g', l') \<and>
    between 0 (bnd (k + int (length ds))) g' \<and> between 0 (bnd (k + int (length ds))) l'"
  using assms
proof (induction ds arbitrary: g l k)
  case Nil
  then show ?case by simp
next
  case (Cons d ds)
  have bs: "bnd k + bnd 1 = bnd (k + 1)" "bnd k \<le> bnd (k + 1)" by (simp_all add: bnd_def algebra_simps)
  have rep: "rep64 (bnd (k + 1))" "bnd (k + 1) < max64"
    using Cons.prems bnd_rep [of "k + 1"] bnd_max [of "k + 1"] by auto
  have "\<exists>g' l'. rsi_seed ds (if 0 < d then (g + d, l) else (g, l - d)) = (g', l') \<and>
    between 0 (bnd (k + 1 + int (length ds))) g' \<and> between 0 (bnd (k + 1 + int (length ds))) l'"
  proof (cases "0 < d")
    case True
    have "between (0 + 0) (bnd k + bnd 1) (g + d)"
      using between_plus [OF Cons.prems(2) gain_between [OF True, of "bnd 1"]] Cons.prems(1) rep bs
      by (auto simp: rv64.rep_zero)
    with True Cons.prems bs show ?thesis
      by (simp only: if_True) (rule Cons.IH, auto intro: between_weaken)
  next
    case False
    have "between (0 - 0) (bnd k - - bnd 1) (l - d)"
      using between_minus [OF Cons.prems(3) loss_between [OF False, of "bnd 1"]] Cons.prems(1) rep bs
      by (auto simp: rv64.rep_zero)
    with False Cons.prems bs show ?thesis
      by (simp only: if_False) (rule Cons.IH, auto intro: between_weaken)
  qed
  then show ?case by (simp add: algebra_simps)
qed

lemma smooth_between:
  assumes "between 0 (bnd 1) a" "between 0 (bnd 1) g" "1 \<le> p" "p \<le> 2 ^ 20"
  shows "between 0 (bnd 1) ((a * f64 (p - 1) + g) / f64 p)"
proof -
  have m: "bnd 1 * of_int (p - 1) = bnd (p - 1)" "bnd (p - 1) + bnd 1 = bnd p"
    "bnd p / of_int p = bnd 1" using assms by (simp_all add: bnd_def algebra_simps)
  have r: "rep64 (bnd (p - 1))" "rep64 (bnd p)" "rep64 (bnd 1)"
    "bnd (p - 1) < max64" "bnd p < max64" "bnd 1 < max64"
    using assms bnd_rep bnd_max [of "p - 1"] bnd_max [of p] bnd_max [of 1] by auto
  have "between 0 (bnd (p - 1)) (a * f64 (p - 1))"
    using between_times [OF assms(1) between_f64 [of "p - 1"]] assms r unfolding m(1) by simp
  from between_plus [OF this assms(2)] have "between 0 (bnd p) (a * f64 (p - 1) + g)"
    using m r by (simp add: rv64.rep_zero)
  from between_divide [OF this between_f64 [of p]]
  have "between 0 (bnd p / of_int p) ((a * f64 (p - 1) + g) / f64 p)"
    using assms m r by simp
  with m show ?thesis by simp
qed

lemma between_const: "0 \<le> n \<Longrightarrow> n \<le> 100 \<Longrightarrow> between 0 100 (f64 n)"
  using between_f64 [of n] by (simp add: between_def)

text \<open>\<open>1 + g/l\<close> may overflow to infinity; it is never less than one and never NaN.\<close>

lemma one_plus_quotient:
  assumes "between 0 b g" "between 0 b l" "fval l \<noteq> 0"
  shows "1 + g / l = Inf False \<or> (\<exists>m. 1 + g / l = Fin False m \<and> 1 \<le> m)"
proof -
  obtain s x t y where gl: "g = Fin s x" "l = Fin t y"
    using assms by (auto simp: between_def is_finite_iff)
  have y: "\<not> t" "0 < y" using assms(2,3) gl by (auto simp: between_def split: if_splits)
  have x: "0 \<le> x" "s \<Longrightarrow> x = 0" using assms(1) gl by (auto simp: between_def split: if_splits)
  have q: "g / l = (if max64 \<le> rmag (x / y) then Inf s else Fin s (rmag (x / y)))"
    using gl y by (simp add: rnd_def Let_def)
  have s0: "s \<Longrightarrow> rmag (x / y) = 0" using x by simp
  have nn: "0 \<le> rmag (x / y)" using x y by (intro rmag_nonneg) simp
  show ?thesis
  proof (cases "max64 \<le> rmag (x / y)")
    case True
    then have "\<not> s" using s0 max64_pos(1) by (metis linorder_not_le)
    with True q show ?thesis by (simp add: one_float64_def)
  next
    case False
    let ?v = "1 + rmag (x / y)"
    have v: "1 + g / l = round64 ?v"
      using False q nn s0 by (cases s) (auto simp: one_float64_def)
    have "1 \<le> rv ?v" using nn rep64_of_int [of 1] by (intro rv64.rep_le) auto
    then have "1 \<le> rmag ?v" using nn by (simp add: rv_def)
    with v nn show ?thesis by (auto simp: round64_def rnd_def Let_def)
  qed
qed

lemma hundred_over:
  assumes "x = Inf False \<or> (\<exists>m. x = Fin False m \<and> 1 \<le> m)"
  shows "between 0 100 (f64 100 / x)"
proof -
  have h: "f64 100 = Fin False 100" by code_simp
  from assms show ?thesis
  proof
    assume "x = Inf False"
    then show ?thesis by (simp add: h between_def)
  next
    assume "\<exists>m. x = Fin False m \<and> 1 \<le> m"
    then obtain m where m: "x = Fin False m" "1 \<le> m" by blast
    have q: "0 \<le> 100 / m" "100 / m \<le> 100" using m by (simp_all add: divide_le_eq)
    have "rep64 (100::rat)" using rep64_of_int [of 100] by simp
    from rv_between [OF q rv64.rep_zero this] have r: "0 \<le> rv (100 / m)" "rv (100 / m) \<le> 100"
      "\<bar>rv (100 / m)\<bar> < max64" by (auto simp: max64_def)
    have "f64 100 / x = rnd False (100 / m)" using m h by simp
    with rnd_signed [OF q(1) r(3), of False] r q show ?thesis by (simp add: between_def)
  qed
qed

lemma rsiValue_between:
  assumes "between 0 b g" "between 0 b l"
  shows "between 0 100 (rsiValue g l)"
proof (cases "feq l 0")
  case True
  then show ?thesis by (simp add: rsiValue_def between_const)
next
  case False
  then have "fval l \<noteq> 0" using assms(2) by (auto simp: between_def feq_finite)
  from hundred_over [OF one_plus_quotient [OF assms this]]
  have "between (100 - 100) (100 - 0) (f64 100 - f64 100 / (1 + g / l))"
    using between_f64 [of 100] rep64_of_int [of 100]
    by (intro between_minus) (auto simp: rv64.rep_zero max64_def)
  with False show ?thesis by (simp add: rsiValue_def)
qed

lemma rsi_smooth_between:
  assumes "\<forall>d \<in> set ds. between (- bnd 1) (bnd 1) d" "between 0 (bnd 1) g" "between 0 (bnd 1) l"
    "1 \<le> p" "p \<le> 2 ^ 20"
  shows "\<forall>r \<in> set (rsi_smooth p ds g l). between 0 100 r"
  using assms
proof (induction ds arbitrary: g l)
  case Nil
  then show ?case by simp
next
  case (Cons d ds)
  define g' where "g' = (g * f64 (p - 1) + (if 0 < d then d else 0)) / f64 p"
  define l' where "l' = (l * f64 (p - 1) + (if 0 < d then 0 else - d)) / f64 p"
  have d: "between (- bnd 1) (bnd 1) d" using Cons.prems by simp
  have "between 0 (bnd 1) (if 0 < d then d else 0)" using d by (auto intro: gain_between)
  moreover have "between 0 (bnd 1) (if 0 < d then 0 else - d)"
    using d between_uminus [of "- bnd 1" 0 d] by (auto dest: loss_between)
  ultimately have gl: "between 0 (bnd 1) g'" "between 0 (bnd 1) l'"
    unfolding g'_def l'_def using Cons.prems by (auto intro: smooth_between)
  have "rsi_smooth p (d # ds) g l = rsiValue g' l' # rsi_smooth p ds g' l'"
    by (simp add: g'_def l'_def Let_def)
  moreover have "\<forall>r \<in> set (rsi_smooth p ds g' l'). between 0 100 r"
    using Cons.prems gl by (intro Cons.IH) auto
  ultimately show ?case using rsiValue_between [OF gl] by simp
qed

lemma length_rsi_smooth [simp]: "length (rsi_smooth p ds g l) = length ds"
  by (induction ds arbitrary: g l) (auto simp: Let_def)

lemma deltas_between:
  "\<forall>x \<in> set prices. price64 x \<Longrightarrow> \<forall>d \<in> set (deltas_of prices). between (- bnd 1) (bnd 1) d"
  by (auto simp: deltas_of_def intro!: delta_between)

lemma length_deltas_of [simp]: "length (deltas_of prices) = length prices - 1"
  by (simp add: deltas_of_def)

lemma RSI_bounded:
  assumes pr: "\<forall>x \<in> set prices. price64 x" and p: "1 \<le> p" "p \<le> 2 ^ 20" "Suc p \<le> length prices"
  shows "\<exists>out. RSI prices (int p) = Ok out \<and> length out = length prices - p \<and>
    (\<forall>r \<in> set out. between 0 100 r)"
proof -
  note ds = deltas_between [OF pr]
  have seed: "\<forall>d \<in> set (take p (deltas_of prices)). between (- bnd 1) (bnd 1) d"
    and rest: "\<forall>d \<in> set (drop p (deltas_of prices)). between (- bnd 1) (bnd 1) d"
    using ds by (auto dest: in_set_takeD in_set_dropD)
  have p20: "int p \<le> 2 ^ 20" using p(2) by simp
  have "between 0 (bnd 0) 0" by simp
  moreover have "length (take p (deltas_of prices)) = p" using p by simp
  ultimately obtain g l where gl: "rsi_seed (take p (deltas_of prices)) (0, 0) = (g, l)"
      "between 0 (bnd (int p)) g" "between 0 (bnd (int p)) l"
    using rsi_seed_between [OF seed, of 0 0 0] p20 by auto
  have "bnd (int p) / of_int (int p) = bnd 1" using p by (simp add: bnd_def)
  then have avg: "between 0 (bnd 1) (g / f64 (int p))" "between 0 (bnd 1) (l / f64 (int p))"
    using gl p p20 between_divide [OF gl(2) between_f64 [of "int p"]]
      between_divide [OF gl(3) between_f64 [of "int p"]] bnd_rep [of 1] bnd_max [of 1] by auto
  have lt: "int p < max_int" using p20 by (simp add: max_int_def)
  show ?thesis
    using RSI_Ok [OF p(1,3) lt checkPositive_price64 [OF pr]] gl(1) rsiValue_between [OF avg]
      rsi_smooth_between [OF rest avg, of "int p"] p p20 by (auto simp: Let_def)
qed

section \<open>Outcomes for every window\<close>

text \<open>The guards of the indicators, in the order of the code.\<close>

lemma SMA_err:
  "window < 1 \<Longrightarrow> SMA prices window = Err analytics_ErrInvalidInput"
  "1 \<le> window \<Longrightarrow> len prices < window \<Longrightarrow> SMA prices window = Err analytics_ErrInsufficientData"
  "1 \<le> window \<Longrightarrow> window \<le> len prices \<Longrightarrow> checkPositive prices = Some e \<Longrightarrow> SMA prices window = Err e"
  by (simp_all add: SMA_def)

lemma RSI_err:
  "window < 1 \<Longrightarrow> RSI prices window = Err analytics_ErrInvalidInput"
  "1 \<le> window \<Longrightarrow> len prices < wrap64 (window + 1) \<Longrightarrow>
     RSI prices window = Err analytics_ErrInsufficientData"
  "1 \<le> window \<Longrightarrow> wrap64 (window + 1) \<le> len prices \<Longrightarrow> checkPositive prices = Some e \<Longrightarrow>
     RSI prices window = Err e"
  by (simp_all add: RSI_def)

lemma volatilitySeries_err:
  "window < 1 \<Longrightarrow> volatilitySeries prices window = Err analytics_ErrInvalidInput"
  "1 \<le> window \<Longrightarrow> len prices < wrap64 (window + 1) \<Longrightarrow>
     volatilitySeries prices window = Err analytics_ErrInsufficientData"
  "1 \<le> window \<Longrightarrow> wrap64 (window + 1) \<le> len prices \<Longrightarrow> checkPositive prices = Some e \<Longrightarrow>
     volatilitySeries prices window = Err e"
  by (simp_all add: volatilitySeries_def)

lemma DailyReturn_err:
  "len prices < 2 \<Longrightarrow> DailyReturn prices = Err analytics_ErrInsufficientData"
  "2 \<le> len prices \<Longrightarrow> checkPositive prices = Some e \<Longrightarrow> DailyReturn prices = Err e"
  by (simp_all add: DailyReturn_def)

text \<open>Either a guard fires, or the series is positive and long enough for \<open>w\<close> rounds.\<close>

lemma SMA_outcome:
  obtains (err) e where "SMA prices window = Err e"
    | (ok) w where "window = int w" "1 \<le> w" "w \<le> length prices" "checkPositive prices = None"
proof (cases "window < 1 \<or> len prices < window \<or> checkPositive prices \<noteq> None")
  case True
  then show ?thesis
    using SMA_err [of window prices] err by (metis linorder_not_le option.exhaust_sel)
next
  case False
  then show ?thesis by (intro ok [of "nat window"]) (auto simp: len_def)
qed

lemma succ_window:
  assumes "\<not> window < 1" "\<not> len xs < wrap64 (window + 1)" "window < max_int"
  shows "window = int (nat window)" "1 \<le> nat window" "Suc (nat window) \<le> length xs"
    "int (nat window) < max_int"
proof -
  have "wrap64 (window + 1) = window + 1" using assms by (intro wrap64_id) auto
  with assms show "window = int (nat window)" "1 \<le> nat window" "Suc (nat window) \<le> length xs"
    "int (nat window) < max_int" by (auto simp: len_def)
qed

lemma RSI_outcome:
  assumes "window < max_int"
  obtains (err) e where "RSI prices window = Err e"
    | (ok) w where "window = int w" "1 \<le> w" "Suc w \<le> length prices" "int w < max_int"
        "checkPositive prices = None"
proof (cases "window < 1 \<or> len prices < wrap64 (window + 1) \<or> checkPositive prices \<noteq> None")
  case True
  then show ?thesis
    using RSI_err [of window prices] err by (metis linorder_not_le option.exhaust_sel)
next
  case False
  then show ?thesis using succ_window [of window prices] assms by (intro ok [of "nat window"]) auto
qed

lemma volatilitySeries_outcome:
  assumes "window < max_int"
  obtains (err) e where "volatilitySeries prices window = Err e"
    | (ok) w where "window = int w" "1 \<le> w" "Suc w \<le> length prices" "int w < max_int"
        "checkPositive prices = None"
proof (cases "window < 1 \<or> len prices < wrap64 (window + 1) \<or> checkPositive prices \<noteq> None")
  case True
  then show ?thesis
    using volatilitySeries_err [of window prices] err by (metis linorder_not_le option.exhaust_sel)
next
  case False
  then show ?thesis using succ_window [of window prices] assms by (intro ok [of "nat window"]) auto
qed

lemma DailyReturn_outcome:
  obtains (err) e where "DailyReturn prices = Err e"
    | (ok) "2 \<le> length prices" "checkPositive prices = None"
proof (cases "len prices < 2 \<or> checkPositive prices \<noteq> None")
  case True
  then show ?thesis
    using DailyReturn_err [of prices] err by (metis linorder_not_le option.exhaust_sel)
next
  case False
  then show ?thesis by (intro ok) (auto simp: len_def)
qed

text \<open>The length of every series that is returned.\<close>

lemma SMA_length: "SMA prices window = Ok out \<Longrightarrow> len out = len prices - window + 1"
  by (cases rule: SMA_outcome [of prices window]) (auto simp: SMA_Ok len_def simp del: upt_Suc)

lemma EMA_length:
  "window < max_int \<Longrightarrow> EMA prices window = Ok out \<Longrightarrow> len out = len prices - window + 1"
  by (cases rule: SMA_outcome [of prices window])
    (auto simp: EMA_Ok len_def simp del: upt_Suc, auto simp: EMA_def)

lemma RSI_length: "window < max_int \<Longrightarrow> RSI prices window = Ok out \<Longrightarrow> len out = len prices - window"
  by (cases rule: RSI_outcome [of window prices]) (auto simp: RSI_Ok Let_def len_def split: prod.splits)

lemma volatilitySeries_length:
  "window < max_int \<Longrightarrow> volatilitySeries prices window = Ok out \<Longrightarrow> len out = len prices - window \<and> 0 < len out"
  by (cases rule: volatilitySeries_outcome [of window prices]) (auto simp: volatilitySeries_Ok len_def)

lemma DailyReturn_length: "DailyReturn prices = Ok out \<Longrightarrow> len out = len prices - 1"
  by (cases rule: DailyReturn_outcome [of prices]) (auto simp: DailyReturn_Ok len_def)

lemma no_panic:
  "SMA prices window \<noteq> Panic" "DailyReturn prices \<noteq> Panic"
  "window < max_int \<Longrightarrow> EMA prices window \<noteq> Panic" "window < max_int \<Longrightarrow> RSI prices window \<noteq> Panic"
  "window < max_int \<Longrightarrow> volatilitySeries prices window \<noteq> Panic"
proof -
  show "SMA prices window \<noteq> Panic"
    by (cases rule: SMA_outcome [of prices window]) (auto simp: SMA_Ok)
  show "DailyReturn prices \<noteq> Panic"
    by (cases rule: DailyReturn_outcome [of prices]) (auto simp: DailyReturn_Ok)
  show "window < max_int \<Longrightarrow> EMA prices window \<noteq> Panic"
    by (cases rule: SMA_outcome [of prices window]) (auto simp: EMA_Ok, auto simp: EMA_def)
  show "window < max_int \<Longrightarrow> RSI prices window \<noteq> Panic"
    by (cases rule: RSI_outcome [of window prices]) (auto simp: RSI_Ok Let_def split: prod.splits)
  show "window < max_int \<Longrightarrow> volatilitySeries prices window \<noteq> Panic"
    by (cases rule: volatilitySeries_outcome [of window prices]) (auto simp: volatilitySeries_Ok)
qed

lemma Volatility_no_panic: "window < max_int \<Longrightarrow> Volatility prices window \<noteq> Panic"
  using volatilitySeries_length [of window prices] no_panic(5) [of window prices]
  by (cases "volatilitySeries prices window") (auto simp: Volatility_def idx_def)

end
