(* ===== verification/Indicator_Laws.thy ===== *)
theory Indicator_Laws
  imports Indicators
begin

text \<open>
  The properties of the price indicators: correctly rounded averages, the range and the degenerate
  cases of the RSI, the recurrence of the exponential average, absence of panics, alignment of the
  series, and the corner cases that the guards of \<^verbatim>\<open>technical.go\<close> let through.
\<close>

section \<open>Prices that never fall\<close>

lemma one_float64: "f64 1 = 1" "wf64 (1::float64)"
proof -
  show "f64 1 = 1" by code_simp
  then show "wf64 (1::float64)" using wf64_f64 [of 1] by simp
qed

lemma zero_closed:
  assumes "between 0 0 x"
  shows "between 0 0 (- x)" "between 0 0 y \<Longrightarrow> between 0 0 (x - y)" "between 0 0 y \<Longrightarrow> between 0 0 (x + y)"
    "0 \<le> p \<Longrightarrow> p \<le> 2 ^ 53 \<Longrightarrow> between 0 0 (x * f64 p)"
    "0 < p \<Longrightarrow> p \<le> 2 ^ 53 \<Longrightarrow> between 0 0 (x / f64 p)"
  using between_uminus [OF assms] between_minus [OF assms, of 0 0 y] between_plus [OF assms, of 0 0 y]
    between_times [OF assms between_f64 [of p]] between_divide [OF assms between_f64 [of p]]
  by (simp_all add: rv64.rep_zero)

lemma rsi_seed_no_loss:
  assumes "\<forall>d \<in> set ds. between 0 b d" "between 0 0 l" "rsi_seed ds (g, l) = (g', l')"
  shows "between 0 0 l'"
  using assms
proof (induction ds arbitrary: g l)
  case (Cons d ds)
  show ?case
  proof (cases "0 < d")
    case False
    then have "between 0 0 d" using Cons.prems(1) by (auto simp: between_def less_finite)
    with False Cons.prems Cons.IH [of "l - d" g] zero_closed(2) show ?thesis by auto
  qed (use Cons in auto)
qed simp

lemma rsiValue_no_loss: "between 0 0 l \<Longrightarrow> rsiValue g l \<in> {f64 50, f64 100}"
  by (auto simp: rsiValue_def between_def feq_finite)

lemma rsi_smooth_no_loss:
  assumes "\<forall>d \<in> set ds. between 0 b d" "between 0 0 l" "1 \<le> p" "p \<le> 2 ^ 53"
  shows "set (rsi_smooth p ds g l) \<subseteq> {f64 50, f64 100}"
  using assms
proof (induction ds arbitrary: g l)
  case (Cons d ds)
  define l' where "l' = (l * f64 (p - 1) + (if 0 < d then 0 else - d)) / f64 p"
  define g' where "g' = (g * f64 (p - 1) + (if 0 < d then d else 0)) / f64 p"
  have "between 0 0 (if 0 < d then 0 else - d)"
    using Cons.prems(1) zero_closed(1) [of d] by (auto simp: between_def less_finite)
  then have l': "between 0 0 l'"
    unfolding l'_def using Cons.prems zero_closed by auto
  have "rsi_smooth p (d # ds) g l = rsiValue g' l' # rsi_smooth p ds g' l'"
    by (simp add: g'_def l'_def Let_def)
  with Cons l' rsiValue_no_loss [OF l', of g'] show ?case by auto
qed simp

lemma deltas_rising:
  assumes "\<forall>x \<in> set prices. price64 x" "\<forall>k. Suc k < length prices \<longrightarrow> prices ! k \<le> prices ! Suc k"
  shows "\<forall>d \<in> set (deltas_of prices). between 0 (bnd 1) d"
proof
  fix d assume "d \<in> set (deltas_of prices)"
  then obtain k where k: "Suc k < length prices" and d: "d = prices ! Suc k - prices ! k"
    by (force simp: deltas_of_def)
  have p: "price64 (prices ! k)" "price64 (prices ! Suc k)" using assms(1) k by auto
  let ?v = "fval (prices ! Suc k) - fval (prices ! k)"
  have v: "0 \<le> ?v" "?v \<le> bnd 1" using assms(2) k p by (auto simp: price64_def le_finite)
  have "rep64 (bnd 1)" "bnd 1 < max64" using bnd_rep [of 1] bnd_max [of 1] by auto
  from rv_between [OF v rv64.rep_zero this(1) _ this(2)] minus_exact [of "prices ! Suc k" "prices ! k"]
  show "between 0 (bnd 1) d" using p d by (auto simp: between_def price64_def)
qed

section \<open>Properties\<close>

text \<open>
  C10. The moving average is correctly rounded when no sum can round. Suppose the prices are positive multiples
  \<open>m * 2^k\<close> of one power of two with \<open>m \<le> M\<close>, and \<open>w + 1\<close> such numbers sum to at most \<open>2^53\<close> units, that is
  \<open>(w + 1) * M \<le> 2^53\<close>: whole or half units, quarters, or cents scaled to integers, but not decimal prices such as 190.1,
  whose nearest float64 already uses all 53 bits. Then the running sum of \<open>SMA\<close>, which adds the new price and subtracts the
  oldest one, loses nothing: entry \<open>j\<close> is the exact mean of the prices \<open>j, ..., j + w - 1\<close> rounded once.
\<close>
theorem SMA_correctly_rounded:
  assumes "\<forall>m \<in> set ms. 0 < m \<and> m \<le> M" and "(int w + 1) * M \<le> 2 ^ 53"
    and "-1074 \<le> k" "k \<le> 900" and "1 \<le> w" "w \<le> length ms"
  shows "SMA (map (grid k) ms) (int w) =
    Ok (map (\<lambda>j. round64 (of_int (sum_list (take w (drop j ms))) * 2 powi k / of_nat w))
          [0..<length ms - w + 1])"
  using assms by (rule SMA_grid)

theorem SMA_correctly_rounded_witness:
  "SMA (map (grid (-2)) [401, 402, 405]) 2 = Ok [round64 (803 / 8), round64 (807 / 8)]"
  using SMA_correctly_rounded [of "[401, 402, 405]" 405 2 "-2"] by simp

text \<open>
  C34. Average volumes are exact. For positive integer volumes of at most \<open>M\<close> with \<open>(w + 1) * M \<le> 2^53\<close>, \<open>AverageVolume\<close>
  returns the exact mean volume of every window, rounded once to float64. A volume of 0 is outside the theorem: it makes
  \<open>AverageVolume\<close> return an error.
\<close>
theorem AverageVolume_correctly_rounded:
  assumes "\<forall>v \<in> set vs. 0 < v \<and> v \<le> M" and "(int w + 1) * M \<le> 2 ^ 53" and "1 \<le> w" "w \<le> length vs"
  shows "AverageVolume (map f64 vs) (int w) =
    Ok (map (\<lambda>j. round64 (of_int (sum_list (take w (drop j vs))) / of_nat w)) [0..<length vs - w + 1])"
proof -
  have "f64 v = grid 0 v" if "v \<in> set vs" for v
  proof -
    have v: "0 < v" "v \<le> M" using assms(1) that by auto
    then have "1 * M \<le> (int w + 1) * M" by (intro mult_right_mono) auto
    with assms(2) v have "v \<le> 2 ^ 53" by linarith
    with v round64_grid [of v 0] show ?thesis by (simp add: f64_def)
  qed
  then have eq: "map f64 vs = map (grid 0) vs" by simp
  show ?thesis unfolding AverageVolume_eq_SMA eq using SMA_grid [OF assms(1,2), of 0] assms(3,4) by simp
qed

theorem AverageVolume_correctly_rounded_witness:
  "AverageVolume (map f64 [1000, 2001, 900]) 2 = Ok [round64 (3001 / 2), round64 (2901 / 2)]"
  using AverageVolume_correctly_rounded [of "[1000, 2001, 900]" 2001 2] by simp

text \<open>
  C11. The RSI of positive prices is a series of finite numbers between 0 and 100, one for each day
  after the first \<open>period\<close>, and the call returns it: neither the smoothing nor the quotient of
  average gain and loss can leave the range, whatever is rounded on the way.
\<close>
theorem RSI_in_range:
  assumes "\<forall>x \<in> set prices. price64 x" and "1 \<le> period" "period \<le> 2 ^ 20" "Suc period \<le> length prices"
  shows "\<exists>out. RSI prices (int period) = Ok out \<and> length out = length prices - period \<and>
    (\<forall>r \<in> set out. is_finite r \<and> f64 0 \<le> r \<and> r \<le> f64 100)"
proof -
  have c: "f64 0 = Fin False 0" "f64 100 = Fin False 100" by code_simp+
  from RSI_bounded [OF assms] show ?thesis by (auto simp: between_def c le_finite)
qed

lemma price64_f64: "0 < n \<Longrightarrow> n \<le> 2 ^ 53 \<Longrightarrow> price64 (f64 n)"
proof -
  assume n: "0 < n" "n \<le> 2 ^ 53"
  have "rat_of_int n \<le> of_int (2 ^ 53)" using n by (simp only: of_int_le_iff)
  also have "\<dots> \<le> bnd 1" by (simp add: bnd_def)
  finally show ?thesis using f64_exact [of n] n by (simp add: price64_def)
qed

theorem RSI_in_range_witness:
  "\<exists>out. RSI (map f64 [10, 12, 11, 15]) (int 2) = Ok out \<and> length out = 2 \<and>
    (\<forall>r \<in> set out. is_finite r \<and> f64 0 \<le> r \<and> r \<le> f64 100)"
proof -
  have l: "length (map f64 [10, 12, 11, 15]) - 2 = 2" by simp
  show ?thesis using RSI_in_range [of "map f64 [10, 12, 11, 15]" 2] unfolding l by (simp add: price64_f64)
qed

text \<open>
  The degenerate cases of the RSI: when the price never falls, every value is 100 (only gains)
  or 50 (no movement within the smoothed window), never a quotient with a zero average loss.
\<close>
theorem RSI_no_losses:
  assumes pr: "\<forall>x \<in> set prices. price64 x"
    and up: "\<forall>k. Suc k < length prices \<longrightarrow> prices ! k \<le> prices ! Suc k"
    and p: "1 \<le> period" "period \<le> 2 ^ 20" "Suc period \<le> length prices"
  shows "\<exists>out. RSI prices (int period) = Ok out \<and> set out \<subseteq> {f64 50, f64 100}"
proof -
  note ds = deltas_rising [OF pr up]
  obtain g l where gl: "rsi_seed (take period (deltas_of prices)) (0, 0) = (g, l)" by force
  have z: "between 0 0 0" by (simp add: between_def)
  have "\<forall>d \<in> set (take period (deltas_of prices)). between 0 (bnd 1) d"
    using ds by (auto dest: in_set_takeD)
  from rsi_seed_no_loss [OF this z gl] have l: "between 0 0 (l / f64 (int period))"
    using p by (intro zero_closed(5)) auto
  have rest: "\<forall>d \<in> set (drop period (deltas_of prices)). between 0 (bnd 1) d"
    using ds by (auto dest: in_set_dropD)
  have lt: "int period < max_int" using p by (simp add: max_int_def)
  show ?thesis
    using RSI_Ok [OF p(1,3) lt checkPositive_price64 [OF pr]] gl rsiValue_no_loss [OF l]
      rsi_smooth_no_loss [OF rest l, of "int period"] p by (auto simp: Let_def)
qed

theorem RSI_no_losses_witness:
  "\<exists>out. RSI (map f64 [10, 10, 11, 12]) (int 2) = Ok out \<and> set out \<subseteq> {f64 50, f64 100}"
proof (rule RSI_no_losses)
  show "\<forall>x \<in> set (map f64 [10, 10, 11, 12]). price64 x" by (simp add: price64_f64)
  have "f64 10 \<le> f64 10" "f64 10 \<le> f64 11" "f64 11 \<le> f64 12" by code_simp+
  then show "\<forall>k. Suc k < length (map f64 [10, 10, 11, 12]) \<longrightarrow>
      map f64 [10, 10, 11, 12] ! k \<le> map f64 [10, 10, 11, 12] ! Suc k"
    by (auto simp: less_Suc_eq numeral_eq_Suc)
qed simp_all

text \<open>
  C28. The indicators never panic. For every list and every window below the largest int, each of
  the seven functions returns a value or an error: no index or slice bound is ever out of range,
  including on lists that are empty, too short or not positive.
\<close>
theorem indicators_never_panic:
  assumes "window < max_int"
  shows "SMA xs window \<noteq> Panic \<and> EMA xs window \<noteq> Panic \<and> RSI xs window \<noteq> Panic \<and>
    volatilitySeries xs window \<noteq> Panic \<and> Volatility xs window \<noteq> Panic \<and>
    AverageVolume xs window \<noteq> Panic \<and> DailyReturn xs \<noteq> Panic"
  using assms no_panic Volatility_no_panic by (simp add: AverageVolume_eq_SMA)

theorem indicators_never_panic_witness: "RSI [] (-3) \<noteq> Panic \<and> EMA [f64 1] 20 \<noteq> Panic"
  using indicators_never_panic [of "-3" "[]"] indicators_never_panic [of 20 "[f64 1]"]
  by (simp add: max_int_def)

text \<open>
  C29. Alignment of the series. Whatever is returned has exactly one entry per complete window:
  the windowed averages \<open>n - w + 1\<close>, the RSI and the volatility \<open>n - w\<close>, the returns \<open>n - 1\<close>; all of
  these are positive, so the caller's "last value" exists.
\<close>
theorem series_alignment:
  assumes "window < max_int"
  shows "(\<forall>out. SMA xs window = Ok out \<longrightarrow> len out = len xs - window + 1 \<and> out \<noteq> []) \<and>
    (\<forall>out. EMA xs window = Ok out \<longrightarrow> len out = len xs - window + 1 \<and> out \<noteq> []) \<and>
    (\<forall>out. RSI xs window = Ok out \<longrightarrow> len out = len xs - window \<and> out \<noteq> []) \<and>
    (\<forall>out. volatilitySeries xs window = Ok out \<longrightarrow> len out = len xs - window \<and> out \<noteq> []) \<and>
    (\<forall>out. DailyReturn xs = Ok out \<longrightarrow> len out = len xs - 1 \<and> out \<noteq> [])"
proof -
  have ne: "0 < len ys \<Longrightarrow> ys \<noteq> []" for ys :: "float64 list" by (auto simp: len_def)
  have sma: "len out = len xs - window + 1 \<and> out \<noteq> []" if "SMA xs window = Ok out" for out
    using SMA_length [OF that] that ne [of out] by (auto simp: SMA_def split: if_splits)
  have ema: "len out = len xs - window + 1 \<and> out \<noteq> []" if e: "EMA xs window = Ok out" for out
  proof -
    obtain s where "SMA xs window = Ok s" using e by (auto simp: EMA_def obind_eq_Ok)
    with sma [OF this] EMA_length [OF assms e] ne [of out] SMA_length [of xs window s] show ?thesis
      by (auto simp: SMA_def split: if_splits)
  qed
  have rsi: "len out = len xs - window \<and> out \<noteq> []" if r: "RSI xs window = Ok out" for out
    using RSI_length [OF assms r] ne [of out] r
    by (cases rule: RSI_outcome [OF assms, of xs]) (auto simp: len_def)
  have ret: "len out = len xs - 1 \<and> out \<noteq> []" if r: "DailyReturn xs = Ok out" for out
    using DailyReturn_length [OF r] ne [of out] r by (auto simp: DailyReturn_def split: if_splits)
  show ?thesis using sma ema rsi ret volatilitySeries_length [OF assms, of xs] ne by blast
qed

theorem series_alignment_witness:
  "\<exists>out. RSI (map f64 [10, 12, 11, 15]) 2 = Ok out \<and> len out = 2 \<and> out \<noteq> []"
proof -
  have "is_Ok (RSI (map f64 [10, 12, 11, 15]) 2)" by code_simp
  then obtain out where "RSI (map f64 [10, 12, 11, 15]) 2 = Ok out" by (auto simp: is_Ok_iff)
  with series_alignment [of 2 "map f64 [10, 12, 11, 15]"] show ?thesis
    by (simp add: max_int_def len_def)
qed

text \<open>
  C30. The exponential average is seeded with the first simple average and then follows the
  recurrence \<open>price * alpha + previous * (1 - alpha)\<close> with \<open>alpha = 2 / (window + 1)\<close>, in that
  order of operations, entry \<open>i\<close> taking the price \<open>i + window - 1\<close>.
\<close>
theorem EMA_recurrence:
  assumes w: "window < max_int" and out: "EMA prices window = Ok out"
  shows "(\<exists>sma. SMA prices window = Ok sma \<and> out ! 0 = sma ! 0) \<and>
    (\<forall>i. Suc i < length out \<longrightarrow>
      out ! Suc i = prices ! (i + nat window) * (f64 2 / f64 (window + 1)) +
        out ! i * (1 - f64 2 / f64 (window + 1)))"
proof (cases rule: SMA_outcome [of prices window])
  case (err e)
  with out show ?thesis by (simp add: EMA_def)
next
  case (ok w)
  with w EMA_Ok [of w prices] out have "out = map (ema_seq prices w (f64 2 / f64 (int w + 1))
      (wsum prices w w / f64 (int w))) [0..<length prices - w + 1]" by simp
  with ok SMA_Ok [of w prices] show ?thesis by (auto simp del: upt_Suc)
qed

theorem EMA_recurrence_witness:
  "\<exists>out. EMA (map f64 [10, 12, 11]) 2 = Ok out \<and>
     out ! 1 = f64 11 * (f64 2 / f64 3) + out ! 0 * (1 - f64 2 / f64 3)"
proof -
  have "EMA (map f64 [10, 12, 11]) 2 = Ok [f64 11, f64 11]" by code_simp
  from EMA_recurrence [OF _ this] this show ?thesis by (auto simp: max_int_def)
qed

lemma sample_std_zeros:
  assumes z: "\<forall>r \<in> set w. between 0 0 r" and n: "2 \<le> n" "n \<le> 2 ^ 53"
  shows "between 0 0 (sample_std n w)"
proof -
  have s: "\<forall>r \<in> set w. between 0 0 r \<Longrightarrow> between 0 0 a \<Longrightarrow> between 0 0 (foldl (+) a w)" for a
    by (induction w arbitrary: a) (auto intro: zero_closed)
  have z0: "between 0 0 0" by (simp add: between_def)
  have m: "between 0 0 (foldl (+) 0 w / f64 n)" using s [OF z z0] n by (intro zero_closed) auto
  have sq: "\<forall>r \<in> set w. between 0 0 r \<Longrightarrow> between 0 0 a \<Longrightarrow> between 0 0 mean \<Longrightarrow>
      between 0 0 (foldl (\<lambda>sq r. let d = r - mean in sq + d * d) a w)" for a mean
  proof (induction w arbitrary: a)
    case (Cons r w)
    have "between 0 0 (r - mean)" using Cons.prems by (auto intro: zero_closed)
    from between_times [OF this this] have "between 0 0 ((r - mean) * (r - mean))"
      by (simp add: rv64.rep_zero)
    then show ?case using Cons by (auto simp: Let_def intro: zero_closed)
  qed simp
  have q: "between 0 0 (foldl (\<lambda>sq r. let d = r - foldl (+) 0 w / f64 n in sq + d * d) 0 w / f64 (n - 1))"
    using sq [OF z z0 m] n by (intro zero_closed) auto
  have root: "between 0 0 x \<Longrightarrow> between 0 0 (fsqrt x)" for x
    by (cases x) (auto simp: between_def split: if_splits)
  from root [OF q] show ?thesis by (simp add: sample_std_def Let_def)
qed

text \<open>
  A constant price has zero volatility: the returns, their mean, the squared deviations and
  the root are all exactly zero, for every window of at least two returns.
\<close>
theorem Volatility_flat:
  assumes p: "price64 p" and w: "2 \<le> w" "w < n" "int w \<le> 2 ^ 53"
  shows "\<exists>v. Volatility (replicate n p) (int w) = Ok v \<and> feq v 0"
proof -
  have "fval p / fval p = 1" using p by (simp add: price64_def)
  moreover have "rv 1 = 1" using rv64.fix_rep rep64_of_int [of 1] by simp
  ultimately have "between 1 1 (p / p)"
    using divide_exact [of p p] p by (simp add: between_def price64_def max64_def)
  from between_minus [OF this, of 1 1 1] have z: "between 0 0 (p / p - 1)"
    using one_float64 by (simp add: between_def rv64.rep_zero)
  have "\<forall>r \<in> set (drop (n - Suc w) (returns_of (replicate n p))). between 0 0 r"
    using z by (auto simp: returns_of_def dest!: in_set_dropD)
  from sample_std_zeros [OF this, of "int w"] w have "between 0 0
      (sample_std (int w) (drop (n - Suc w) (returns_of (replicate n p))))" by simp
  moreover have "checkPositive (replicate n p) = None"
    using p by (intro checkPositive_price64) auto
  ultimately show ?thesis using Volatility_Ok [of w "replicate n p"] w
    by (auto simp: between_def feq_finite max_int_def)
qed

theorem Volatility_flat_witness: "\<exists>v. Volatility (replicate 30 (f64 7)) (int 20) = Ok v \<and> feq v 0"
  by (rule Volatility_flat) (simp_all add: price64_f64)

section \<open>Corner cases the guards let through\<close>

lemma sample_std_one: "wf64 r \<Longrightarrow> sample_std 1 [r] = NaN"
proof -
  assume wf: "wf64 r"
  have c: "f64 1 = Fin False 1" "f64 0 = Fin False 0" by code_simp+
  show ?thesis
  proof (cases "is_finite r")
    case True
    have lt: "\<bar>fval r\<bar> < max64" and fr: "rv (fval r) = fval r" 
      using fval_bound [OF wf] rv64.fix_rep [OF rep64_fval [OF wf]] by auto
    have a: "is_finite (0 + r)" "fval (0 + r) = fval r" using plus_exact [of 0 r] True wf lt fr by auto
    have b: "is_finite ((0 + r) / f64 1)" "fval ((0 + r) / f64 1) = fval r"
      using divide_exact [of "0 + r" 1] a lt fr one_float64 by auto
    let ?d = "r - (0 + r) / f64 1"
    have "is_finite ?d" "fval ?d = 0"
      using minus_exact [of r "(0 + r) / f64 1"] True wf b by auto
    then have "between 0 0 ?d" by (auto simp: between_def)
    from zero_closed(3) [of 0 "?d * ?d"] between_times [OF this this]
    have "between 0 0 (0 + ?d * ?d)" by (simp add: rv64.rep_zero between_def)
    then obtain s where "0 + ?d * ?d = Fin s 0"
      by (cases "0 + ?d * ?d") (auto simp: between_def split: if_splits)
    then show ?thesis by (simp add: sample_std_def c)
  next
    case False
    then show ?thesis by (cases r) (auto simp: sample_std_def c zero_float64_def minus_float64_def)
  qed
qed

text \<open>
  A window of one return is accepted and yields only NaN: the sample deviation divides the zero
  sum of squares by \<open>window - 1 = 0\<close>, and no guard catches it.
\<close>
theorem volatility_window_one_is_NaN:
  assumes "2 \<le> length prices" "checkPositive prices = None" "\<forall>x \<in> set prices. wf64 x"
  shows "volatilitySeries prices 1 = Ok (replicate (length prices - 1) NaN)"
proof -
  have r: "take 1 (drop i (returns_of prices)) = [prices ! Suc i / prices ! i - 1]"
    if "i < length prices - 1" for i
    using that by (simp add: returns_of_def take_Suc_conv_app_nth drop_map take_map)
  have "volatilitySeries prices (int 1) =
      Ok (map (\<lambda>i. sample_std (int 1) (take 1 (drop i (returns_of prices)))) [0..<length prices - 1])"
    using assms by (intro volatilitySeries_Ok) (auto simp: max_int_def)
  also have "\<dots> = Ok (map (\<lambda>i. NaN) [0..<length prices - 1])"
    using r sample_std_one by (simp add: max_int_def)
  finally show ?thesis by (simp add: map_replicate_const)
qed

theorem volatility_window_one_is_NaN_witness: "volatilitySeries [f64 10, f64 11, f64 12] 1 = Ok [NaN, NaN]"
proof -
  have "checkPositive [f64 10, f64 11, f64 12] = None" by code_simp
  with volatility_window_one_is_NaN [of "[f64 10, f64 11, f64 12]"] show ?thesis
    by (simp add: eval_nat_numeral)
qed

lemma wsum_NaN: "n < i \<Longrightarrow> prices ! n = NaN \<Longrightarrow> wsum prices w i = NaN"
  by (induction i) (auto simp: less_Suc_eq Let_def minus_float64_def)

text \<open>
  \<open>checkPositive\<close> lets NaN through, and the running sum never recovers from it: once a NaN
  price has entered, every later window of \<open>SMA\<close> is NaN, also those that no longer contain it.
\<close>
theorem SMA_NaN_sticky:
  assumes "checkPositive prices = None" "1 \<le> w" "w \<le> length prices" "prices ! n = NaN"
  shows "\<exists>out. SMA prices (int w) = Ok out \<and> (\<forall>j < length out. n < j + w \<longrightarrow> out ! j = NaN)"
  using SMA_Ok [OF assms(2,3,1)] wsum_NaN [of n _ prices w] assms(4) by (auto simp del: upt_Suc)

theorem SMA_NaN_sticky_witness:
  "\<exists>out. SMA [NaN, f64 1, f64 2, f64 3] (int 2) = Ok out \<and> (\<forall>j < length out. out ! j = NaN)"
proof -
  have "checkPositive [NaN, f64 1, f64 2, f64 3] = None" by code_simp
  from SMA_NaN_sticky [OF this, of 2 0] show ?thesis by auto
qed

text \<open>
  With the largest period the length guard wraps around: \<open>period + 1\<close> is the smallest int, the
  guard passes, and slicing the deltas panics (or \<^verbatim>\<open>make\<close> does, on an empty list).
\<close>
theorem RSI_max_period_panics:
  assumes "checkPositive prices = None" "len prices \<le> max_int"
  shows "RSI prices max_int = Panic"
proof -
  let ?n = "length prices - 1"
  have wr: "wrap64 (max_int + 1) < 0" by (simp add: wrap64_def max_int_def)
  have g: "\<not> max_int < 1" "\<not> len prices < wrap64 (max_int + 1)"
    using wr by (auto simp: max_int_def len_def)
  show ?thesis
  proof (cases prices)
    case Nil
    with g assms(1) show ?thesis by (simp add: RSI_def make_def len_def)
  next
    case (Cons p ps)
    have mk: "make 0 (len prices - 1) = (Ok (replicate ?n 0) :: float64 list res)"
      using Cons by (auto simp: make_def len_def)
    have loop: "for_range 1 (len prices) (\<lambda>i deltas.
            obind (idx prices i) (\<lambda>x.
            obind (idx prices (i - 1)) (\<lambda>q.
            upd deltas (i - 1) (x - q) :: float64 list res))) (replicate ?n 0) = Ok (deltas_of prices)"
      unfolding deltas_of_def using Cons
      by (intro for_range_fill) (auto simp: idx_def upd_def len_def nat_add_distrib)
    have sl: "slice (deltas_of prices) 0 max_int = (Panic :: float64 list res)"
      using assms(2) Cons by (auto simp: slice_def len_def deltas_of_def)
    show ?thesis
      unfolding RSI_def if_not_P [OF g(1)] if_not_P [OF g(2)] assms(1) option.case mk obind.simps loop sl ..
  qed
qed

theorem RSI_max_period_panics_witness: "RSI [f64 3, f64 4] max_int = Panic"
proof -
  have "checkPositive [f64 3, f64 4] = None" by code_simp
  from RSI_max_period_panics [OF this] show ?thesis by (simp add: len_def max_int_def)
qed

end
