(* ===== verification/Query.thy ===== *)
theory Query
  imports Ingestion Indicator_Laws
begin

text \<open>
  The read side: \<^verbatim>\<open>internal/service/query.go\<close>, \<^verbatim>\<open>analytics.go\<close> and \<^verbatim>\<open>screener.go\<close>. The service reads
  through the \<^verbatim>\<open>QueryStore\<close> interface and an optional cache; results travel through the cache as
  JSON, whose encoder and decoder are arguments (\<open>Codec\<close>), and a failing call of the cache or the
  codec is a miss. \<^verbatim>\<open>*float64\<close> is an option. Methods that index slices return outcomes, so that an
  index out of range would show as \<open>Panic\<close>.
\<close>

section \<open>The service\<close>

definition ErrNotFound :: gerror where
  "ErrNotFound = Sentinel ''query: not found''"

definition ErrInsufficientData :: gerror where
  "ErrInsufficientData = Sentinel ''query: insufficient data''"

record 'w QueryStore =
  qs_GetCompany :: "string \<Rightarrow> ('w, Company) call"
  qs_ListCompanies :: "('w, Company list) call"
  qs_GetPriceHistory :: "string \<Rightarrow> int \<Rightarrow> ('w, DailyPrice list) call"
  qs_GetLatestPrice :: "string \<Rightarrow> ('w, DailyPrice) call"
  qs_GetIncomeStatements :: "string \<Rightarrow> string \<Rightarrow> ('w, IncomeStatement list) call"
  qs_GetBalanceSheets :: "string \<Rightarrow> string \<Rightarrow> ('w, BalanceSheet list) call"
  qs_GetCashFlows :: "string \<Rightarrow> string \<Rightarrow> ('w, CashFlow list) call"
  qs_Screener :: "ScreenerFilter \<Rightarrow> ('w, ScreenerResult list) call"

record 'w QueryService =
  q_store :: "'w QueryStore"
  q_cache :: "'w Cache option"

definition NewQueryService :: "'w QueryStore \<Rightarrow> 'w Cache list \<Rightarrow> 'w QueryService" where
  "NewQueryService store cache =
     \<lparr>q_store = store, q_cache = (if 0 < len cache then Some (hd cache) else None)\<rparr>"

definition wrapNotFound :: "gerror \<Rightarrow> gerror" where
  "wrapNotFound err = wrap_sentinel ErrNotFound err"

definition insufficientErr :: "gerror \<Rightarrow> gerror" where
  "insufficientErr err =
     (if errors_Is err sql_ErrNoRows then wrap_sentinel ErrInsufficientData err else err)"

definition ListCompanies :: "'w QueryService \<Rightarrow> ('w, Company list) call" where
  "ListCompanies s w = qs_ListCompanies (q_store s) w"

text \<open>The common shape of the plain reads: absent data becomes \<open>ErrNotFound\<close>.\<close>

definition not_found :: "'a ret \<times> 'w \<Rightarrow> 'a ret \<times> 'w" where
  "not_found r =
     (case r of
        (Inl err, w) \<Rightarrow> (Inl (if errors_Is err sql_ErrNoRows then wrapNotFound err else err), w)
      | (Inr x, w) \<Rightarrow> (Inr x, w))"

definition GetCompany :: "'w QueryService \<Rightarrow> string \<Rightarrow> ('w, Company) call" where
  "GetCompany s symbol w =
     (case normalizeSymbol symbol of
        Inl err \<Rightarrow> (Inl err, w)
      | Inr nsym \<Rightarrow> not_found (qs_GetCompany (q_store s) nsym w))"

definition GetPriceHistory :: "'w QueryService \<Rightarrow> string \<Rightarrow> int \<Rightarrow> ('w, DailyPrice list) call" where
  "GetPriceHistory s symbol limit w =
     (case normalizeSymbol symbol of
        Inl err \<Rightarrow> (Inl err, w)
      | Inr nsym \<Rightarrow> not_found (qs_GetPriceHistory (q_store s) nsym limit w))"

definition GetIncomeStatements :: "'w QueryService \<Rightarrow> string \<Rightarrow> string \<Rightarrow> ('w, IncomeStatement list) call" where
  "GetIncomeStatements s symbol period w =
     (case normalizeSymbol symbol of
        Inl err \<Rightarrow> (Inl err, w)
      | Inr nsym \<Rightarrow> not_found (qs_GetIncomeStatements (q_store s) nsym period w))"

definition GetBalanceSheets :: "'w QueryService \<Rightarrow> string \<Rightarrow> string \<Rightarrow> ('w, BalanceSheet list) call" where
  "GetBalanceSheets s symbol period w =
     (case normalizeSymbol symbol of
        Inl err \<Rightarrow> (Inl err, w)
      | Inr nsym \<Rightarrow> not_found (qs_GetBalanceSheets (q_store s) nsym period w))"

definition GetCashFlows :: "'w QueryService \<Rightarrow> string \<Rightarrow> string \<Rightarrow> ('w, CashFlow list) call" where
  "GetCashFlows s symbol period w =
     (case normalizeSymbol symbol of
        Inl err \<Rightarrow> (Inl err, w)
      | Inr nsym \<Rightarrow> not_found (qs_GetCashFlows (q_store s) nsym period w))"

text \<open>A nil slice and an empty one are the same list.\<close>

definition Screener :: "'w QueryService \<Rightarrow> ScreenerFilter \<Rightarrow> ('w, ScreenerResult list) call" where
  "Screener s flt w =
     (case qs_Screener (q_store s) flt w of
        (Inl err, w) \<Rightarrow> (Inl (wrap_text ''screener'' err), w)
      | (Inr rows, w) \<Rightarrow> (Inr rows, w))"

section \<open>Computed results\<close>

record AnalyticsMetrics =
  m_PERatio :: "float64 option"
  m_PriceToBook :: "float64 option"
  m_ROE :: "float64 option"
  m_ROA :: "float64 option"
  m_NetMargin :: "float64 option"
  m_CurrentRatio :: "float64 option"
  m_DebtToEquity :: "float64 option"
  m_RevenueGrowth :: "float64 option"
  m_EarningsGrowth :: "float64 option"

record AnalyticsResult =
  ar_Symbol :: string
  ar_Price :: float64
  ar_Metrics :: AnalyticsMetrics

record TechnicalValues =
  tv_DailyReturn :: "float64 option"
  tv_SMA20 :: "float64 option"
  tv_SMA50 :: "float64 option"
  tv_SMA200 :: "float64 option"
  tv_EMA20 :: "float64 option"
  tv_RSI14 :: "float64 option"
  tv_Volatility20 :: "float64 option"
  tv_AverageVolume20 :: "float64 option"

record TechnicalResult =
  tr_Symbol :: string
  tr_LastDate :: time
  tr_Values :: TechnicalValues

text \<open>\<^verbatim>\<open>json.Marshal\<close> and \<^verbatim>\<open>json.Unmarshal\<close> at one result type.\<close>

record 'a Codec =
  Marshal :: "'a \<Rightarrow> string ret"
  Unmarshal :: "string \<Rightarrow> 'a ret"

definition cachedResult :: "'a Codec \<Rightarrow> 'w Cache \<Rightarrow> string \<Rightarrow> 'w \<Rightarrow> 'a option \<times> 'w" where
  "cachedResult json c key w =
     (case cache_Get c key w of
        (Inl err, w) \<Rightarrow> (None, w)
      | (Inr data, w) \<Rightarrow>
          (if len data = 0 then (None, w)
           else case Unmarshal json data of
             Inl err \<Rightarrow> (None, w)
           | Inr v \<Rightarrow> (Some v, w)))"

definition storeResult :: "'a Codec \<Rightarrow> 'w Cache \<Rightarrow> string \<Rightarrow> 'a \<Rightarrow> 'w \<Rightarrow> 'w" where
  "storeResult json c key res w =
     (case Marshal json res of
        Inl err \<Rightarrow> w
      | Inr data \<Rightarrow> snd (cache_Set c key data w))"

definition nullable :: "float64 res \<Rightarrow> float64 option res" where
  "nullable r = (case r of Ok v \<Rightarrow> Ok (Some v) | Err e \<Rightarrow> Ok None | Panic \<Rightarrow> Panic)"

definition scalar :: "float64 res \<Rightarrow> float64 option res" where
  "scalar r = nullable r"

definition last_value :: "float64 list res \<Rightarrow> float64 option res" where
  "last_value r =
     (case r of
        Ok vals \<Rightarrow> if len vals = 0 then Ok None else obind (idx vals (len vals - 1)) (\<lambda>v. Ok (Some v))
      | Err e \<Rightarrow> Ok None
      | Panic \<Rightarrow> Panic)"

text \<open>The metrics from the latest price, the two latest annual incomes and the latest annual balance.\<close>

definition analytics_metrics ::
    "float64 \<Rightarrow> IncomeStatement \<Rightarrow> IncomeStatement option \<Rightarrow> BalanceSheet \<Rightarrow> AnalyticsMetrics res" where
  "analytics_metrics price cur prev b =
     obind (nullable (PERatio price (inc_DilutedEPS cur))) (\<lambda>pe.
     obind (nullable (PriceToBook price (bal_TotalEquity b) (bal_SharesOutstanding b))) (\<lambda>pb.
     obind (nullable (ROE (inc_NetIncome cur) (bal_TotalEquity b))) (\<lambda>roe.
     obind (nullable (ROA (inc_NetIncome cur) (bal_TotalAssets b))) (\<lambda>roa.
     obind (nullable (NetMargin (inc_NetIncome cur) (inc_Revenue cur))) (\<lambda>margin.
     obind (nullable (CurrentRatio (bal_CurrentAssets b) (bal_CurrentLiabilities b))) (\<lambda>current.
     obind (nullable (DebtToEquity (bal_TotalDebt b) (bal_TotalEquity b))) (\<lambda>debt.
     let m = \<lparr>m_PERatio = pe, m_PriceToBook = pb, m_ROE = roe, m_ROA = roa, m_NetMargin = margin,
              m_CurrentRatio = current, m_DebtToEquity = debt, m_RevenueGrowth = None, m_EarningsGrowth = None\<rparr>
     in case prev of
          None \<Rightarrow> Ok m
        | Some p \<Rightarrow>
            obind (nullable (RevenueGrowth (inc_Revenue p) (inc_Revenue cur))) (\<lambda>rg.
            obind (nullable (EarningsGrowth (inc_NetIncome p) (inc_NetIncome cur))) (\<lambda>eg.
            Ok (m\<lparr>m_RevenueGrowth := rg, m_EarningsGrowth := eg\<rparr>))))))))))"

definition analytics_compute ::
    "string \<Rightarrow> IncomeStatement list \<Rightarrow> BalanceSheet list \<Rightarrow> DailyPrice \<Rightarrow> AnalyticsResult res" where
  "analytics_compute nsym incomes balances latest =
     obind (idx incomes 0) (\<lambda>cur.
     obind (if 1 < len incomes then obind (idx incomes 1) (\<lambda>p. Ok (Some p)) else Ok None) (\<lambda>prev.
     obind (idx balances 0) (\<lambda>b.
     let price = dp_Close latest in
     obind (analytics_metrics price cur prev b) (\<lambda>m.
     Ok \<lparr>ar_Symbol = nsym, ar_Price = price, ar_Metrics = m\<rparr>))))"

text \<open>\<^verbatim>\<open>GetAnalytics\<close> after a cache miss: the reads in order, then the computation.\<close>

definition analytics_read :: "'w QueryService \<Rightarrow> string \<Rightarrow> 'w \<Rightarrow> AnalyticsResult res \<times> 'w" where
  "analytics_read s nsym w =
     (case qs_GetCompany (q_store s) nsym w of
        (Inl err, w) \<Rightarrow> (Err (if errors_Is err sql_ErrNoRows then wrapNotFound err else err), w)
      | (Inr _, w) \<Rightarrow>
     (case qs_GetIncomeStatements (q_store s) nsym ''annual'' w of
        (Inl err, w) \<Rightarrow> (Err (insufficientErr err), w)
      | (Inr incomes, w) \<Rightarrow>
     (case qs_GetBalanceSheets (q_store s) nsym ''annual'' w of
        (Inl err, w) \<Rightarrow> (Err (insufficientErr err), w)
      | (Inr balances, w) \<Rightarrow>
     (case qs_GetLatestPrice (q_store s) nsym w of
        (Inl err, w) \<Rightarrow> (Err (insufficientErr err), w)
      | (Inr latest, w) \<Rightarrow> (analytics_compute nsym incomes balances latest, w)))))"

text \<open>The read-through frame that \<^verbatim>\<open>GetAnalytics\<close> and \<^verbatim>\<open>GetTechnical\<close> share.\<close>

definition read_through ::
    "'a Codec \<Rightarrow> 'w Cache option \<Rightarrow> string \<Rightarrow> ('w \<Rightarrow> 'a res \<times> 'w) \<Rightarrow> 'w \<Rightarrow> 'a res \<times> 'w" where
  "read_through json cache key compute w =
     (let (hit, w) = (case cache of None \<Rightarrow> (None, w) | Some c \<Rightarrow> cachedResult json c key w)
      in case hit of
           Some res \<Rightarrow> (Ok res, w)
         | None \<Rightarrow>
             (case compute w of
                (Ok res, w) \<Rightarrow> (Ok res, case cache of None \<Rightarrow> w | Some c \<Rightarrow> storeResult json c key res w)
              | r \<Rightarrow> r))"

definition GetAnalytics :: "AnalyticsResult Codec \<Rightarrow> 'w QueryService \<Rightarrow> string \<Rightarrow> 'w \<Rightarrow> AnalyticsResult res \<times> 'w" where
  "GetAnalytics json s symbol w =
     (case normalizeSymbol symbol of
        Inl err \<Rightarrow> (Err err, w)
      | Inr nsym \<Rightarrow> read_through json (q_cache s) (''analytics:'' @ nsym) (analytics_read s nsym) w)"

definition technical_values :: "float64 list \<Rightarrow> float64 list \<Rightarrow> TechnicalValues res" where
  "technical_values closes volumes =
     obind (last_value (DailyReturn closes)) (\<lambda>dr.
     obind (last_value (SMA closes 20)) (\<lambda>sma20.
     obind (last_value (SMA closes 50)) (\<lambda>sma50.
     obind (last_value (SMA closes 200)) (\<lambda>sma200.
     obind (last_value (EMA closes 20)) (\<lambda>ema20.
     obind (last_value (RSI closes 14)) (\<lambda>rsi14.
     obind (scalar (Volatility closes 20)) (\<lambda>vol20.
     obind (last_value (AverageVolume volumes 20)) (\<lambda>av20.
     Ok \<lparr>tv_DailyReturn = dr, tv_SMA20 = sma20, tv_SMA50 = sma50, tv_SMA200 = sma200, tv_EMA20 = ema20,
         tv_RSI14 = rsi14, tv_Volatility20 = vol20, tv_AverageVolume20 = av20\<rparr>))))))))"

definition technical_compute :: "string \<Rightarrow> DailyPrice list \<Rightarrow> TechnicalResult res" where
  "technical_compute nsym prices =
     (let closes = map dp_Close prices;
          volumes = map (\<lambda>p. f64 (dp_Volume p)) prices
      in obind (idx prices (len prices - 1)) (\<lambda>p.
         obind (technical_values closes volumes) (\<lambda>v.
         Ok \<lparr>tr_Symbol = nsym, tr_LastDate = dp_Date p, tr_Values = v\<rparr>)))"

definition technical_read :: "'w QueryService \<Rightarrow> string \<Rightarrow> 'w \<Rightarrow> TechnicalResult res \<times> 'w" where
  "technical_read s nsym w =
     (case qs_GetCompany (q_store s) nsym w of
        (Inl err, w) \<Rightarrow> (Err (if errors_Is err sql_ErrNoRows then wrapNotFound err else err), w)
      | (Inr _, w) \<Rightarrow>
     (case qs_GetPriceHistory (q_store s) nsym 0 w of
        (Inl err, w) \<Rightarrow> (Err (insufficientErr err), w)
      | (Inr prices, w) \<Rightarrow> (technical_compute nsym prices, w)))"

definition GetTechnical :: "TechnicalResult Codec \<Rightarrow> 'w QueryService \<Rightarrow> string \<Rightarrow> 'w \<Rightarrow> TechnicalResult res \<times> 'w" where
  "GetTechnical json s symbol w =
     (case normalizeSymbol symbol of
        Inl err \<Rightarrow> (Err err, w)
      | Inr nsym \<Rightarrow> read_through json (q_cache s) (''technical:'' @ nsym) (technical_read s nsym) w)"

section \<open>Compare\<close>

text \<open>The first loop: every item is normalized, counted and checked for duplicates, in that order.\<close>

fun compare_symbols :: "int \<Rightarrow> string list \<Rightarrow> string list \<Rightarrow> string set \<Rightarrow> string list ret" where
  "compare_symbols mx [] symbols seen = Inr symbols"
| "compare_symbols mx (item # raw) symbols seen =
     (case normalizeSymbol item of
        Inl err \<Rightarrow> Inl err
      | Inr nsym \<Rightarrow>
          if mx \<le> len symbols
          then Inl (Errorf (Error_text ErrInvalidSymbol @ [Lit '': at most '', Lit (show_int mx), Lit '' symbols''])
                 [ErrInvalidSymbol])
          else if nsym \<in> seen
          then Inl (Errorf (Error_text ErrInvalidSymbol @ [Lit '': duplicate symbol '', Q nsym]) [ErrInvalidSymbol])
          else compare_symbols mx raw (symbols @ [nsym]) (insert nsym seen))"

text \<open>The second loop: the first failure ends it.\<close>

fun compare_results ::
    "AnalyticsResult Codec \<Rightarrow> 'w QueryService \<Rightarrow> string list \<Rightarrow> AnalyticsResult list \<Rightarrow> 'w \<Rightarrow>
     AnalyticsResult list res \<times> 'w" where
  "compare_results json s [] out w = (Ok out, w)"
| "compare_results json s (nsym # symbols) out w =
     (case GetAnalytics json s nsym w of
        (Ok res, w) \<Rightarrow> compare_results json s symbols (out @ [res]) w
      | (Err err, w) \<Rightarrow> (Err err, w)
      | (Panic, w) \<Rightarrow> (Panic, w))"

definition Compare ::
    "AnalyticsResult Codec \<Rightarrow> 'w QueryService \<Rightarrow> string list \<Rightarrow> int \<Rightarrow> 'w \<Rightarrow> AnalyticsResult list res \<times> 'w" where
  "Compare json s raw mx w =
     (case compare_symbols mx raw [] {} of
        Inl err \<Rightarrow> (Err err, w)
      | Inr symbols \<Rightarrow>
          if len symbols = 0
          then (Err (Errorf (Error_text ErrInvalidSymbol @ [Lit '': at least one symbol is required''])
                 [ErrInvalidSymbol]), w)
          else compare_results json s symbols [] w)"

end
