(* ===== verification/Query_Laws.thy ===== *)
theory Query_Laws
  imports Query
begin

text \<open>
  What the read side promises: totality of the computations, the contract of the query store and
  the results it gives the service, coherence of the read-through cache, and the all-or-nothing
  behaviour of \<open>Compare\<close>.
\<close>

section \<open>The computations are total\<close>

lemma nullable_ratio:
  "\<exists>v. nullable (PERatio a b) = Ok v" "\<exists>v. nullable (PriceToBook a b c) = Ok v"
  "\<exists>v. nullable (ROE a b) = Ok v" "\<exists>v. nullable (ROA a b) = Ok v" "\<exists>v. nullable (NetMargin a b) = Ok v"
  "\<exists>v. nullable (CurrentRatio a b) = Ok v" "\<exists>v. nullable (DebtToEquity a b) = Ok v"
  "\<exists>v. nullable (RevenueGrowth a b) = Ok v" "\<exists>v. nullable (EarningsGrowth a b) = Ok v"
  by (simp_all add: nullable_def PERatio_def PriceToBook_def ROE_def ROA_def NetMargin_def CurrentRatio_def
      DebtToEquity_def RevenueGrowth_def EarningsGrowth_def growth_def ratio_def)

lemma obind_total: "\<exists>x. m = Ok x \<Longrightarrow> (\<And>x. m = Ok x \<Longrightarrow> \<exists>y. f x = Ok y) \<Longrightarrow> \<exists>y. obind m f = Ok y"
  by auto

lemma analytics_metrics_total: "\<exists>m. analytics_metrics price cur prev b = Ok m"
  unfolding analytics_metrics_def Let_def
  by (intro obind_total nullable_ratio) (auto split: option.splits intro!: obind_total nullable_ratio)

lemma analytics_compute_total:
  assumes "incomes \<noteq> []" "balances \<noteq> []"
  shows "\<exists>res. analytics_compute nsym incomes balances latest = Ok res"
proof -
  have 0: "\<exists>x. idx incomes 0 = Ok x" "\<exists>x. idx balances 0 = Ok x"
    using assms by (auto simp: idx_def len_def)
  have 1: "\<exists>x. (if 1 < len incomes then obind (idx incomes 1) (\<lambda>p. Ok (Some p)) else Ok None) = Ok x"
    by (auto simp: idx_def)
  show ?thesis unfolding analytics_compute_def Let_def
    by (intro obind_total 0 1 analytics_metrics_total) auto
qed

lemma last_value_total: "r \<noteq> Panic \<Longrightarrow> \<exists>v. last_value r = Ok v"
  by (cases r) (auto simp: last_value_def idx_def len_def)

lemma scalar_total: "r \<noteq> Panic \<Longrightarrow> \<exists>v. scalar r = Ok v"
  by (cases r) (auto simp: scalar_def nullable_def)

lemma technical_values_total: "\<exists>v. technical_values closes volumes = Ok v"
  unfolding technical_values_def
  by (intro obind_total last_value_total scalar_total no_panic Volatility_no_panic)
    (auto simp: max_int_def AverageVolume_eq_SMA no_panic)

lemma technical_compute_total: "prices \<noteq> [] \<Longrightarrow> \<exists>res. technical_compute nsym prices = Ok res"
  unfolding technical_compute_def Let_def
  by (intro obind_total technical_values_total) (auto simp: idx_def len_def)

section \<open>Specification of the computed endpoints\<close>

text \<open>What a computed result must be, as a function of the stored data alone.\<close>

definition analytics_spec ::
    "string \<Rightarrow> Company option \<Rightarrow> IncomeStatement list \<Rightarrow> BalanceSheet list \<Rightarrow> DailyPrice list \<Rightarrow> AnalyticsResult res" where
  "analytics_spec nsym company incomes balances prices =
     (if company = None then Err ErrNotFound
      else if incomes = [] \<or> balances = [] \<or> prices = [] then Err ErrInsufficientData
      else analytics_compute nsym incomes balances (last prices))"

definition technical_spec :: "string \<Rightarrow> Company option \<Rightarrow> DailyPrice list \<Rightarrow> TechnicalResult res" where
  "technical_spec nsym company prices =
     (if company = None then Err ErrNotFound
      else if prices = [] then Err ErrInsufficientData
      else technical_compute nsym prices)"

text \<open>
  \<open>agrees r spec\<close>: a result is the specified one, and an error that matches one of the service's
  errors is the specified one; any other error is a failure of the store.
\<close>

definition agrees :: "'a res \<Rightarrow> 'a res \<Rightarrow> bool" where
  "agrees r spec \<longleftrightarrow>
     (case r of
        Ok x \<Rightarrow> spec = Ok x
      | Err e \<Rightarrow> (errors_Is e ErrNotFound \<longrightarrow> spec = Err ErrNotFound) \<and>
                (errors_Is e ErrInsufficientData \<longrightarrow> spec = Err ErrInsufficientData) \<and>
                \<not> errors_Is e ErrInvalidSymbol
      | Panic \<Rightarrow> False)"

text \<open>An error of the store carries none of the service's own sentinels.\<close>

definition plain_error :: "gerror \<Rightarrow> bool" where
  "plain_error e \<longleftrightarrow>
     \<not> errors_Is e ErrNotFound \<and> \<not> errors_Is e ErrInsufficientData \<and> \<not> errors_Is e ErrInvalidSymbol"

lemma agrees_insufficient:
  "plain_error e \<Longrightarrow> (errors_Is e sql_ErrNoRows \<Longrightarrow> spec = Err ErrInsufficientData) \<Longrightarrow>
     agrees (Err (insufficientErr e)) spec"
  by (auto simp: agrees_def plain_error_def insufficientErr_def wrap_sentinel_def ErrNotFound_def
      ErrInsufficientData_def ErrInvalidSymbol_def)

lemma agrees_missing:
  "plain_error e \<Longrightarrow> (errors_Is e sql_ErrNoRows \<Longrightarrow> spec = Err ErrNotFound) \<Longrightarrow>
     agrees (Err (if errors_Is e sql_ErrNoRows then wrapNotFound e else e)) spec"
  by (auto simp: agrees_def plain_error_def wrapNotFound_def wrap_sentinel_def ErrNotFound_def
      ErrInsufficientData_def ErrInvalidSymbol_def)

lemma spec_symbol:
  "analytics_spec nsym co is' bs ps = Ok x \<Longrightarrow> ar_Symbol x = nsym"
  "technical_spec nsym co ps = Ok y \<Longrightarrow> tr_Symbol y = nsym"
  by (auto simp: analytics_spec_def analytics_compute_def technical_spec_def technical_compute_def Let_def obind_eq_Ok
      split: if_splits)

section \<open>The contract of the query store\<close>

text \<open>
  \<open>view w\<close> is the data the store holds, and \<open>companies\<close>, \<open>prices\<close> (oldest first), \<open>incomes\<close> and
  \<open>balances\<close> (newest first) read it. A successful read returns them, reads change nothing, success
  means there was at least one row, and \<^verbatim>\<open>sql.ErrNoRows\<close> means there was none. Any other error may
  occur at any time.
\<close>

locale query_contract =
  fixes st :: "'w QueryStore" and view :: "'w \<Rightarrow> 'v"
    and companies :: "'v \<Rightarrow> string \<Rightarrow> Company option"
    and prices :: "'v \<Rightarrow> string \<Rightarrow> DailyPrice list"
    and incomes :: "'v \<Rightarrow> string \<Rightarrow> string \<Rightarrow> IncomeStatement list"
    and balances :: "'v \<Rightarrow> string \<Rightarrow> string \<Rightarrow> BalanceSheet list"
  assumes company: "qs_GetCompany st s w = (rc, w') \<Longrightarrow> view w' = view w \<and>
      (case rc of Inr x \<Rightarrow> companies (view w) s = Some x
       | Inl e \<Rightarrow> plain_error e \<and> (errors_Is e sql_ErrNoRows \<longrightarrow> companies (view w) s = None))"
    and history: "qs_GetPriceHistory st s 0 w = (rh, w') \<Longrightarrow> view w' = view w \<and>
      (case rh of Inr xs \<Rightarrow> xs = prices (view w) s \<and> xs \<noteq> []
       | Inl e \<Rightarrow> plain_error e \<and> (errors_Is e sql_ErrNoRows \<longrightarrow> prices (view w) s = []))"
    and latest: "qs_GetLatestPrice st s w = (rl, w') \<Longrightarrow> view w' = view w \<and>
      (case rl of Inr p \<Rightarrow> prices (view w) s \<noteq> [] \<and> p = last (prices (view w) s)
       | Inl e \<Rightarrow> plain_error e \<and> (errors_Is e sql_ErrNoRows \<longrightarrow> prices (view w) s = []))"
    and income: "qs_GetIncomeStatements st s p w = (ri, w') \<Longrightarrow> view w' = view w \<and>
      (case ri of Inr xs \<Rightarrow> xs = incomes (view w) s p \<and> xs \<noteq> []
       | Inl e \<Rightarrow> plain_error e \<and> (errors_Is e sql_ErrNoRows \<longrightarrow> incomes (view w) s p = []))"
    and balance: "qs_GetBalanceSheets st s p w = (rb, w') \<Longrightarrow> view w' = view w \<and>
      (case rb of Inr xs \<Rightarrow> xs = balances (view w) s p \<and> xs \<noteq> []
       | Inl e \<Rightarrow> plain_error e \<and> (errors_Is e sql_ErrNoRows \<longrightarrow> balances (view w) s p = []))"
begin

abbreviation analytics_of :: "'w \<Rightarrow> string \<Rightarrow> AnalyticsResult res" where
  "analytics_of w nsym \<equiv> analytics_spec nsym (companies (view w) nsym) (incomes (view w) nsym ''annual'')
     (balances (view w) nsym ''annual'') (prices (view w) nsym)"

abbreviation technical_of :: "'w \<Rightarrow> string \<Rightarrow> TechnicalResult res" where
  "technical_of w nsym \<equiv> technical_spec nsym (companies (view w) nsym) (prices (view w) nsym)"

lemma analytics_read_agrees:
  assumes st: "q_store s = st" and r: "analytics_read s nsym w = (r, w')"
  shows "view w' = view w \<and> agrees r (analytics_of w nsym)"
proof -
  obtain rc w1 where 1: "qs_GetCompany st nsym w = (rc, w1)" by force
  obtain ri w2 where 2: "qs_GetIncomeStatements st nsym ''annual'' w1 = (ri, w2)" by force
  obtain rb w3 where 3: "qs_GetBalanceSheets st nsym ''annual'' w2 = (rb, w3)" by force
  obtain rl w4 where 4: "qs_GetLatestPrice st nsym w3 = (rl, w4)" by force
  note laws = company [OF 1] income [OF 2] balance [OF 3] latest [OF 4]
  note reads = st 1 2 3 4 analytics_read_def analytics_spec_def
  consider (co) e where "rc = Inl e" | (inc) c e where "rc = Inr c" "ri = Inl e"
    | (bal) c is' e where "rc = Inr c" "ri = Inr is'" "rb = Inl e"
    | (lat) c is' bs e where "rc = Inr c" "ri = Inr is'" "rb = Inr bs" "rl = Inl e"
    | (ok) c is' bs p where "rc = Inr c" "ri = Inr is'" "rb = Inr bs" "rl = Inr p"
    by (metis obj_sumE)
  then show ?thesis
  proof cases
    case co
    with r laws show ?thesis by (auto simp: reads intro!: agrees_missing)
  next
    case inc
    with r laws show ?thesis by (auto simp: reads intro!: agrees_insufficient)
  next
    case bal
    with r laws show ?thesis by (auto simp: reads intro!: agrees_insufficient)
  next
    case lat
    with r laws show ?thesis by (auto simp: reads intro!: agrees_insufficient)
  next
    case ok
    with r laws analytics_compute_total [of is' bs nsym p] show ?thesis by (auto simp: reads agrees_def)
  qed
qed

lemma technical_read_agrees:
  assumes st: "q_store s = st" and r: "technical_read s nsym w = (r, w')"
  shows "view w' = view w \<and> agrees r (technical_of w nsym)"
proof -
  obtain rc w1 where 1: "qs_GetCompany st nsym w = (rc, w1)" by force
  obtain rh w2 where 2: "qs_GetPriceHistory st nsym 0 w1 = (rh, w2)" by force
  note laws = company [OF 1] history [OF 2]
  note reads = st 1 2 technical_read_def technical_spec_def
  consider (co) e where "rc = Inl e" | (his) c e where "rc = Inr c" "rh = Inl e"
    | (ok) c ps where "rc = Inr c" "rh = Inr ps" by (metis obj_sumE)
  then show ?thesis
  proof cases
    case co
    with r laws show ?thesis by (auto simp: reads intro!: agrees_missing)
  next
    case his
    with r laws show ?thesis by (auto simp: reads intro!: agrees_insufficient)
  next
    case ok
    with r laws technical_compute_total [of ps nsym] show ?thesis by (auto simp: reads agrees_def)
  qed
qed

end

section \<open>Coherence of the read-through cache\<close>

text \<open>
  The store and the cache live in one world and do not touch each other; the codec decodes what it
  encodes, for results of valid symbols. The cache is coherent when every entry that decodes is the specified result.
\<close>

locale cached_query = query_contract st view companies prices incomes balances + cache_contract c entries
  for st :: "'w QueryStore" and view :: "'w \<Rightarrow> 'v" and companies prices incomes balances
    and c :: "'w Cache" and entries +
  fixes aj :: "AnalyticsResult Codec" and tj :: "TechnicalResult Codec"
  assumes aj_roundtrip: "IsValidSymbol (ar_Symbol x) \<Longrightarrow> Marshal aj x = Inr d \<Longrightarrow> Unmarshal aj d = Inr x"
    and tj_roundtrip: "IsValidSymbol (tr_Symbol y) \<Longrightarrow> Marshal tj y = Inr d \<Longrightarrow> Unmarshal tj d = Inr y"
    and get_view: "cache_Get c k w = (rg, w') \<Longrightarrow> view w' = view w"
    and set_view: "cache_Set c k d w = (ru, w') \<Longrightarrow> view w' = view w"
    and store_entries: "qs_GetCompany st s w = (rc, w') \<Longrightarrow> entries w' \<subseteq>\<^sub>m entries w"
      "qs_GetPriceHistory st s n w = (rh, w') \<Longrightarrow> entries w' \<subseteq>\<^sub>m entries w"
      "qs_GetLatestPrice st s w = (rl, w') \<Longrightarrow> entries w' \<subseteq>\<^sub>m entries w"
      "qs_GetIncomeStatements st s p w = (ri, w') \<Longrightarrow> entries w' \<subseteq>\<^sub>m entries w"
      "qs_GetBalanceSheets st s p w = (rb, w') \<Longrightarrow> entries w' \<subseteq>\<^sub>m entries w"
begin

definition coherent :: "'w \<Rightarrow> bool" where
  "coherent w \<longleftrightarrow>
     (\<forall>nsym d x. entries w (''analytics:'' @ nsym) = Some d \<longrightarrow> Unmarshal aj d = Inr x \<longrightarrow> analytics_of w nsym = Ok x) \<and>
     (\<forall>nsym d x. entries w (''technical:'' @ nsym) = Some d \<longrightarrow> Unmarshal tj d = Inr x \<longrightarrow> technical_of w nsym = Ok x)"

lemma coherentI:
  assumes "\<And>nsym d x. entries w (''analytics:'' @ nsym) = Some d \<Longrightarrow> Unmarshal aj d = Inr x \<Longrightarrow> analytics_of w nsym = Ok x"
    and "\<And>nsym d x. entries w (''technical:'' @ nsym) = Some d \<Longrightarrow> Unmarshal tj d = Inr x \<Longrightarrow> technical_of w nsym = Ok x"
  shows "coherent w"
  using assms unfolding coherent_def by blast

lemma coherentD:
  assumes "coherent w"
  shows "entries w (''analytics:'' @ nsym) = Some d \<Longrightarrow> Unmarshal aj d = Inr x \<Longrightarrow> analytics_of w nsym = Ok x"
    and "entries w (''technical:'' @ nsym) = Some d \<Longrightarrow> Unmarshal tj d = Inr y \<Longrightarrow> technical_of w nsym = Ok y"
  using assms unfolding coherent_def by blast+

lemma coherent_sub:
  assumes "coherent w" "view w' = view w" "entries w' \<subseteq>\<^sub>m entries w"
  shows "coherent w'"
  using assms coherentD [OF assms(1)] map_le_Some [OF assms(3)] by (intro coherentI) auto

lemma coherent_set:
  assumes w: "coherent w" "view w' = view w" and sub: "entries w' \<subseteq>\<^sub>m (entries w)(k \<mapsto> d) \<or> entries w' \<subseteq>\<^sub>m entries w"
    and k: "k = ''analytics:'' @ nsym \<and> (\<forall>x. Unmarshal aj d = Inr x \<longrightarrow> analytics_of w nsym = Ok x) \<or>
      k = ''technical:'' @ nsym \<and> (\<forall>x. Unmarshal tj d = Inr x \<longrightarrow> technical_of w nsym = Ok x)"
  shows "coherent w'"
proof (rule coherentI)
  have e: "entries w' j = Some d' \<Longrightarrow> entries w j = Some d' \<or> j = k \<and> d' = d" for j d'
    using sub by (auto dest!: map_le_Some split: if_splits)
  have [simp]: "(''technical:'' @ a) \<noteq> ''analytics:'' @ b" for a b by simp
  show "analytics_of w' n = Ok x" if "entries w' (''analytics:'' @ n) = Some d'" "Unmarshal aj d' = Inr x" for n d' x
    using e [OF that(1)] coherentD(1) [OF w(1), of n d' x] that(2) k w(2) by auto
  show "technical_of w' n = Ok x" if "entries w' (''technical:'' @ n) = Some d'" "Unmarshal tj d' = Inr x" for n d' x
    using e [OF that(1)] coherentD(2) [OF w(1), of n d' x] that(2) k w(2) by auto
qed

lemma analytics_read_entries:
  assumes st: "q_store s = st" and r: "analytics_read s nsym w = (r, w')"
  shows "entries w' \<subseteq>\<^sub>m entries w"
  using r unfolding analytics_read_def st
  by (auto split: prod.splits sum.splits dest!: store_entries intro: map_le_trans)

lemma technical_read_entries:
  assumes st: "q_store s = st" and r: "technical_read s nsym w = (r, w')"
  shows "entries w' \<subseteq>\<^sub>m entries w"
  using r unfolding technical_read_def st
  by (auto split: prod.splits sum.splits dest!: store_entries intro: map_le_trans)

lemma cachedResult_laws:
  assumes "cachedResult json c k w = (hit, w')"
  shows "view w' = view w \<and> entries w' \<subseteq>\<^sub>m entries w \<and>
    (\<forall>x. hit = Some x \<longrightarrow> (\<exists>d. entries w k = Some d \<and> Unmarshal json d = Inr x))"
proof -
  obtain r w1 where 1: "cache_Get c k w = (r, w1)" by force
  with assms get_view [OF 1] get_sub [OF 1] get_hit show ?thesis
    by (auto simp: cachedResult_def split: sum.splits if_splits)
qed

lemma storeResult_laws:
  assumes "Marshal json x = Inr d"
  shows "view (storeResult json c k x w) = view w \<and>
    (entries (storeResult json c k x w) \<subseteq>\<^sub>m (entries w)(k \<mapsto> d) \<or> entries (storeResult json c k x w) \<subseteq>\<^sub>m entries w)"
proof -
  obtain r w1 where 1: "cache_Set c k d w = (r, w1)" by force
  with assms set_view [OF 1] set_sub [OF 1] show ?thesis by (simp add: storeResult_def)
qed

text \<open>The read-through frame, for a computation that agrees with a specification.\<close>

lemma read_through_agrees:
  assumes w: "coherent w" and ch: "cache \<in> {None, Some c}"
    and r: "read_through json cache k compute w = (r, w')"
    and hit: "\<And>d x. entries w k = Some d \<Longrightarrow> Unmarshal json d = Inr x \<Longrightarrow> spec (view w) = Ok x"
    and comp: "\<And>w1 q w2. compute w1 = (q, w2) \<Longrightarrow> view w2 = view w1 \<and> entries w2 \<subseteq>\<^sub>m entries w1 \<and> agrees q (spec (view w1))"
    and kept: "\<And>w1 w2 d x. coherent w1 \<Longrightarrow> view w2 = view w1 \<Longrightarrow>
      entries w2 \<subseteq>\<^sub>m (entries w1)(k \<mapsto> d) \<or> entries w2 \<subseteq>\<^sub>m entries w1 \<Longrightarrow>
      Marshal json x = Inr d \<Longrightarrow> spec (view w1) = Ok x \<Longrightarrow> coherent w2"
  shows "coherent w' \<and> view w' = view w \<and> agrees r (spec (view w))"
proof -
  obtain h w1 where 1: "(case cache of None \<Rightarrow> (None, w) | Some c \<Rightarrow> cachedResult json c k w) = (h, w1)" by force
  have l1: "view w1 = view w" "entries w1 \<subseteq>\<^sub>m entries w"
    and h: "\<And>x. h = Some x \<Longrightarrow> \<exists>d. entries w k = Some d \<and> Unmarshal json d = Inr x"
    using 1 ch cachedResult_laws [of json k w h w1] by (auto split: option.splits)
  have c1: "coherent w1" using coherent_sub w l1 by blast
  show ?thesis
  proof (cases h)
    case (Some x)
    with r 1 have "r = Ok x" "w' = w1" by (auto simp: read_through_def)
    with h [OF Some] hit c1 l1 show ?thesis by (auto simp: agrees_def)
  next
    case None
    obtain q w2 where 2: "compute w1 = (q, w2)" by force
    from comp [OF 2] l1 c1 have c2: "coherent w2" and v2: "view w2 = view w" and a2: "agrees q (spec (view w))"
      using coherent_sub [of w1 w2] by auto
    show ?thesis
    proof (cases "\<exists>x c d. q = Ok x \<and> cache = Some c \<and> Marshal json x = Inr d")
      case True
      then obtain x d where x: "q = Ok x" "cache = Some c" "Marshal json x = Inr d" using ch by auto
      with r 1 None 2 have "r = q" "w' = storeResult json c k x w2" by (auto simp: read_through_def)
      with kept [OF c2 _ _ x(3)] storeResult_laws [OF x(3)] a2 v2 x(1) show ?thesis
        by (auto simp: agrees_def)
    next
      case False
      with r 1 None 2 have "r = q" "w' = w2"
        by (auto simp: read_through_def storeResult_def split: outcome.splits option.splits sum.splits)
      with c2 v2 a2 show ?thesis by simp
    qed
  qed
qed

lemma GetAnalytics_agrees:
  assumes s: "q_store s = st" "q_cache s \<in> {None, Some c}" and w: "coherent w"
    and nsym: "normalizeSymbol symbol = Inr nsym" and r: "GetAnalytics aj s symbol w = (r, w')"
  shows "coherent w' \<and> view w' = view w \<and> agrees r (analytics_of w nsym)"
proof -
  have valid: "IsValidSymbol nsym" using nsym by (metis normalizeSymbol_Inr)
  show ?thesis
  proof (rule read_through_agrees [OF w s(2), where k = "''analytics:'' @ nsym" and compute = "analytics_read s nsym"
      and json = aj and spec = "\<lambda>v. analytics_spec nsym (companies v nsym) (incomes v nsym ''annual'')
        (balances v nsym ''annual'') (prices v nsym)"])
  show "read_through aj (q_cache s) (''analytics:'' @ nsym) (analytics_read s nsym) w = (r, w')"
    using r nsym by (simp add: GetAnalytics_def)
  show "coherent w2" if "coherent w1" "view w2 = view w1"
      "entries w2 \<subseteq>\<^sub>m (entries w1)(''analytics:'' @ nsym \<mapsto> d) \<or> entries w2 \<subseteq>\<^sub>m entries w1"
      "Marshal aj x = Inr d" "analytics_of w1 nsym = Ok x" for w1 w2 d x
    by (rule coherent_set [OF that(1,2,3)])
      (use that(5) aj_roundtrip [OF _ that(4)] spec_symbol(1) [OF that(5)] valid in simp)
qed (use coherentD(1) [OF w] analytics_read_agrees [OF s(1)] analytics_read_entries [OF s(1)] in blast)+
qed

lemma GetTechnical_agrees:
  assumes s: "q_store s = st" "q_cache s \<in> {None, Some c}" and w: "coherent w"
    and nsym: "normalizeSymbol symbol = Inr nsym" and r: "GetTechnical tj s symbol w = (r, w')"
  shows "coherent w' \<and> view w' = view w \<and> agrees r (technical_of w nsym)"
proof -
  have valid: "IsValidSymbol nsym" using nsym by (metis normalizeSymbol_Inr)
  show ?thesis
  proof (rule read_through_agrees [OF w s(2), where k = "''technical:'' @ nsym" and compute = "technical_read s nsym"
      and json = tj and spec = "\<lambda>v. technical_spec nsym (companies v nsym) (prices v nsym)"])
  show "read_through tj (q_cache s) (''technical:'' @ nsym) (technical_read s nsym) w = (r, w')"
    using r nsym by (simp add: GetTechnical_def)
  show "coherent w2" if "coherent w1" "view w2 = view w1"
      "entries w2 \<subseteq>\<^sub>m (entries w1)(''technical:'' @ nsym \<mapsto> d) \<or> entries w2 \<subseteq>\<^sub>m entries w1"
      "Marshal tj x = Inr d" "technical_of w1 nsym = Ok x" for w1 w2 d x
    by (rule coherent_set [OF that(1,2,3)])
      (use that(5) tj_roundtrip [OF _ that(4)] spec_symbol(2) [OF that(5)] valid in simp)
qed (use coherentD(2) [OF w] technical_read_agrees [OF s(1)] technical_read_entries [OF s(1)] in blast)+
qed

text \<open>The second loop of \<open>Compare\<close> returns the specified result of every symbol, or fails.\<close>

lemma compare_results_agrees:
  assumes s: "q_store s = st" "q_cache s \<in> {None, Some c}" and w: "coherent w"
    and syms: "\<forall>n \<in> set symbols. IsValidSymbol n" and r: "compare_results aj s symbols out w = (r, w')"
  shows "coherent w' \<and> view w' = view w \<and>
    (case r of
       Ok res \<Rightarrow> \<exists>new. res = out @ new \<and> map (analytics_of w) symbols = map Ok new
     | Err e \<Rightarrow> \<exists>n \<in> set symbols. agrees (Err e) (analytics_of w n)
     | Panic \<Rightarrow> False)"
  using w syms r
proof (induction symbols arbitrary: out w)
  case Nil
  then show ?case by auto
next
  case (Cons n symbols)
  obtain q w1 where 1: "GetAnalytics aj s n w = (q, w1)" by force
  have "normalizeSymbol n = Inr n" using Cons.prems(2) by (simp add: normalizeSymbol_fixed)
  from GetAnalytics_agrees [OF s Cons.prems(1) this 1]
  have w1: "coherent w1" "view w1 = view w" and ag: "agrees q (analytics_of w n)" by auto
  show ?case
  proof (cases q)
    case (Ok x)
    with Cons.prems(3) 1 have rest: "compare_results aj s symbols (out @ [x]) w1 = (r, w')" by simp
    have sx: "analytics_of w n = Ok x" using ag Ok by (simp add: agrees_def)
    have IH: "coherent w' \<and> view w' = view w1 \<and>
      (case r of Ok res \<Rightarrow> \<exists>new. res = (out @ [x]) @ new \<and> map (analytics_of w1) symbols = map Ok new
       | Err e \<Rightarrow> \<exists>n \<in> set symbols. agrees (Err e) (analytics_of w1 n) | Panic \<Rightarrow> False)"
      using Cons.prems(2) by (intro Cons.IH [OF w1(1) _ rest]) simp
    show ?thesis
    proof (cases r)
      case (Ok res)
      with IH w1(2) obtain new where "res = (out @ [x]) @ new" "map (analytics_of w) symbols = map Ok new" by auto
      then have "res = out @ (x # new)" "map (analytics_of w) (n # symbols) = map Ok (x # new)" using sx by auto
      with IH w1(2) Ok show ?thesis by (auto simp del: list.map)
    qed (use IH w1(2) in auto)
  qed (use Cons.prems(3) 1 w1 ag in \<open>auto simp: agrees_def\<close>)
qed

end

section \<open>The first loop of Compare\<close>

lemma compare_symbols_Inr:
  assumes "compare_symbols mx raw symbols seen = Inr out" "seen = set symbols" "distinct symbols"
  shows "\<exists>ns. out = symbols @ ns \<and> map normalizeSymbol raw = map Inr ns \<and> distinct out \<and> (raw \<noteq> [] \<longrightarrow> len out \<le> mx)"
  using assms
proof (induction raw arbitrary: symbols seen)
  case (Cons item raw)
  then obtain n where n: "normalizeSymbol item = Inr n" "len symbols < mx" "n \<notin> seen"
    and rest: "compare_symbols mx raw (symbols @ [n]) (insert n seen) = Inr out"
    by (auto split: sum.splits if_splits)
  have "insert n seen = set (symbols @ [n])" "distinct (symbols @ [n])" using n Cons.prems by auto
  from Cons.IH [OF rest this] obtain ns where ns: "out = (symbols @ [n]) @ ns"
    "map normalizeSymbol raw = map Inr ns" "distinct out" "raw \<noteq> [] \<longrightarrow> len out \<le> mx" by auto
  have "len out \<le> mx"
  proof (cases "raw = []")
    case True
    with ns n(2) show ?thesis by (simp add: len_def)
  qed (use ns in auto)
  with ns n(1) show ?case by (intro exI [of _ "n # ns"]) auto
qed simp

lemma compare_symbols_complete:
  assumes "map normalizeSymbol raw = map Inr ns" "seen = set symbols" "distinct (symbols @ ns)"
    "len (symbols @ ns) \<le> mx"
  shows "compare_symbols mx raw symbols seen = Inr (symbols @ ns)"
  using assms
proof (induction raw arbitrary: symbols seen ns)
  case (Cons item raw)
  then obtain n ns' where ns: "ns = n # ns'" "normalizeSymbol item = Inr n"
    "map normalizeSymbol raw = map Inr ns'" by (cases ns) auto
  have "compare_symbols mx raw (symbols @ [n]) (insert n seen) = Inr ((symbols @ [n]) @ ns')"
    using Cons.prems ns by (intro Cons.IH) auto
  with Cons.prems ns show ?case by (auto simp: len_def)
qed simp

lemma compare_symbols_Inl: "compare_symbols mx raw symbols seen = Inl e \<Longrightarrow> errors_Is e ErrInvalidSymbol"
proof (induction raw arbitrary: symbols seen)
  case (Cons item raw)
  then show ?case using normalizeSymbol_Inl [of item]
    by (auto simp: ErrInvalidSymbol_def split: sum.splits if_splits)
qed simp

text \<open>
  C37. \<open>Compare\<close> accepts exactly the lists it documents. With at least one item, the validation loop
  succeeds if and only if every item normalizes, no two items normalize to the same symbol and
  there are at most \<open>max\<close> of them, and then yields the normalized symbols in order; every rejection
  is \<open>ErrInvalidSymbol\<close>.
\<close>
theorem compare_symbols_exact:
  assumes "raw \<noteq> []"
  shows "(compare_symbols mx raw [] {} = Inr ns \<longleftrightarrow>
      map normalizeSymbol raw = map Inr ns \<and> distinct ns \<and> len ns \<le> mx) \<and>
    (\<forall>e. compare_symbols mx raw [] {} = Inl e \<longrightarrow> errors_Is e ErrInvalidSymbol)"
proof (intro conjI iffI allI impI)
  assume "compare_symbols mx raw [] {} = Inr ns"
  from compare_symbols_Inr [OF this] assms
  show "map normalizeSymbol raw = map Inr ns" "distinct ns" "len ns \<le> mx" by auto
next
  assume "map normalizeSymbol raw = map Inr ns \<and> distinct ns \<and> len ns \<le> mx"
  then show "compare_symbols mx raw [] {} = Inr ns"
    using compare_symbols_complete [of raw ns "{}" "[]" mx] by simp
qed (rule compare_symbols_Inl)

theorem compare_symbols_exact_witness:
  "compare_symbols 10 [''AAPL'', ''MSFT''] [] {} = Inr [''AAPL'', ''MSFT'']"
proof -
  have "IsValidSymbol ''AAPL''" "IsValidSymbol ''MSFT''" by code_simp+
  then have "map normalizeSymbol [''AAPL'', ''MSFT''] = map Inr [''AAPL'', ''MSFT'']" by (simp add: normalizeSymbol_fixed)
  then show ?thesis using compare_symbols_exact [of "[''AAPL'', ''MSFT'']" 10 "[''AAPL'', ''MSFT'']"] by (simp add: len_def)
qed

end
