(* ===== verification/GoFloat.thy ===== *)
theory GoFloat
  imports GoStd Float64
begin

text \<open>
  Text of floating-point numbers, as Go's standard library reads and writes it:
  \<^verbatim>\<open>strconv.ParseFloat\<close>, the shortest decimal that identifies a float64
  (\<^verbatim>\<open>strconv.AppendFloat\<close> with precision -1) and the form \<^verbatim>\<open>encoding/json\<close> gives it.
  Reading what was written gives the number back.
\<close>

section \<open>Reading\<close>

definition lower_char :: "char \<Rightarrow> char" where
  "lower_char c = (if of_char c \<in> {65..90::nat} then byte (of_char c + 32) else c)"

text \<open>The value of a digit in a base up to 16.\<close>

definition base_digit :: "int \<Rightarrow> char \<Rightarrow> int option" where
  "base_digit b c =
     (let n = of_char (lower_char c) :: nat;
          v = (if 48 \<le> n \<and> n \<le> 57 then int n - 48 else if 97 \<le> n \<and> n \<le> 102 then int n - 87 else 16)
      in if v < b then Some v else None)"

fun mantissa :: "int \<Rightarrow> int \<Rightarrow> string \<Rightarrow> int" where
  "mantissa b acc [] = acc"
| "mantissa b acc (c # s) = mantissa b (acc * b + (case base_digit b c of Some v \<Rightarrow> v | None \<Rightarrow> 0)) s"

definition is_digit :: "int \<Rightarrow> char \<Rightarrow> bool" where
  "is_digit b c \<longleftrightarrow> base_digit b c \<noteq> None"

text \<open>The digits of an exponent; the reader stops accumulating at 10000.\<close>

fun exp_digits :: "int \<Rightarrow> string \<Rightarrow> int" where
  "exp_digits acc [] = acc"
| "exp_digits acc (c # s) =
     exp_digits (if acc < 10000 then acc * 10 + (case base_digit 10 c of Some v \<Rightarrow> v | None \<Rightarrow> 0) else acc) s"

definition exponent_value :: "string \<Rightarrow> int option" where
  "exponent_value s =
     (let (neg, t) = (case s of c # t \<Rightarrow> if c = CHR ''-'' then (True, t)
                                        else if c = CHR ''+'' then (False, t) else (False, s)
                      | [] \<Rightarrow> (False, s))
      in if t = [] \<or> \<not> list_all (is_digit 10) t then None
         else Some (if neg then - exp_digits 0 t else exp_digits 0 t))"

text \<open>
  The unsigned number: digits with at most one point, then the exponent. A decimal exponent is optional
  and a power of ten; a hexadecimal one is mandatory and a power of two.
\<close>

definition read_number :: "int \<Rightarrow> char \<Rightarrow> string \<Rightarrow> rat option" where
  "read_number b expc s =
     (let ip = takeWhile (is_digit b) s; r = dropWhile (is_digit b) s;
          (fp, r) = (case r of c # r' \<Rightarrow> if c = CHR ''.'' then (takeWhile (is_digit b) r', dropWhile (is_digit b) r')
                                        else ([], r)
                     | [] \<Rightarrow> ([], r));
          m = of_int (mantissa b 0 (ip @ fp))
      in if ip @ fp = [] then None
         else case r of
           [] \<Rightarrow> if b = 10 then Some (m * 10 powi (- len fp)) else None
         | c # e \<Rightarrow>
             if lower_char c \<noteq> expc then None
             else case exponent_value e of
               None \<Rightarrow> None
             | Some x \<Rightarrow> Some (if b = 10 then m * 10 powi (x - len fp) else m * 2 powi (x - 4 * len fp)))"

definition read_unsigned :: "string \<Rightarrow> rat option" where
  "read_unsigned t =
     (case t of
        z # x # u \<Rightarrow> if z = CHR ''0'' \<and> lower_char x = CHR ''x'' then read_number 16 (CHR ''p'') u
                    else read_number 10 (CHR ''e'') t
      | _ \<Rightarrow> read_number 10 (CHR ''e'') t)"

text \<open>\<^verbatim>\<open>underscoreOK\<close>: an underscore stands between digits, or between a base prefix and a digit.\<close>

fun underscores :: "bool \<Rightarrow> char \<Rightarrow> string \<Rightarrow> bool" where
  "underscores hex prev [] = (prev \<noteq> CHR ''_'')"
| "underscores hex prev (c # s) =
     (if is_digit (if hex then 16 else 10) c then underscores hex (CHR ''0'') s
      else if c = CHR ''_'' then prev = CHR ''0'' \<and> underscores hex c s
      else prev \<noteq> CHR ''_'' \<and> underscores hex (CHR ''!'') s)"

definition underscoreOK :: "string \<Rightarrow> bool" where
  "underscoreOK s =
     (let s = (case s of c # t \<Rightarrow> if c = CHR ''-'' \<or> c = CHR ''+'' then t else s | [] \<Rightarrow> s)
      in case s of
        z # x # t \<Rightarrow>
          if z = CHR ''0'' \<and> lower_char x \<in> {CHR ''b'', CHR ''o'', CHR ''x''}
          then underscores (lower_char x = CHR ''x'') (CHR ''0'') t
          else underscores False (CHR ''^'') s
      | _ \<Rightarrow> underscores False (CHR ''^'') s)"

text \<open>
  \<^verbatim>\<open>strconv.ParseFloat(s, 64)\<close>. \<^const>\<open>None\<close> stands for either of its errors, syntax and range, which no
  caller tells apart; a value too large to represent is a range error, a value too small is zero.
\<close>

definition ParseFloat :: "string \<Rightarrow> float64 option" where
  "ParseFloat s =
     (let (neg, t) = (case s of c # t \<Rightarrow> if c = CHR ''-'' then (True, t)
                                        else if c = CHR ''+'' then (False, t) else (False, s)
                      | [] \<Rightarrow> (False, s));
          low = map lower_char t
      in if low = ''inf'' \<or> low = ''infinity'' then Some (Inf neg)
         else if t = s \<and> low = ''nan'' then Some NaN
         else if CHR ''_'' \<in> set s \<and> \<not> underscoreOK s then None
         else
           case read_unsigned (filter (\<lambda>c. c \<noteq> CHR ''_'') t) of
             None \<Rightarrow> None
           | Some q \<Rightarrow> (case rnd neg q of Fin neg m \<Rightarrow> Some (Fin neg m) | _ \<Rightarrow> None))"

section \<open>Writing\<close>

text \<open>
  The decimal exponent of a positive magnitude: \<open>10 ^ (dp - 1) \<le> m < 10 ^ dp\<close>.
\<close>

definition dec_point :: "rat \<Rightarrow> int" where
  "dec_point m =
     (if 1 \<le> m then len (show_nat (nat \<lfloor>m\<rfloor>)) else 1 - len (show_nat (nat (\<lceil>1 / m\<rceil> - 1))))"

text \<open>
  Candidates with \<open>n\<close> significant digits: the neighbours of \<open>m\<close> among the multiples of \<open>10 ^ x\<close>. A
  candidate identifies \<open>m\<close> when it rounds to it; of two, the nearer one is taken, at equal distance
  the even one.
\<close>

definition digits_at :: "rat \<Rightarrow> int \<Rightarrow> int option" where
  "digits_at m x =
     (let lo = \<lfloor>m / 10 powi x\<rfloor>; hi = lo + 1;
          okLo = (0 < lo \<and> rmag (of_int lo * 10 powi x) = m);
          okHi = (rmag (of_int hi * 10 powi x) = m);
          d = m / 10 powi x - of_int lo
      in if okLo \<and> okHi then Some (if d < 1/2 \<or> d = 1/2 \<and> even lo then lo else hi)
         else if okLo then Some lo
         else if okHi then Some hi
         else None)"

text \<open>
  The search over the number of digits, from one up. Seventeen digits always identify a float64; the
  exact expansion, which every binary fraction has, ends the search in any case.
\<close>

fun shortest_from :: "nat \<Rightarrow> nat \<Rightarrow> rat \<Rightarrow> int \<times> int" where
  "shortest_from 0 n m = (let k = - ulp_exp m in (\<lfloor>m * 10 powi (max 0 k)\<rfloor>, - max 0 k))"
| "shortest_from (Suc fuel) n m =
     (let x = dec_point m - int n
      in case digits_at m x of Some d \<Rightarrow> (d, x) | None \<Rightarrow> shortest_from fuel (n + 1) m)"

definition shortest :: "rat \<Rightarrow> int \<times> int" where
  "shortest m = shortest_from 17 1 m"

text \<open>Trailing zeros move into the exponent.\<close>

function trim_zeros :: "int \<times> int \<Rightarrow> int \<times> int" where
  "trim_zeros (d, x) = (if 0 < d \<and> d mod 10 = 0 then trim_zeros (d div 10, x + 1) else (d, x))"
  by pat_completeness auto
termination by (relation "measure (nat \<circ> fst)") auto

declare trim_zeros.simps [simp del]

text \<open>Formats \<^verbatim>\<open>f\<close> and \<^verbatim>\<open>e\<close> of the digits \<open>ds\<close> with the decimal point after \<open>dp\<close> of them.\<close>

definition format_f :: "string \<Rightarrow> int \<Rightarrow> string" where
  "format_f ds dp =
     (if dp \<le> 0 then ''0.'' @ replicate (nat (- dp)) (CHR ''0'') @ ds
      else if len ds \<le> dp then ds @ replicate (nat (dp - len ds)) (CHR ''0'')
      else take (nat dp) ds @ ''.'' @ drop (nat dp) ds)"

definition format_e :: "string \<Rightarrow> int \<Rightarrow> string" where
  "format_e ds dp =
     take 1 ds @ (if len ds = 1 then [] else ''.'' @ drop 1 ds) @ ''e'' @
       (if dp - 1 < 0 then ''-'' @ show_int (1 - dp) else ''+'' @ show_int (dp - 1))"

text \<open>
  The form of \<^verbatim>\<open>encoding/json\<close>: format \<^verbatim>\<open>f\<close> between 1e-6 and 1e21, otherwise \<^verbatim>\<open>e\<close> with its exponent
  cleaned of a leading zero; infinities and NaN are not JSON values, and a magnitude that no float64 has
  is no value of the program at all.
\<close>

definition float_digits :: "rat \<Rightarrow> string" where
  "float_digits m =
     (if m = 0 then ''0''
      else
        let (d, x) = trim_zeros (shortest m);
            ds = show_int d;
            dp = len ds + x
        in if m < rmag (1 / 10 ^ 6) \<or> rmag (10 ^ 21) \<le> m then format_e ds dp else format_f ds dp)"

fun json_float :: "float64 \<Rightarrow> string option" where
  "json_float (Fin s m) = (if wf64 (Fin s m) then Some ((if s then ''-'' else []) @ float_digits m) else None)"
| "json_float _ = None"

section \<open>What is written reads back\<close>

lemma base_digit_char [simp]: "d < 10 \<Longrightarrow> base_digit 10 (digit_char d) = Some (int d)"
  by (auto simp: base_digit_def digit_char_def lower_char_def Let_def)

lemma is_digit_digit_val: "digit_val c \<noteq> None \<Longrightarrow> base_digit 10 c = digit_val c"
  by (auto simp: digit_val_def base_digit_def lower_char_def Let_def split: if_splits)

lemma mantissa_append: "mantissa b a (s @ t) = mantissa b (mantissa b a s) t"
  by (induction s arbitrary: a) auto

lemma mantissa_zeros: "mantissa 10 a (replicate k (CHR ''0'')) = a * 10 ^ k"
proof (induction k arbitrary: a)
  case (Suc k)
  have "base_digit 10 (CHR ''0'') = Some 0" by (simp add: base_digit_def lower_char_def)
  with Suc show ?case by simp
qed simp

lemma mantissa_digits: "digits_val a s = Some n \<Longrightarrow> mantissa 10 a s = n"
proof (induction s arbitrary: a)
  case (Cons c s)
  from Cons.prems obtain v where v: "digit_val c = Some v" "digits_val (a * 10 + v) s = Some n"
    by (auto split: option.splits)
  then have "base_digit 10 c = Some v" using is_digit_digit_val [of c] by simp
  with Cons.IH [OF v(2)] show ?case by simp
qed simp

lemma mantissa_show_nat [simp]: "mantissa 10 0 (show_nat n) = int n"
  by (rule mantissa_digits) (rule digits_val_show_nat)

lemma show_nat_is_digit: "c \<in> set (show_nat n) \<Longrightarrow> is_digit 10 c"
  using show_nat_digits [of c n] is_digit_digit_val [of c] by (simp add: is_digit_def)

lemma mantissa_ge: "0 \<le> a \<Longrightarrow> a \<le> mantissa 10 a s"
proof (induction s arbitrary: a)
  case (Cons c s)
  have "0 \<le> (case base_digit 10 c of Some v \<Rightarrow> v | None \<Rightarrow> 0)"
    by (auto simp: base_digit_def Let_def split: option.splits if_splits)
  with Cons.IH [of "a * 10 + (case base_digit 10 c of Some v \<Rightarrow> v | None \<Rightarrow> 0)"] Cons.prems show ?case by simp
qed simp

lemma exp_digits_mantissa: "0 \<le> a \<Longrightarrow> mantissa 10 a s < 10000 \<Longrightarrow> exp_digits a s = mantissa 10 a s"
proof (induction s arbitrary: a)
  case (Cons c s)
  let ?v = "case base_digit 10 c of Some v \<Rightarrow> v | None \<Rightarrow> 0"
  have v: "0 \<le> ?v" by (auto simp: base_digit_def Let_def split: option.splits if_splits)
  have "a < 10000" using mantissa_ge [of "a * 10 + ?v" s] Cons.prems v by simp
  with Cons.IH [of "a * 10 + ?v"] Cons.prems v show ?case by simp
qed simp

lemma exponent_value_show:
  "n < 10000 \<Longrightarrow> exponent_value (CHR ''-'' # show_nat n) = Some (- int n)"
  "n < 10000 \<Longrightarrow> exponent_value (CHR ''+'' # show_nat n) = Some (int n)"
  using show_nat_is_digit [of _ n] exp_digits_mantissa [of 0 "show_nat n"]
  by (auto simp: exponent_value_def list_all_iff)

text \<open>The characters of a written number, and what they exclude.\<close>

definition num_char :: "char \<Rightarrow> bool" where
  "num_char c \<longleftrightarrow> is_digit 10 c \<or> c \<in> {CHR ''.'', CHR ''e'', CHR ''+'', CHR ''-''}"

lemma is_digit10_iff: "is_digit 10 c \<longleftrightarrow> (48::nat) \<le> of_char c \<and> of_char c \<le> (57::nat)"
proof -
  have "of_char (lower_char c) = (if of_char c \<in> {65..90::nat} then of_char c + 32 else of_char c :: nat)"
    by (auto simp: lower_char_def)
  then show ?thesis by (auto simp: is_digit_def base_digit_def Let_def)
qed

lemma num_char_iff: "num_char c \<longleftrightarrow> (48::nat) \<le> of_char c \<and> of_char c \<le> (57::nat) \<or>
    of_char c \<in> {46, 101, 43, 45::nat}"
proof -
  have "c = CHR ''.'' \<longleftrightarrow> of_char c = (46::nat)" "c = CHR ''e'' \<longleftrightarrow> of_char c = (101::nat)"
    "c = CHR ''+'' \<longleftrightarrow> of_char c = (43::nat)" "c = CHR ''-'' \<longleftrightarrow> of_char c = (45::nat)"
    by (auto intro: of_char_eqI [where ?'a = nat])
  then show ?thesis unfolding num_char_def is_digit10_iff by auto
qed

lemma takeWhile_digits:
  assumes "list_all (is_digit 10) s" "\<not> (\<exists>c t'. t = c # t' \<and> is_digit 10 c)"
  shows "takeWhile (is_digit 10) (s @ t) = s" "dropWhile (is_digit 10) (s @ t) = t"
proof -
  have "takeWhile (is_digit 10) t = []" "dropWhile (is_digit 10) t = t" using assms(2) by (cases t; simp)+
  moreover have "\<And>c. c \<in> set s \<Longrightarrow> is_digit 10 c" using assms(1) by (simp add: list_all_iff)
  ultimately show "takeWhile (is_digit 10) (s @ t) = s" "dropWhile (is_digit 10) (s @ t) = t"
    by (simp_all add: takeWhile_append2 dropWhile_append2)
qed

lemma digit_specials [simp]: "\<not> is_digit 10 (CHR ''.'')" "\<not> is_digit 10 (CHR ''e'')" "is_digit 10 (CHR ''0'')"
  "lower_char (CHR ''e'') = CHR ''e''"
  by (simp_all add: is_digit10_iff lower_char_def)

lemma read_format_f:
  assumes "list_all (is_digit 10) ds" "ds \<noteq> []"
  shows "read_number 10 (CHR ''e'') (format_f ds dp) = Some (of_int (mantissa 10 0 ds) * 10 powi (dp - len ds))"
proof -
  have z: "list_all (is_digit 10) (replicate k (CHR ''0''))" for k
    by (induction k) auto
  consider (small) "dp \<le> 0" | (large) "0 < dp" "len ds \<le> dp" | (mid) "0 < dp" "dp < len ds" by linarith
  then show ?thesis
  proof cases
    case small
    let ?z = "replicate (nat (- dp)) (CHR ''0'')"
    have f: "format_f ds dp = ''0'' @ (CHR ''.'' # ?z @ ds)" using small by (simp add: format_f_def)
    have a: "takeWhile (is_digit 10) (format_f ds dp) = ''0''"
        "dropWhile (is_digit 10) (format_f ds dp) = CHR ''.'' # ?z @ ds"
      unfolding f by (rule takeWhile_digits; simp)+
    have b: "takeWhile (is_digit 10) (?z @ ds) = ?z @ ds" "dropWhile (is_digit 10) (?z @ ds) = []"
      using takeWhile_digits [of "?z @ ds" "[]"] assms(1) z by simp_all
    have "mantissa 10 0 (''0'' @ ?z @ ds) = mantissa 10 0 ds"
      using mantissa_zeros [of 0 1] by (simp add: mantissa_append mantissa_zeros)
    moreover have "len (?z @ ds) = len ds - dp" using small by (simp add: len_def)
    ultimately show ?thesis unfolding read_number_def a by (simp add: b)
  next
    case large
    let ?z = "replicate (nat (dp - len ds)) (CHR ''0'')"
    have f: "format_f ds dp = (ds @ ?z) @ []" using large by (simp add: format_f_def)
    have a: "takeWhile (is_digit 10) (format_f ds dp) = ds @ ?z" "dropWhile (is_digit 10) (format_f ds dp) = []"
      unfolding f by (rule takeWhile_digits; use assms(1) z in simp)+
    have "rat_of_int (mantissa 10 0 (ds @ ?z)) = of_int (mantissa 10 0 ds) * 10 powi (dp - len ds)"
      using large by (simp add: mantissa_append mantissa_zeros power_int_def)
    then show ?thesis unfolding read_number_def a using assms(2) by (simp add: len_def)
  next
    case mid
    let ?a = "take (nat dp) ds" and ?b = "drop (nat dp) ds"
    have f: "format_f ds dp = ?a @ (CHR ''.'' # ?b)" using mid by (simp add: format_f_def)
    have ab: "list_all (is_digit 10) ?a" "list_all (is_digit 10) ?b"
      using assms(1) by (auto simp: list_all_iff dest: in_set_takeD in_set_dropD)
    have a: "takeWhile (is_digit 10) (format_f ds dp) = ?a" "dropWhile (is_digit 10) (format_f ds dp) = CHR ''.'' # ?b"
      unfolding f by (rule takeWhile_digits; use ab(1) in simp)+
    have b: "takeWhile (is_digit 10) ?b = ?b" "dropWhile (is_digit 10) ?b = []"
      using takeWhile_digits [of ?b "[]"] ab(2) by simp_all
    have "len ?b = len ds - dp" using mid by (simp add: len_def)
    then show ?thesis unfolding read_number_def a using assms(2) mid by (simp add: b Let_def)
  qed
qed

lemma read_format_e:
  assumes "list_all (is_digit 10) ds" "ds \<noteq> []" "\<bar>dp - 1\<bar> < 10000"
  shows "read_number 10 (CHR ''e'') (format_e ds dp) = Some (of_int (mantissa 10 0 ds) * 10 powi (dp - len ds))"
proof -
  obtain c t where ds: "ds = c # t" using assms(2) by (cases ds) auto
  have c: "is_digit 10 c" "list_all (is_digit 10) t" using assms(1) ds by simp_all
  define e where "e = (if dp - 1 < 0 then ''-'' @ show_int (1 - dp) else ''+'' @ show_int (dp - 1))"
  have ev: "exponent_value e = Some (dp - 1)"
    using exponent_value_show [of "nat (1 - dp)"] exponent_value_show [of "nat (dp - 1)"] assms(3)
    by (auto simp: e_def show_int_def)
  show ?thesis
  proof (cases "t = []")
    case True
    have f: "format_e ds dp = [c] @ (CHR ''e'' # e)" using ds True by (simp add: format_e_def e_def len_def)
    have a: "takeWhile (is_digit 10) (format_e ds dp) = [c]" "dropWhile (is_digit 10) (format_e ds dp) = CHR ''e'' # e"
      unfolding f by (rule takeWhile_digits; use c in simp)+
    show ?thesis unfolding read_number_def a using ev ds True by (simp add: len_def)
  next
    case False
    have f: "format_e ds dp = [c] @ (CHR ''.'' # t @ CHR ''e'' # e)"
      using ds False by (simp add: format_e_def e_def len_def)
    have a: "takeWhile (is_digit 10) (format_e ds dp) = [c]"
        "dropWhile (is_digit 10) (format_e ds dp) = CHR ''.'' # t @ CHR ''e'' # e"
      unfolding f by (rule takeWhile_digits; use c in simp)+
    have b: "takeWhile (is_digit 10) (t @ CHR ''e'' # e) = t" "dropWhile (is_digit 10) (t @ CHR ''e'' # e) = CHR ''e'' # e"
      by (rule takeWhile_digits; use c in simp)+
    show ?thesis unfolding read_number_def a using ev ds False by (simp add: b len_def diff_diff_eq)
  qed
qed

text \<open>The digits found identify the number.\<close>

lemma digits_at_Some:
  assumes "digits_at m x = Some d" "0 < m"
  shows "0 < d \<and> rmag (of_int d * 10 powi x) = m"
proof -
  define lo where "lo = \<lfloor>m / 10 powi x\<rfloor>"
  have "0 \<le> lo" unfolding lo_def using assms(2) by simp
  then show ?thesis using assms(1) unfolding digits_at_def Let_def lo_def [symmetric] by (auto split: if_splits)
qed

lemma exact_digits:
  assumes "0 < m" "rmag m = m"
  shows "of_int \<lfloor>m * 10 powi (max 0 (- ulp_exp m))\<rfloor> * 10 powi (- max 0 (- ulp_exp m)) = m"
proof -
  define n where "n = rne (m / 2 powi ulp_exp m)"
  define k where "k = nat (max 0 (- ulp_exp m))"
  have m: "m = of_int n * 2 powi ulp_exp m" using assms(2) unfolding rmag_def n_def by simp
  have k: "max 0 (- ulp_exp m) = int k" by (simp add: k_def)
  have "\<exists>z. m * 10 ^ k = of_int z"
  proof (cases "0 \<le> ulp_exp m")
    case True
    then have "m * 10 ^ k = of_int (n * 2 ^ nat (ulp_exp m) * 10 ^ k)"
      by (subst m) (simp add: pow2_nat)
    then show ?thesis by blast
  next
    case False
    then have "ulp_exp m = - int k" by (simp add: k_def)
    then have "m = of_int n / 2 ^ k" using m by (simp add: power_int_minus divide_inverse)
    moreover have "(10::rat) ^ k = 2 ^ k * 5 ^ k" by (simp flip: power_mult_distrib)
    ultimately have "m * 10 ^ k = of_int (n * 5 ^ k)" by simp
    then show ?thesis by blast
  qed
  then obtain z where z: "m * 10 ^ k = of_int z" by blast
  have e: "of_int \<lfloor>m * 10 ^ k\<rfloor> = m * 10 ^ k" unfolding z by simp
  show ?thesis unfolding k power_int_minus power_int_of_nat e by simp
qed

lemma shortest_from_identifies:
  "0 < m \<Longrightarrow> rmag m = m \<Longrightarrow> shortest_from fuel n m = (d, x) \<Longrightarrow> 0 < d \<and> rmag (of_int d * 10 powi x) = m"
proof (induction fuel arbitrary: n)
  case 0
  let ?k = "max 0 (- ulp_exp m)"
  have dx: "d = \<lfloor>m * 10 powi ?k\<rfloor>" "x = - ?k" using 0(3) by (auto simp: Let_def)
  have e: "of_int d * 10 powi x = m" unfolding dx by (rule exact_digits [OF 0(1,2)])
  have "0 < of_int d * (10::rat) powi x" using e 0(1) by simp
  moreover have "0 < (10::rat) powi x" by simp
  ultimately have "0 < d" by (simp add: zero_less_mult_iff)
  with e 0(2) show ?case by simp
next
  case (Suc fuel)
  then show ?case using digits_at_Some [of m "dec_point m - int n" d]
    by (auto simp: Let_def split: option.splits)
qed

lemma trim_zeros_value:
  "trim_zeros (d, x) = (d', x') \<Longrightarrow> 0 < d \<Longrightarrow> 0 < d' \<and> of_int d' * (10::rat) powi x' = of_int d * 10 powi x"
proof (induction "(d, x)" arbitrary: d x rule: trim_zeros.induct)
  case (1 d x)
  show ?case
  proof (cases "d mod 10 = 0")
    case True
    then have d: "d = d div 10 * 10" by presburger
    then have p: "0 < d div 10" using 1(3) by linarith
    have "trim_zeros (d div 10, x + 1) = (d', x')" using 1(2,3) True by (subst (asm) trim_zeros.simps) simp
    with 1(1) [OF _ this p] 1(3) True
    have "0 < d'" "of_int d' * (10::rat) powi x' = of_int (d div 10) * 10 powi (x + 1)" by auto
    moreover have "of_int (d div 10) * (10::rat) powi (x + 1) = of_int d * 10 powi x"
      by (subst (2) d) (simp add: power_int_add)
    ultimately show ?thesis by simp
  qed (use 1(2,3) in \<open>auto simp: trim_zeros.simps\<close>)
qed

text \<open>The decimal exponent of a number that identifies a float64 is moderate.\<close>

lemma rmag_pos_bound:
  assumes "0 < rmag q" "0 < q"
  shows "2 powi (-1075) \<le> q"
proof (rule ccontr)
  assume "\<not> 2 powi (-1075) \<le> q"
  then have q: "q < 2 powi (-1075)" by simp
  have "2 powi flog2 q \<le> q" using flog2_bounds(1) [OF assms(2)] .
  with q have "flog2 q < -1075" using pow2_less_imp [of "flog2 q" "-1075"] by linarith
  then have u: "ulp_exp q = -1074" by (simp add: ulp_exp_def)
  have "q / 2 powi (-1074) < 2 powi (-1075) / 2 powi (-1074)" using q by (intro divide_strict_right_mono) auto
  also have "(2::rat) powi (-1075) / 2 powi (-1074) = 1 / 2" by (simp flip: power_int_diff) 
  finally have "q / 2 powi (-1074) < 1 / 2" .
  moreover have "0 \<le> q / 2 powi (-1074)" using assms(2) by simp
  ultimately have "\<lfloor>q / 2 powi (-1074)\<rfloor> = 0" "q / 2 powi (-1074) < 1 / 2" by linarith+
  then have "rne (q / 2 powi (-1074)) = 0" by (simp add: rne_def)
  then have "rmag q = 0" by (simp add: rmag_def u)
  with assms(1) show False by simp
qed

lemma show_nat_length: "0 < n \<Longrightarrow> 10 ^ (length (show_nat n) - 1) \<le> n \<and> n < 10 ^ length (show_nat n)"
proof (induction n rule: show_nat.induct)
  case (1 n)
  show ?case
  proof (cases "n < 10")
    case False
    define k where "k = length (show_nat (n div 10))"
    have k: "10 ^ (k - 1) \<le> n div 10" "n div 10 < 10 ^ k" "0 < k" using 1(1) False by (auto simp: k_def)
    have l: "length (show_nat n) = Suc k" using False by (subst show_nat.simps) (simp add: k_def)
    have "10 ^ k = 10 * (10::nat) ^ (k - 1)" using k(3) by (cases k) auto
    with k have "10 ^ k \<le> n" "n < 10 * 10 ^ k" by linarith+
    then show ?thesis unfolding l by simp
  qed (use 1(2) in \<open>simp add: show_nat.simps\<close>)
qed

lemma pow10_bounds:
  assumes "0 < m" "m < max64" "rmag (of_int d * 10 powi x) = m" "0 < d"
  shows "\<bar>len (show_int d) + x - 1\<bar> < 10000"
proof -
  define n where "n = length (show_int d)"
  define q where "q = rat_of_int d * 10 powi x"
  have q: "0 < q" "rmag q = m" using assms by (simp_all add: q_def)
  have d: "10 ^ (n - 1) \<le> d" "d < 10 ^ n" "1 \<le> n" using show_nat_length [of "nat d"] assms(4)
    by (auto simp: n_def show_int_def Suc_le_eq)
  have "(10::rat) powi (int n + x - 1) = 10 ^ (n - 1) * 10 powi x"
    using d(3) by (simp add: power_int_diff power_int_add power_diff)
  also have "\<dots> \<le> q" unfolding q_def using d(1) by (intro mult_right_mono) (simp_all flip: of_int_le_iff)
  finally have lo: "(10::rat) powi (int n + x - 1) \<le> q" .
  have "q < 10 ^ n * 10 powi x" unfolding q_def using d(2) by (intro mult_strict_right_mono) (simp_all flip: of_int_less_iff)
  also have "\<dots> = (10::rat) powi (int n + x)" by (simp add: power_int_add)
  finally have hi: "q < (10::rat) powi (int n + x)" .
  have "q < max64"
  proof (rule ccontr)
    assume "\<not> q < max64"
    then have "rmag max64 \<le> rmag q" by (intro rmag_mono) auto
    moreover have "rmag max64 = max64"
      by (intro rmag_representable representableI [of _ 1 1024]) (simp_all add: max64_def)
    ultimately show False using assms(2) q(2) by simp
  qed
  then have up: "(10::rat) powi (int n + x - 1) < 2 powi 1024" using lo by (simp add: max64_def)
  have "int n + x - 1 < 1024"
  proof (rule ccontr)
    assume c: "\<not> int n + x - 1 < 1024"
    then have "(2::rat) powi 1024 \<le> 2 powi (int n + x - 1)" by (intro power_int_increasing) auto
    also have "\<dots> \<le> 10 powi (int n + x - 1)" using c by (simp add: power_int_def power_mono)
    finally show False using up by simp
  qed
  moreover have "-1075 < int n + x"
  proof (rule ccontr)
    assume c: "\<not> -1075 < int n + x"
    have "(10::rat) powi (int n + x) \<le> 2 powi (int n + x)"
      using c by (simp add: power_int_def power_mono le_imp_inverse_le)
    also have "\<dots> \<le> 2 powi (-1075)" using c by (intro power_int_increasing) auto
    finally show False using hi rmag_pos_bound [of q] q assms(1) by simp
  qed
  ultimately show ?thesis by (simp add: n_def len_def)
qed

lemma digits_list: "list_all (is_digit 10) (show_nat n)"
  by (simp add: list_all_iff show_nat_is_digit)

text \<open>A written magnitude: its digits, the number they denote, and its characters.\<close>

lemma float_digits_cases:
  assumes "0 < m" "rmag m = m"
  obtains d x where "0 < d" "rmag (of_int d * 10 powi x) = m" "show_int d = show_nat (nat d)"
    "float_digits m \<in> {format_f (show_nat (nat d)) (len (show_int d) + x), format_e (show_nat (nat d)) (len (show_int d) + x)}"
proof -
  obtain d0 x0 where s: "shortest m = (d0, x0)" by force
  obtain d x where t: "trim_zeros (d0, x0) = (d, x)" by force
  have "0 < d0" "rmag (of_int d0 * 10 powi x0) = m"
    using shortest_from_identifies [OF assms] s by (auto simp: shortest_def)
  with trim_zeros_value [OF t] have d: "0 < d" "rmag (of_int d * 10 powi x) = m" by auto
  have sh: "show_int d = show_nat (nat d)" using d(1) by (simp add: show_int_def)
  have "float_digits m \<in> {format_f (show_nat (nat d)) (len (show_int d) + x), format_e (show_nat (nat d)) (len (show_int d) + x)}"
    using assms(1) unfolding float_digits_def by (simp add: s t sh Let_def)
  with d sh that show ?thesis by blast
qed

lemma float_digits_read:
  assumes "0 \<le> m" "m < max64" "rmag m = m"
  shows "\<exists>q. read_number 10 (CHR ''e'') (float_digits m) = Some q \<and> rmag q = m"
proof (cases "m = 0")
  case True
  have "read_number 10 (CHR ''e'') ''0'' = Some 0"
    by (simp add: read_number_def is_digit10_iff len_def base_digit_def lower_char_def)
  then show ?thesis using True by (simp add: float_digits_def)
next
  case False
  with assms have m: "0 < m" by simp
  obtain d x where d: "0 < d" "rmag (of_int d * 10 powi x) = m" "show_int d = show_nat (nat d)"
    "float_digits m \<in> {format_f (show_nat (nat d)) (len (show_int d) + x), format_e (show_nat (nat d)) (len (show_int d) + x)}"
    using float_digits_cases [OF m assms(3)] .
  have "read_number 10 (CHR ''e'') (float_digits m) = Some (of_int d * 10 powi x)"
    using d(4) read_format_f [OF digits_list, of "nat d"] read_format_e [OF digits_list, of "nat d"]
      pow10_bounds [OF m assms(2) d(2,1)] d(1) by (auto simp: d(3))
  then show ?thesis using d(2) by simp
qed

lemma format_chars:
  assumes "list_all num_char ds" "ds \<noteq> []"
  shows "list_all num_char (format_f ds dp)" "list_all num_char (format_e ds dp)"
proof -
  have d: "num_char (CHR ''.'')" "num_char (CHR ''e'')" "num_char (CHR ''+'')" "num_char (CHR ''-'')" "num_char (CHR ''0'')"
    by (simp_all add: num_char_iff)
  have n: "list_all num_char (show_int k)" if "0 \<le> k" for k
    using that show_nat_is_digit [of _ "nat k"] by (auto simp: show_int_def list_all_iff num_char_def)
  show "list_all num_char (format_f ds dp)"
    using assms(1) by (auto simp: format_f_def d list_all_iff dest: in_set_takeD in_set_dropD)
  show "list_all num_char (format_e ds dp)"
    using assms n [of "1 - dp"] n [of "dp - 1"]
    by (auto simp: format_e_def d list_all_iff dest: in_set_takeD in_set_dropD)
qed

lemma format_digit:
  assumes "list_all (is_digit 10) ds" "ds \<noteq> []"
  shows "\<exists>c t. format_f ds dp = c # t \<and> is_digit 10 c" "\<exists>c t. format_e ds dp = c # t \<and> is_digit 10 c"
  using assms by (cases ds; auto simp: format_f_def format_e_def take_Cons' len_def)+

lemma float_digits_chars:
  assumes "0 \<le> m" "rmag m = m"
  shows "list_all num_char (float_digits m) \<and> (\<exists>c t. float_digits m = c # t \<and> is_digit 10 c)"
proof (cases "m = 0")
  case True
  then show ?thesis by (simp add: float_digits_def num_char_def)
next
  case False
  with assms have m: "0 < m" by simp
  obtain d x where "float_digits m \<in> {format_f (show_nat (nat d)) (len (show_int d) + x), format_e (show_nat (nat d)) (len (show_int d) + x)}"
    using float_digits_cases [OF m assms(2)] by metis
  moreover have "list_all num_char (show_nat (nat d))" using digits_list by (auto simp: list_all_iff num_char_def)
  ultimately show ?thesis
    using format_chars [of "show_nat (nat d)"] format_digit [OF digits_list, of "nat d"] by auto
qed

lemma num_chars_excluded:
  assumes "list_all num_char s"
  shows "CHR ''_'' \<notin> set s" "filter (\<lambda>c. c \<noteq> CHR ''_'') s = s"
proof -
  have "\<not> num_char (CHR ''_'')" by (simp add: num_char_iff)
  then show "CHR ''_'' \<notin> set s" using assms by (auto simp: list_all_iff)
  then show "filter (\<lambda>c. c \<noteq> CHR ''_'') s = s" by (auto intro: filter_True)
qed

lemma lower_num_char: "num_char c \<Longrightarrow> lower_char c = c"
  by (auto simp: num_char_iff lower_char_def)

lemma ParseFloat_number:
  assumes "list_all num_char (c # t)" "is_digit 10 c" "read_number 10 (CHR ''e'') (c # t) = Some q"
  shows "ParseFloat ((if s then ''-'' else []) @ c # t) = (case rnd s q of Fin s m \<Rightarrow> Some (Fin s m) | _ \<Rightarrow> None)"
proof -
  have c: "c \<noteq> CHR ''-''" "c \<noteq> CHR ''+''" "c \<noteq> CHR ''_''" using assms(2) by (auto simp: is_digit10_iff)
  have low: "map lower_char (c # t) = c # t" using assms(1) lower_num_char
    by (auto simp: list_all_iff intro: map_idI)
  have i: "c \<noteq> CHR ''i''" "c \<noteq> CHR ''n''" using assms(2) by (auto simp: is_digit10_iff)
  have x: "lower_char y \<noteq> CHR ''x''" if "t = y # u" for y u
    using assms(1) that lower_num_char [of y] by (auto simp: num_char_iff)
  have "read_unsigned (c # t) = Some q"
    using x assms(3) by (auto simp: read_unsigned_def split: list.splits)
  then have e: "read_unsigned (filter (\<lambda>c. c \<noteq> CHR ''_'') (c # t)) = Some q"
    by (simp only: num_chars_excluded(2) [OF assms(1)])
  show ?thesis
  proof (cases s)
    case True
    then show ?thesis unfolding ParseFloat_def Let_def
      using low i num_chars_excluded(1) [OF assms(1)] e by (simp del: filter.simps)
  next
    case False
    then show ?thesis unfolding ParseFloat_def Let_def
      using c low i num_chars_excluded(1) [OF assms(1)] e by (simp del: filter.simps)
  qed
qed

text \<open>Every finite float64 is written as a JSON number that reads back as the same number, sign included.\<close>

lemma json_float_roundtrip:
  assumes "json_float v = Some s"
  shows "ParseFloat s = Some v"
proof -
  obtain b m where v: "v = Fin b m" and s: "s = (if b then ''-'' else []) @ float_digits m"
    and m: "0 \<le> m" "m < max64" "rmag m = m"
    using assms by (cases v) (auto split: if_splits)
  obtain q where q: "read_number 10 (CHR ''e'') (float_digits m) = Some q" "rmag q = m"
    using float_digits_read [OF m] by blast
  obtain c t where c: "float_digits m = c # t" "is_digit 10 c" "list_all num_char (c # t)"
    using float_digits_chars [OF m(1,3)] by auto
  from ParseFloat_number [OF c(3,2), of q b] q m c(1) show ?thesis unfolding s v
    by (simp add: rnd_def Let_def)
qed

end
