(* ===== verification/GoTime.thy ===== *)
theory GoTime
  imports GoFloat Models
begin

text \<open>
  Calendar dates, as Go's \<^verbatim>\<open>time\<close> package computes, parses and prints them: \<^verbatim>\<open>time.Parse("2006-01-02", s)\<close>,
  \<^verbatim>\<open>t.Format("2006-01-02")\<close> and the RFC 3339 form of \<^verbatim>\<open>MarshalJSON\<close>. Times are UTC.
\<close>

section \<open>The proleptic Gregorian calendar\<close>

definition is_leap :: "int \<Rightarrow> bool" where
  "is_leap y \<longleftrightarrow> y mod 4 = 0 \<and> (y mod 100 \<noteq> 0 \<or> y mod 400 = 0)"

definition days_before :: "bool \<Rightarrow> int list" where
  "days_before leap = (if leap then [0, 31, 60, 91, 121, 152, 182, 213, 244, 274, 305, 335, 366]
                       else [0, 31, 59, 90, 120, 151, 181, 212, 243, 273, 304, 334, 365])"

definition year_days :: "int \<Rightarrow> int" where
  "year_days y = (if is_leap y then 366 else 365)"

text \<open>Days from 1 January of year 1 to 1 January of a year.\<close>

definition days_to_year :: "int \<Rightarrow> int" where
  "days_to_year y = (let p = y - 1 in 365 * p + p div 4 - p div 100 + p div 400)"

text \<open>The year of a day and the day in it, by cycles of 400, 100, 4 and 1 years.\<close>

definition civil_year :: "int \<Rightarrow> int \<times> int" where
  "civil_year n =
     (let q = n div 146097; d = n mod 146097;
          c = d div 36524; c = c - c div 4; d = d - 36524 * c;
          f = d div 1461; d = d - 1461 * f;
          a = d div 365; a = a - a div 4; d = d - 365 * a
      in (400 * q + 100 * c + 4 * f + a + 1, d))"

definition civil_month :: "bool \<Rightarrow> int \<Rightarrow> int \<times> int" where
  "civil_month leap yd =
     (let m = len (takeWhile (\<lambda>b. b \<le> yd) (days_before leap)) in (m, yd - days_before leap ! nat (m - 1) + 1))"

definition days_in :: "int \<Rightarrow> int \<Rightarrow> int" where
  "days_in y m = days_before (is_leap y) ! nat m - days_before (is_leap y) ! nat (m - 1)"

definition Date :: "int \<Rightarrow> int \<Rightarrow> int \<Rightarrow> time" where
  "Date y m d = 86400 * 10 ^ 9 * (days_to_year y + days_before (is_leap y) ! nat (m - 1) + d - 1)"

definition civil :: "time \<Rightarrow> int \<times> int \<times> int" where
  "civil t = (let (y, yd) = civil_year (t div (86400 * 10 ^ 9)); (m, d) = civil_month (is_leap y) yd in (y, m, d))"

lemma div_between: "0 < (k::int) \<Longrightarrow> k * q \<le> n \<Longrightarrow> n < k * (q + 1) \<Longrightarrow> n div k = q"
  by (rule int_div_pos_eq [of _ _ _ "n - k * q"]) (auto simp: algebra_simps)

lemma mod_zero_within: "0 < r \<Longrightarrow> r \<le> (k::int) \<Longrightarrow> (k * q + r) mod k = 0 \<longleftrightarrow> r = k"
  by (cases "r = k") auto

lemma leap_split:
  assumes "0 \<le> b" "b \<le> 3" "0 \<le> c" "c \<le> 24" "0 \<le> e" "e \<le> 3"
  shows "is_leap (400 * a + 100 * b + 4 * c + e + 1) \<longleftrightarrow> e = 3 \<and> (c \<noteq> 24 \<or> b = 3)"
proof -
  let ?y = "400 * a + 100 * b + 4 * c + e + 1"
  have y: "?y = 4 * (100 * a + 25 * b + c) + (e + 1)" "?y = 100 * (4 * a + b) + (4 * c + e + 1)"
    "?y = 400 * a + (100 * b + 4 * c + e + 1)" by simp_all
  have "?y mod 4 = 0 \<longleftrightarrow> e = 3" unfolding y(1) by (subst mod_zero_within) (use assms in auto)
  moreover have "?y mod 100 = 0 \<longleftrightarrow> 4 * c + e + 1 = 100" unfolding y(2)
    by (subst mod_zero_within) (use assms in auto)
  moreover have "?y mod 400 = 0 \<longleftrightarrow> 100 * b + 4 * c + e + 1 = 400" unfolding y(3)
    by (subst mod_zero_within) (use assms in auto)
  ultimately show ?thesis using assms unfolding is_leap_def by auto
qed

lemma days_to_year_split:
  assumes "0 \<le> b" "b \<le> 3" "0 \<le> c" "c \<le> 24" "0 \<le> e" "e \<le> 3"
  shows "days_to_year (400 * a + 100 * b + 4 * c + e + 1) = 146097 * a + 36524 * b + 1461 * c + 365 * e"
proof -
  have "(400 * a + 100 * b + 4 * c + e) div 4 = 100 * a + 25 * b + c" using assms by (intro div_between) auto
  moreover have "(400 * a + 100 * b + 4 * c + e) div 100 = 4 * a + b" using assms by (intro div_between) auto
  moreover have "(400 * a + 100 * b + 4 * c + e) div 400 = a" using assms by (intro div_between) auto
  ultimately show ?thesis by (simp add: days_to_year_def)
qed

lemma year_split:
  obtains a b c e :: int where "0 \<le> b" "b \<le> 3" "0 \<le> c" "c \<le> 24" "0 \<le> e" "e \<le> 3"
    "y = 400 * a + 100 * b + 4 * c + e + 1"
proof
  define p where "p = y - 1"
  show "0 \<le> p mod 400 div 100" "p mod 400 div 100 \<le> 3" "0 \<le> p mod 100 div 4" "p mod 100 div 4 \<le> 24"
    "0 \<le> p mod 4" "p mod 4 \<le> 3" by (simp_all add: pos_imp_zdiv_nonneg_iff)
  have "p mod 400 mod 100 = p mod 100" "p mod 100 mod 4 = p mod 4" by (simp_all add: mod_mod_cancel)
  then have "p = 400 * (p div 400) + 100 * (p mod 400 div 100) + 4 * (p mod 100 div 4) + p mod 4"
    using mult_div_mod_eq [of 400 p] mult_div_mod_eq [of 100 "p mod 400"] mult_div_mod_eq [of 4 "p mod 100"] by linarith
  then show "y = 400 * (p div 400) + 100 * (p mod 400 div 100) + 4 * (p mod 100 div 4) + p mod 4 + 1"
    by (simp add: p_def)
qed

lemma civil_year_days_to_year:
  assumes "0 \<le> yd" "yd < year_days y"
  shows "civil_year (days_to_year y + yd) = (y, yd)"
proof -
  obtain a b c e where r: "0 \<le> b" "b \<le> 3" "0 \<le> c" "c \<le> 24" "0 \<le> e" "e \<le> 3"
    and y: "y = 400 * a + 100 * b + 4 * c + e + 1" by (rule year_split)
  have leap: "yd \<le> 364 \<or> yd = 365 \<and> e = 3 \<and> (c \<noteq> 24 \<or> b = 3)"
    using assms leap_split [OF r, of a] by (auto simp: year_days_def y split: if_splits)
  define d where "d = 36524 * b + 1461 * c + 365 * e + yd"
  have n: "days_to_year y + yd = 146097 * a + d" using days_to_year_split [OF r, of a] by (simp add: d_def y)
  have d: "0 \<le> d" "d < 146097" using r assms leap by (auto simp: d_def)
  have 1: "(146097 * a + d) div 146097 = a" "(146097 * a + d) mod 146097 = d" using d by simp_all
  have 2: "d div 36524 - d div 36524 div 4 = b"
  proof (cases "d - 36524 * b < 36524")
    case True
    then have "d div 36524 = b" using r assms(1) by (intro div_between) (auto simp: d_def)
    then show ?thesis using r by simp
  next
    case False
    then have "b = 3" "d = 36524 * 4" using r leap unfolding d_def by auto
    then show ?thesis by simp
  qed
  have 3: "(d - 36524 * b) div 1461 = c"
    using r assms(1) leap by (intro div_between) (auto simp: d_def)
  have 4: "(d - 36524 * b - 1461 * c) div 365 - (d - 36524 * b - 1461 * c) div 365 div 4 = e"
  proof (cases "yd = 365")
    case True
    then have "(d - 36524 * b - 1461 * c) div 365 = 4" "e = 3" using leap by (auto simp: d_def)
    then show ?thesis by simp
  next
    case False
    then have "(d - 36524 * b - 1461 * c) div 365 = e"
      using r assms(1) leap by (intro div_between) (auto simp: d_def)
    then show ?thesis using r by simp
  qed
  show ?thesis unfolding n civil_year_def Let_def 1 2 3 4 using y by (simp add: d_def)
qed

lemma month_cases:
  "1 \<le> m \<Longrightarrow> m \<le> 12 \<Longrightarrow> m \<in> {1, 2, 3, 4, 5, 6, 7, 8, 9, 10, 11, 12 :: int}"
  by simp presburger

lemma civil_month_days:
  assumes "1 \<le> m" "m \<le> 12" "1 \<le> d" "d \<le> days_in y m"
  shows "civil_month (is_leap y) (days_before (is_leap y) ! nat (m - 1) + d - 1) = (m, d)"
    and "0 \<le> days_before (is_leap y) ! nat (m - 1) + d - 1"
    and "days_before (is_leap y) ! nat (m - 1) + d - 1 < year_days y"
  using month_cases [OF assms(1,2)] assms(3,4)
  by (elim insertE emptyE; cases "is_leap y"; simp add: civil_month_def days_before_def days_in_def year_days_def len_def)+

lemma civil_year_inverse:
  assumes "civil_year n = (y, yd)"
  shows "days_to_year y + yd = n" "0 \<le> yd" "yd < year_days y"
proof -
  define q where "q = n div 146097"
  define d where "d = n mod 146097"
  define c where "c = d div 36524 - d div 36524 div 4"
  define d1 where "d1 = d - 36524 * c"
  define f where "f = d1 div 1461"
  define d2 where "d2 = d1 - 1461 * f"
  define a where "a = d2 div 365 - d2 div 365 div 4"
  have y: "y = 400 * q + 100 * c + 4 * f + a + 1" "yd = d2 - 365 * a"
    using assms unfolding civil_year_def Let_def
    by (simp_all only: flip: q_def d_def c_def d1_def f_def d2_def a_def) (simp_all only: prod.inject)
  have n: "n = 146097 * q + d" "0 \<le> d" "d < 146097" by (simp_all add: q_def d_def)
  have "0 \<le> d div 36524" "d div 36524 \<le> 4" using n by linarith+
  then have "d div 36524 \<in> {0, 1, 2, 3, 4}" by auto
  then have c: "0 \<le> c" "c \<le> 3" "0 \<le> d1" "d1 \<le> 36523 \<or> c = 3 \<and> d1 = 36524"
    using n mult_div_mod_eq [of 36524 d] pos_mod_bound [of 36524 d] pos_mod_sign [of 36524 d]
    by (auto simp: c_def d1_def)
  then have f: "0 \<le> f" "f \<le> 24" "0 \<le> d2" "d2 < 1461"
    using mult_div_mod_eq [of 1461 d1] pos_mod_bound [of 1461 d1] pos_mod_sign [of 1461 d1]
    unfolding d2_def f_def by linarith+
  have "0 \<le> d2 div 365" "d2 div 365 \<le> 4" using f by linarith+
  then have "d2 div 365 \<in> {0, 1, 2, 3, 4}" by auto
  then have a: "0 \<le> a" "a \<le> 3" "0 \<le> yd" "yd \<le> 364 \<or> a = 3 \<and> yd = 365"
    using f mult_div_mod_eq [of 365 d2] pos_mod_bound [of 365 d2] pos_mod_sign [of 365 d2]
    by (auto simp: a_def y(2))
  have "days_to_year y = 146097 * q + 36524 * c + 1461 * f + 365 * a"
    unfolding y(1) by (rule days_to_year_split [OF c(1,2) f(1,2) a(1,2)])
  then show "days_to_year y + yd = n" using n by (simp add: y(2) d2_def d1_def)
  show "0 \<le> yd" by (rule a(3))
  have "is_leap y" if "yd = 365"
    using leap_split [OF c(1,2) f(1,2) a(1,2), of q] a(4) c(4) that
    unfolding y(1) by (auto simp: y(2) d2_def)
  then show "yd < year_days y" using a(4) by (auto simp: year_days_def)
qed

text \<open>A date determines its time and the time its date.\<close>

lemma civil_Date:
  assumes "1 \<le> m" "m \<le> 12" "1 \<le> d" "d \<le> days_in y m"
  shows "civil (Date y m d) = (y, m, d)"
proof -
  let ?yd = "days_before (is_leap y) ! nat (m - 1) + d - 1"
  have n: "Date y m d div (86400 * 10 ^ 9) = days_to_year y + ?yd" by (simp add: Date_def algebra_simps)
  show ?thesis unfolding civil_def n
    using civil_year_days_to_year [OF civil_month_days(2,3) [OF assms]] civil_month_days(1) [OF assms] by simp
qed

section \<open>Text of dates\<close>

definition two_digits :: "char \<Rightarrow> char \<Rightarrow> int option" where
  "two_digits a b =
     (case (digit_val a, digit_val b) of (Some x, Some y) \<Rightarrow> Some (10 * x + y) | _ \<Rightarrow> None)"

text \<open>\<^verbatim>\<open>time.Parse("2006-01-02", s)\<close>; \<^const>\<open>None\<close> stands for its error.\<close>

definition valid_date :: "int \<Rightarrow> int \<Rightarrow> int \<Rightarrow> bool" where
  "valid_date y m d \<longleftrightarrow> 1 \<le> m \<and> m \<le> 12 \<and> 1 \<le> d \<and> d \<le> days_in y m"

fun ParseDate :: "string \<Rightarrow> time option" where
  "ParseDate [y1, y2, y3, y4, s1, m1, m2, s2, d1, d2] =
     (case (two_digits y1 y2, two_digits y3 y4, two_digits m1 m2, two_digits d1 d2) of
        (Some yh, Some yl, Some m, Some d) \<Rightarrow>
          if s1 = CHR ''-'' \<and> s2 = CHR ''-'' \<and> valid_date (100 * yh + yl) m d
          then Some (Date (100 * yh + yl) m d) else None
      | _ \<Rightarrow> None)"
| "ParseDate _ = None"

text \<open>An integer padded with zeros to a width, the sign in front.\<close>

definition pad :: "nat \<Rightarrow> int \<Rightarrow> string" where
  "pad w n = (let s = show_nat (nat \<bar>n\<bar>) in (if n < 0 then ''-'' else []) @ replicate (w - length s) (CHR ''0'') @ s)"

definition dateFormat :: "time \<Rightarrow> string" where
  "dateFormat t = (let (y, m, d) = civil t in pad 4 y @ ''-'' @ pad 2 m @ ''-'' @ pad 2 d)"

lemma digit_val_Some:
  assumes "digit_val c = Some x"
  shows "0 \<le> x" "x < 10" "c = digit_char (nat x)"
proof -
  show "0 \<le> x" "x < 10" using assms by (auto simp: digit_val_def Let_def split: if_splits)
  have "x = int (of_char c) - 48" "48 \<le> (of_char c :: nat)" "(of_char c :: nat) \<le> 57"
    using assms by (auto simp: digit_val_def Let_def split: if_splits)
  then have "of_char c = 48 + nat x" by linarith
  then show "c = digit_char (nat x)" unfolding digit_char_def
    by (intro of_char_eqI [where ?'a = nat]) (use \<open>x < 10\<close> \<open>0 \<le> x\<close> in \<open>simp add: take_bit_eq_mod\<close>)
qed

text \<open>Exactly \<open>w\<close> decimal digits of a number.\<close>

fun fixed_digits :: "nat \<Rightarrow> nat \<Rightarrow> string" where
  "fixed_digits 0 n = []"
| "fixed_digits (Suc w) n = fixed_digits w (n div 10) @ [digit_char (n mod 10)]"

lemma digit_char_0: "digit_char 0 = CHR ''0''"
  by (rule of_char_eqI [where ?'a = nat]) (simp add: digit_char_def)

lemma length_fixed_digits [simp]: "length (fixed_digits w n) = w"
  by (induction w arbitrary: n) auto

lemma fixed_digits_0: "fixed_digits w 0 = replicate w (CHR ''0'')"
  by (induction w) (auto simp: digit_char_0 simp flip: replicate_append_same)

lemma fixed_digits_show: "n < 10 ^ w \<Longrightarrow> 0 < w \<Longrightarrow>
    replicate (w - length (show_nat n)) (CHR ''0'') @ show_nat n = fixed_digits w n"
proof (induction w arbitrary: n)
  case (Suc w)
  show ?case
  proof (cases "n < 10")
    case True
    then show ?thesis by (simp add: show_nat.simps fixed_digits_0 div_less)
  next
    case False
    then have "10 \<le> n" "n div 10 < 10 ^ w" using Suc.prems by simp_all
    then have w: "0 < w" by (cases w) auto
    have "show_nat n = show_nat (n div 10) @ [digit_char (n mod 10)]" using False by (subst show_nat.simps) simp
    with Suc.IH [OF \<open>n div 10 < 10 ^ w\<close> w] show ?thesis by simp
  qed
qed simp

lemma pad_fixed: "0 \<le> n \<Longrightarrow> n < 10 ^ w \<Longrightarrow> 0 < w \<Longrightarrow> pad w n = fixed_digits w (nat n)"
  using fixed_digits_show [of "nat n" w] by (simp add: pad_def Let_def nat_less_iff)

lemma two_digits_Some:
  assumes "two_digits a b = Some n"
  shows "0 \<le> n" "n < 100" "fixed_digits 2 (nat n) = [a, b]"
proof -
  obtain x y where x: "digit_val a = Some x" and y: "digit_val b = Some y" and n: "n = 10 * x + y"
    using assms by (auto simp: two_digits_def split: option.splits)
  note xy = digit_val_Some [OF x] digit_val_Some [OF y]
  show "0 \<le> n" "n < 100" using xy n by auto
  have "nat n = 10 * nat x + nat y" using xy n by simp
  moreover have "nat y < 10" "nat x < 10" using xy by auto
  ultimately show "fixed_digits 2 (nat n) = [a, b]" using xy by (simp add: numeral_2_eq_2)
qed

lemma two_digits_char: "x < 10 \<Longrightarrow> y < 10 \<Longrightarrow> two_digits (digit_char x) (digit_char y) = Some (10 * int x + int y)"
  by (simp add: two_digits_def)

lemma two_digits_fixed:
  assumes "n < 100"
  obtains a b where "fixed_digits 2 n = [a, b]" "two_digits a b = Some (int n)"
proof -
  have "fixed_digits 2 n = [digit_char (n div 10 mod 10), digit_char (n mod 10)]" by (simp add: numeral_2_eq_2)
  moreover have "two_digits (digit_char (n div 10 mod 10)) (digit_char (n mod 10)) = Some (int n)"
    using assms by (subst two_digits_char) (simp_all add: zdiv_int zmod_int)
  ultimately show ?thesis using that by blast
qed

lemma fixed_digits_2: "fixed_digits 2 n = [digit_char (n div 10 mod 10), digit_char (n mod 10)]"
  by (simp add: numeral_2_eq_2)

lemma fixed_digits_4: "fixed_digits 4 n = fixed_digits 2 (n div 100) @ fixed_digits 2 n"
proof -
  have "fixed_digits (Suc (Suc 2)) n = (fixed_digits 2 (n div 10 div 10) @ [digit_char (n div 10 mod 10)]) @ [digit_char (n mod 10)]"
    by (simp only: fixed_digits.simps)
  then show ?thesis by (simp add: fixed_digits_2 div_mult2_eq [symmetric])
qed

lemma days_in_bound: "1 \<le> m \<Longrightarrow> m \<le> 12 \<Longrightarrow> days_in y m \<le> 31"
  by (drule (1) month_cases, elim insertE emptyE; simp add: days_in_def days_before_def)

text \<open>Reading a date and printing it gives the text back.\<close>

lemma dateFormat_ParseDate:
  assumes "ParseDate s = Some t"
  shows "dateFormat t = s"
proof -
  obtain y1 y2 y3 y4 s1 m1 m2 s2 d1 d2 where s: "s = [y1, y2, y3, y4, s1, m1, m2, s2, d1, d2]"
    using assms by (cases s rule: ParseDate.cases) auto
  with assms obtain yh yl m d where p: "two_digits y1 y2 = Some yh" "two_digits y3 y4 = Some yl"
      "two_digits m1 m2 = Some m" "two_digits d1 d2 = Some d"
    and sep: "s1 = CHR ''-''" "s2 = CHR ''-''" and v: "valid_date (100 * yh + yl) m d"
    and t: "t = Date (100 * yh + yl) m d"
    by (auto split: option.splits if_splits)
  note td = two_digits_Some [OF p(1)] two_digits_Some [OF p(2)] two_digits_Some [OF p(3)] two_digits_Some [OF p(4)]
  have c: "civil t = (100 * yh + yl, m, d)" using v unfolding t valid_date_def by (intro civil_Date) auto
  have n: "nat (100 * yh + yl) div 100 = nat yh" "nat (100 * yh + yl) = 100 * nat yh + nat yl" using td by auto
  have two: "fixed_digits 2 (100 * k + l) = fixed_digits 2 l" for k l
  proof -
    have "100 * k + l = l + 10 * k * 10" by simp
    then have "(100 * k + l) div 10 = l div 10 + 10 * k" "(100 * k + l) mod 10 = l mod 10"
      by (simp_all only: div_mult_self1 mod_mult_self1)
    then show ?thesis by (simp add: fixed_digits_2)
  qed
  have "pad 4 (100 * yh + yl) = [y1, y2] @ [y3, y4]"
    using td by (subst pad_fixed) (simp_all add: fixed_digits_4 n(1), simp add: n(2) two)
  moreover have "pad 2 m = [m1, m2]" "pad 2 d = [d1, d2]"
    using td by (simp_all add: pad_fixed)
  ultimately show ?thesis by (simp add: dateFormat_def c s sep)
qed

lemma civil_month_inverse:
  assumes "civil_month (is_leap y) yd = (m, d)" "0 \<le> yd" "yd < year_days y"
  shows "valid_date y m d" "days_before (is_leap y) ! nat (m - 1) + d - 1 = yd"
  using assms
  by (cases "is_leap y"; auto simp: civil_month_def valid_date_def days_before_def days_in_def year_days_def len_def
      Let_def split: if_splits)+

lemma Date_civil:
  assumes "civil t = (y, m, d)"
  shows "valid_date y m d" "Date y m d = t - t mod (86400 * 10 ^ 9)"
proof -
  obtain y' yd where y: "civil_year (t div (86400 * 10 ^ 9)) = (y', yd)" by force
  with assms have m: "y' = y" "civil_month (is_leap y) yd = (m, d)" by (auto simp: civil_def Let_def split: prod.splits)
  note inv = civil_year_inverse [OF y] and minv = civil_month_inverse [OF m(2)]
  show "valid_date y m d" using minv(1) inv m(1) by simp
  have "Date y m d = 86400 * 10 ^ 9 * (t div (86400 * 10 ^ 9))"
    using minv(2) inv m(1) unfolding Date_def by (metis (no_types, opaque_lifting) add.assoc add_diff_eq)
  then show "Date y m d = t - t mod (86400 * 10 ^ 9)" by (simp add: minus_mod_eq_mult_div)
qed

definition year :: "time \<Rightarrow> int" where "year t = fst (civil t)"

text \<open>Printing the date of a time and reading it gives the beginning of the day.\<close>

lemma ParseDate_dateFormat:
  assumes "0 \<le> year t" "year t \<le> 9999"
  shows "ParseDate (dateFormat t) = Some (t - t mod (86400 * 10 ^ 9))"
proof -
  obtain y m d where c: "civil t = (y, m, d)" by (cases "civil t") auto
  have v: "valid_date y m d" by (rule Date_civil(1) [OF c])
  have y: "0 \<le> y" "y \<le> 9999" using assms c by (simp_all add: year_def)
  have md: "1 \<le> m" "m \<le> 12" "1 \<le> d" "d \<le> 31" using v days_in_bound [of m y] by (auto simp: valid_date_def)
  obtain a b where 1: "fixed_digits 2 (nat y div 100) = [a, b]" "two_digits a b = Some (int (nat y div 100))"
    by (rule two_digits_fixed [of "nat y div 100"]) (use y in simp_all)
  obtain e f where 2: "fixed_digits 2 (nat y mod 100) = [e, f]" "two_digits e f = Some (int (nat y mod 100))"
    by (rule two_digits_fixed [of "nat y mod 100"]) simp_all
  obtain g h where 3: "fixed_digits 2 (nat m) = [g, h]" "two_digits g h = Some (int (nat m))"
    by (rule two_digits_fixed [of "nat m"]) (use md in simp_all)
  obtain i j where 4: "fixed_digits 2 (nat d) = [i, j]" "two_digits i j = Some (int (nat d))"
    by (rule two_digits_fixed [of "nat d"]) (use md in simp_all)
  have "nat y mod 100 = 10 * (nat y div 10 mod 10) + nat y mod 10" using mod_mult2_eq [of "nat y" 10 10] by simp
  then have "nat y mod 100 div 10 mod 10 = nat y div 10 mod 10" "nat y mod 100 mod 10 = nat y mod 10"
    by simp_all
  then have "fixed_digits 2 (nat y) = fixed_digits 2 (nat y mod 100)" by (simp add: fixed_digits_2)
  then have "dateFormat t = [a, b, e, f, CHR ''-'', g, h, CHR ''-'', i, j]"
    using y md by (simp add: dateFormat_def c pad_fixed fixed_digits_4 1 2 3 4)
  moreover have "100 * (y div 100) + y mod 100 = y" by simp
  ultimately show ?thesis
    using 1(2) 2(2) 3(2) 4(2) y md v Date_civil(2) [OF c] by (simp add: zdiv_int zmod_int)
qed

section \<open>RFC 3339\<close>

text \<open>
  \<^verbatim>\<open>MarshalJSON\<close> writes the layout \<^verbatim>\<open>2006-01-02T15:04:05.999999999Z\<close> without quotes here; a year outside
  0 to 9999 is an error.
\<close>

definition trim_frac :: "string \<Rightarrow> string" where
  "trim_frac s = rev (dropWhile (\<lambda>c. c = CHR ''0'') (rev s))"

definition rfc3339 :: "time \<Rightarrow> string option" where
  "rfc3339 t =
     (let r = t mod (86400 * 10 ^ 9); ns = r mod 10 ^ 9; sec = r div 10 ^ 9
      in if 0 \<le> year t \<and> year t \<le> 9999
         then Some (dateFormat t @ ''T'' @ pad 2 (sec div 3600) @ '':'' @ pad 2 (sec div 60 mod 60) @ '':'' @
                pad 2 (sec mod 60) @ (if ns = 0 then [] else ''.'' @ trim_frac (pad 9 ns)) @ ''Z'')
         else None)"

text \<open>
  \<^verbatim>\<open>UnmarshalJSON\<close>, for times in UTC: a fraction has at least one digit, digits after the ninth are
  dropped. A numeric zone offset, which is never written here, counts as an error.
\<close>

definition clock :: "char list \<Rightarrow> int option" where
  "clock s =
     (case s of
        [h1, h2, c1, m1, m2, c2, s1, s2] \<Rightarrow>
          (case (two_digits h1 h2, two_digits m1 m2, two_digits s1 s2) of
             (Some h, Some m, Some sec) \<Rightarrow>
               if c1 = CHR '':'' \<and> c2 = CHR '':'' \<and> h < 24 \<and> m < 60 \<and> sec < 60
               then Some (3600 * h + 60 * m + sec) else None
           | _ \<Rightarrow> None)
      | _ \<Rightarrow> None)"

definition fraction :: "string \<Rightarrow> int option" where
  "fraction s =
     (if s = ''Z'' then Some 0
      else case s of
        c # r \<Rightarrow>
          let ds = takeWhile (is_digit 10) r
          in if c = CHR ''.'' \<and> ds \<noteq> [] \<and> dropWhile (is_digit 10) r = ''Z''
             then Some (mantissa 10 0 (take 9 (ds @ replicate 9 (CHR ''0'')))) else None
      | [] \<Rightarrow> None)"

definition parse_rfc3339 :: "string \<Rightarrow> time option" where
  "parse_rfc3339 s =
     (if length s < 20 \<or> s ! 10 \<noteq> CHR ''T'' then None
      else case (ParseDate (take 10 s), clock (take 8 (drop 11 s)), fraction (drop 19 s)) of
        (Some d, Some c, Some f) \<Rightarrow> Some (d + c * 10 ^ 9 + f)
      | _ \<Rightarrow> None)"

lemma length_dateFormat: "0 \<le> year t \<Longrightarrow> year t \<le> 9999 \<Longrightarrow> length (dateFormat t) = 10"
  using ParseDate_dateFormat [of t] by (cases "dateFormat t" rule: ParseDate.cases) auto

lemma trim_frac_append: "\<exists>k. s = trim_frac s @ replicate k (CHR ''0'')"
proof -
  have "takeWhile (\<lambda>c. c = CHR ''0'') (rev s) = replicate (length (takeWhile (\<lambda>c. c = CHR ''0'') (rev s))) (CHR ''0'')"
    by (rule replicate_eqI) (auto dest: set_takeWhileD)
  moreover have "s = rev (dropWhile (\<lambda>c. c = CHR ''0'') (rev s)) @ rev (takeWhile (\<lambda>c. c = CHR ''0'') (rev s))"
    by (simp flip: rev_append)
  ultimately show ?thesis unfolding trim_frac_def by (metis rev_replicate)
qed

lemma fixed_digits_mantissa: "n < 10 ^ w \<Longrightarrow> mantissa 10 0 (fixed_digits w n) = int n"
proof (induction w arbitrary: n)
  case (Suc w)
  then have "mantissa 10 0 (fixed_digits w (n div 10)) = int (n div 10)" by simp
  moreover have "mantissa 10 x [digit_char (n mod 10)] = 10 * x + int (n mod 10)" for x
    by (simp add: zmod_int)
  ultimately show ?case by (simp add: mantissa_append zdiv_int zmod_int del: mantissa.simps)
qed simp

lemma fixed_digits_digit: "list_all (is_digit 10) (fixed_digits w n)"
  by (induction w arbitrary: n) (auto simp: is_digit_def)

lemma fraction_frac:
  assumes "0 < ns" "ns < 10 ^ 9"
  shows "fraction (''.'' @ trim_frac (pad 9 ns) @ ''Z'') = Some ns"
proof -
  have p: "pad 9 ns = fixed_digits 9 (nat ns)" using assms by (intro pad_fixed) auto
  obtain k where k: "fixed_digits 9 (nat ns) = trim_frac (pad 9 ns) @ replicate k (CHR ''0'')"
    using trim_frac_append [of "pad 9 ns"] p by auto
  let ?ds = "trim_frac (pad 9 ns)"
  have l: "length ?ds + k = 9" using arg_cong [OF k, of length] by simp
  have all: "list_all (is_digit 10) ?ds" using fixed_digits_digit [of 9 "nat ns"] unfolding k by simp
  have m: "mantissa 10 0 (fixed_digits 9 (nat ns)) = ns" using fixed_digits_mantissa [of "nat ns" 9] assms by simp
  have ne: "?ds \<noteq> []"
  proof
    assume "?ds = []"
    then have "mantissa 10 0 (fixed_digits 9 (nat ns)) = 0" unfolding k by (simp add: mantissa_zeros)
    with m assms show False by simp
  qed
  have z: "\<not> is_digit 10 (CHR ''Z'')" by (simp add: is_digit10_iff)
  have "takeWhile (is_digit 10) (?ds @ ''Z'') = ?ds" "dropWhile (is_digit 10) (?ds @ ''Z'') = ''Z''"
    using takeWhile_digits [OF all, of "''Z''"] z by simp_all
  moreover have "take 9 (?ds @ replicate 9 (CHR ''0'')) = fixed_digits 9 (nat ns)"
  proof -
    have "take 9 (?ds @ replicate 9 (CHR ''0'')) = ?ds @ take (9 - length ?ds) (replicate 9 (CHR ''0''))" using l by simp
    also have "\<dots> = ?ds @ replicate k (CHR ''0'')" using l by (simp add: take_replicate)
    finally show ?thesis using k by simp
  qed
  ultimately show ?thesis using ne m by (simp add: fraction_def)
qed

lemma time_parts:
  assumes "s = d @ ''T'' @ c @ f" "length d = 10" "length c = 8"
  shows "take 10 s = d" "s ! 10 = CHR ''T''" "take 8 (drop 11 s) = c" "drop 19 s = f" "length s = 19 + length f"
  using assms by (simp_all add: nth_append)

text \<open>Times written in RFC 3339 read back exactly.\<close>

lemma rfc3339_roundtrip:
  assumes "rfc3339 t = Some s"
  shows "parse_rfc3339 s = Some t"
proof -
  define r where "r = t mod (86400 * 10 ^ 9)"
  define ns where "ns = r mod 10 ^ 9"
  define sec where "sec = r div 10 ^ 9"
  have y: "0 \<le> year t" "year t \<le> 9999" using assms by (auto simp: rfc3339_def Let_def split: if_splits)
  have r: "0 \<le> r" "r < 86400 * 10 ^ 9" by (simp_all add: r_def)
  have ns: "0 \<le> ns" "ns < 10 ^ 9" by (simp_all add: ns_def)
  have sec: "0 \<le> sec" "sec < 86400" using r by (simp_all add: sec_def pos_imp_zdiv_nonneg_iff)
  let ?f = "(if ns = 0 then [] else ''.'' @ trim_frac (pad 9 ns)) @ ''Z''"
  let ?c = "pad 2 (sec div 3600) @ '':'' @ pad 2 (sec div 60 mod 60) @ '':'' @ pad 2 (sec mod 60)"
  have s: "s = dateFormat t @ ''T'' @ ?c @ ?f"
    using assms y unfolding rfc3339_def Let_def r_def [symmetric] ns_def [symmetric] sec_def [symmetric] by auto
  have h: "sec div 3600 < 24" "0 \<le> sec div 3600" using sec by (simp_all add: pos_imp_zdiv_nonneg_iff)
  have ms: "0 \<le> sec div 60 mod 60" "sec div 60 mod 60 < 60" "0 \<le> sec mod 60" "sec mod 60 < 60" by simp_all
  obtain a b where 1: "fixed_digits 2 (nat (sec div 3600)) = [a, b]" "two_digits a b = Some (int (nat (sec div 3600)))"
    by (rule two_digits_fixed [of "nat (sec div 3600)"]) (use h in simp_all)
  obtain c d where 2: "fixed_digits 2 (nat (sec div 60 mod 60)) = [c, d]"
      "two_digits c d = Some (int (nat (sec div 60 mod 60)))"
    by (rule two_digits_fixed [of "nat (sec div 60 mod 60)"]) (use ms in simp_all)
  obtain e f where 3: "fixed_digits 2 (nat (sec mod 60)) = [e, f]" "two_digits e f = Some (int (nat (sec mod 60)))"
    by (rule two_digits_fixed [of "nat (sec mod 60)"]) (use ms in simp_all)
  have c8: "?c = [a, b, CHR '':'', c, d, CHR '':'', e, f]"
    using h ms by (simp add: pad_fixed 1 2 3)
  have "sec div 3600 = sec div 60 div 60" using zdiv_zmult2_eq [of 60 sec 60] by simp
  then have "3600 * (sec div 3600) + 60 * (sec div 60 mod 60) + sec mod 60 = sec"
    using mult_div_mod_eq [of 60 "sec div 60"] mult_div_mod_eq [of 60 sec] by linarith
  moreover have "int (nat (sec div 3600)) = sec div 3600" "int (nat (sec div 60 mod 60)) = sec div 60 mod 60"
      "int (nat (sec mod 60)) = sec mod 60" using h(2) ms(1,3) by (simp_all only: nat_0_le)
  ultimately have cl: "clock ?c = Some sec" unfolding c8 clock_def using 1(2) 2(2) 3(2) h(1) ms(2,4)
    by (simp only: list.case prod.case option.case simp_thms if_True)
  have fr: "fraction ?f = Some ns" using fraction_frac [of ns] ns by (cases "ns = 0") (simp_all add: fraction_def)
  have l: "length (dateFormat t) = 10" "length ?c = 8" using length_dateFormat [OF y] c8 by simp_all
  have parts: "take 10 s = dateFormat t" "s ! 10 = CHR ''T''" "take 8 (drop 11 s) = ?c" "drop 19 s = ?f" "\<not> length s < 20"
    using time_parts [OF s l] by simp_all
  have "t - r + sec * 10 ^ 9 + ns = t" by (simp add: sec_def ns_def)
  then show ?thesis unfolding parse_rfc3339_def parts(1-4) cl fr
    using parts(5) ParseDate_dateFormat [OF y] by (simp add: r_def)
qed

end
