(* ===== verification/Json.thy ===== *)
theory Json
  imports GoTime "HOL-Library.List_Lexorder" "HOL-Library.Char_ord"
begin

text \<open>
  \<^verbatim>\<open>encoding/json\<close>: the syntax of JSON texts (a lexer and a push-down machine, as the package's scanner is
  one), the compact printer with HTML escaping, encoding of Go values and decoding into structs. The
  cache stores results in this form, the API answers in it and the provider is read from it.
\<close>

section \<open>Values and tokens\<close>

datatype json = JNull | JBool bool | JNum string | JStr string | JArr "json list" | JObj "(string \<times> json) list"

datatype token = TLBrace | TRBrace | TLBrack | TRBrack | TColon | TComma | TStr string | TLit json

section \<open>Strings\<close>

text \<open>The UTF-8 encoding of a code point.\<close>

definition utf8 :: "nat \<Rightarrow> string" where
  "utf8 n =
     (if n < 0x80 then [byte n]
      else if n < 0x800 then [byte (0xC0 + n div 64), byte (0x80 + n mod 64)]
      else if n < 0x10000 then [byte (0xE0 + n div 4096), byte (0x80 + n div 64 mod 64), byte (0x80 + n mod 64)]
      else [byte (0xF0 + n div 262144), byte (0x80 + n div 4096 mod 64), byte (0x80 + n div 64 mod 64), byte (0x80 + n mod 64)])"

text \<open>The length of the well-formed encoding a string starts with, zero when it starts with none.\<close>

definition utf8_len :: "string \<Rightarrow> nat" where
  "utf8_len s =
     (let nth0 = (\<lambda>i. if i < length s then of_char (s ! i) else 0 :: nat);
          cont = (\<lambda>i lo hi. lo \<le> nth0 i \<and> nth0 i \<le> hi);
          c = nth0 0
      in if s = [] then 0
         else if c < 0x80 then 1
         else if 0xC2 \<le> c \<and> c \<le> 0xDF then (if cont 1 0x80 0xBF then 2 else 0)
         else if 0xE0 \<le> c \<and> c \<le> 0xEF
         then (if cont 1 (if c = 0xE0 then 0xA0 else 0x80) (if c = 0xED then 0x9F else 0xBF) \<and> cont 2 0x80 0xBF then 3 else 0)
         else if 0xF0 \<le> c \<and> c \<le> 0xF4
         then (if cont 1 (if c = 0xF0 then 0x90 else 0x80) (if c = 0xF4 then 0x8F else 0xBF) \<and>
                 cont 2 0x80 0xBF \<and> cont 3 0x80 0xBF then 4 else 0)
         else 0)"

text \<open>Decoding replaces a byte that starts no well-formed encoding by U+FFFD.\<close>

function utf8_fix :: "string \<Rightarrow> string" where
  "utf8_fix [] = []"
| "utf8_fix (c # s) =
     (let n = utf8_len (c # s)
      in if n = 0 then utf8 0xFFFD @ utf8_fix s else take n (c # s) @ utf8_fix (drop (n - 1) s))"
  by pat_completeness auto
termination by (relation "measure length") auto

definition hex4 :: "string \<Rightarrow> nat option" where
  "hex4 s =
     (if length s < 4 \<or> \<not> list_all (is_digit 16) (take 4 s) then None else Some (nat (mantissa 16 0 (take 4 s))))"

text \<open>After \<^verbatim>\<open>\u\<close>: a surrogate without its partner stands for U+FFFD.\<close>

definition unicode_escape :: "string \<Rightarrow> (string \<times> string) option" where
  "unicode_escape s =
     (case hex4 s of
        None \<Rightarrow> None
      | Some n \<Rightarrow>
          let r = drop 4 s
          in if n < 0xD800 \<or> 0xE000 \<le> n then Some (utf8 n, r)
             else case (if take 2 r = [CHR 0x5C, CHR ''u''] then hex4 (drop 2 r) else None) of
               None \<Rightarrow> Some (utf8 0xFFFD, r)
             | Some m \<Rightarrow>
                 if n < 0xDC00 \<and> 0xDC00 \<le> m \<and> m < 0xE000
                 then Some (utf8 (0x10000 + (n - 0xD800) * 1024 + (m - 0xDC00)), drop 6 r)
                 else Some (utf8 0xFFFD, r))"

definition escape :: "string \<Rightarrow> (string \<times> string) option" where
  "escape s =
     (case s of
        [] \<Rightarrow> None
      | e # r \<Rightarrow>
          if e \<in> {CHR 0x22, CHR 0x5C, CHR ''/''} then Some ([e], r)
          else if e = CHR ''b'' then Some ([byte 8], r)
          else if e = CHR ''f'' then Some ([byte 12], r)
          else if e = CHR ''n'' then Some ([byte 10], r)
          else if e = CHR ''r'' then Some ([byte 13], r)
          else if e = CHR ''t'' then Some ([byte 9], r)
          else if e = CHR ''u'' then unicode_escape r
          else None)"

definition next_char :: "string \<Rightarrow> (string \<times> string) option" where
  "next_char s =
     (case s of
        [] \<Rightarrow> None
      | c # r \<Rightarrow> if c = CHR 0x5C then escape r else if of_char c < (32::nat) then None else Some ([c], r))"

lemma next_char_shorter: "next_char s = Some (out, r) \<Longrightarrow> length r < length s"
  by (auto simp: next_char_def escape_def unicode_escape_def hex4_def Let_def split: list.splits if_splits option.splits)

text \<open>A string after its opening quote: its contents and what follows the closing quote.\<close>

function lex_string :: "string \<Rightarrow> (string \<times> string) option" where
  "lex_string s =
     (case s of
        [] \<Rightarrow> None
      | c # r \<Rightarrow>
          if c = CHR 0x22 then Some ([], r)
          else case next_char s of
            None \<Rightarrow> None
          | Some (out, r) \<Rightarrow> (case lex_string r of None \<Rightarrow> None | Some (t, r) \<Rightarrow> Some (out @ t, r)))"
  by pat_completeness auto
termination by (relation "measure length") (auto dest: next_char_shorter)

declare lex_string.simps [simp del]

lemma lex_string_shorter: "lex_string s = Some (t, r) \<Longrightarrow> length r < length s"
proof (induction s arbitrary: t r rule: lex_string.induct)
  case (1 s)
  show ?case
  proof (cases s)
    case Nil
    with 1(2) show ?thesis by (simp add: lex_string.simps)
  next
    case (Cons c u)
    show ?thesis
    proof (cases "c = CHR 0x22")
      case True
      with 1(2) Cons show ?thesis by (subst (asm) lex_string.simps) simp
    next
      case False
      with 1(2) Cons obtain out r1 t1 where n: "next_char s = Some (out, r1)" "lex_string r1 = Some (t1, r)"
        by (subst (asm) lex_string.simps) (auto split: option.splits)
      with 1(1) [OF Cons False n(1) refl n(2)] next_char_shorter [OF n(1)] show ?thesis by simp
    qed
  qed
qed

section \<open>The lexer\<close>

text \<open>A number: no leading zeros, at least one digit around a point and in an exponent.\<close>

definition json_number :: "string \<Rightarrow> bool" where
  "json_number s =
     (let t = (if take 1 s = ''-'' then drop 1 s else s);
          ip = takeWhile (is_digit 10) t; r = dropWhile (is_digit 10) t;
          frac = (take 1 r = ''.'');
          fp = takeWhile (is_digit 10) (drop 1 r);
          r = (if frac then dropWhile (is_digit 10) (drop 1 r) else r);
          e = drop 1 r;
          e = (if take 1 e \<in> {''+'', ''-''} then drop 1 e else e)
      in ip \<noteq> [] \<and> (take 1 ip = ''0'' \<longrightarrow> length ip = 1) \<and> (frac \<longrightarrow> fp \<noteq> []) \<and>
         (r = [] \<or> take 1 r \<in> {''e'', ''E''} \<and> e \<noteq> [] \<and> list_all (is_digit 10) e))"

definition number_char :: "char \<Rightarrow> bool" where
  "number_char c \<longleftrightarrow> is_digit 10 c \<or> c \<in> {CHR ''.'', CHR ''e'', CHR ''E'', CHR ''+'', CHR ''-''}"

definition is_ws :: "char \<Rightarrow> bool" where
  "is_ws c \<longleftrightarrow> of_char c \<in> {9, 10, 13, 32 :: nat}"

definition punct :: "char \<Rightarrow> token option" where
  "punct c =
     (if c = CHR ''{'' then Some TLBrace else if c = CHR ''}'' then Some TRBrace
      else if c = CHR ''['' then Some TLBrack else if c = CHR '']'' then Some TRBrack
      else if c = CHR '':'' then Some TColon else if c = CHR '','' then Some TComma else None)"

text \<open>The next token of a text that does not start with white space.\<close>

definition next_token :: "string \<Rightarrow> (token \<times> string) option" where
  "next_token s =
     (case s of
        [] \<Rightarrow> None
      | c # r \<Rightarrow>
          (case punct c of
             Some t \<Rightarrow> Some (t, r)
           | None \<Rightarrow>
               if c = CHR 0x22
               then (case lex_string r of None \<Rightarrow> None | Some (t, r) \<Rightarrow> Some (TStr (utf8_fix t), r))
               else if take 4 s = ''true'' then Some (TLit (JBool True), drop 4 s)
               else if take 5 s = ''false'' then Some (TLit (JBool False), drop 5 s)
               else if take 4 s = ''null'' then Some (TLit JNull, drop 4 s)
               else let lit = takeWhile number_char s
                    in if json_number lit then Some (TLit (JNum lit), dropWhile number_char s) else None))"

lemma json_number_Nil [simp]: "\<not> json_number []"
  by (simp add: json_number_def)

lemma next_token_shorter: "next_token s = Some (t, r) \<Longrightarrow> length r < length s"
proof (cases s)
  case (Cons c u)
  have n: "length (dropWhile number_char s) < length s" if "json_number (takeWhile number_char s)"
  proof -
    have "takeWhile number_char s \<noteq> []" using that by auto
    moreover have "length s = length (takeWhile number_char s) + length (dropWhile number_char s)"
      by (metis length_append takeWhile_dropWhile_id)
    ultimately show ?thesis by simp
  qed
  assume "next_token s = Some (t, r)"
  with Cons n show ?thesis unfolding next_token_def
    by (auto simp: Let_def dest: lex_string_shorter split: option.splits if_splits)
qed (simp add: next_token_def)

function lex_json :: "string \<Rightarrow> token list option" where
  "lex_json s =
     (case s of
        [] \<Rightarrow> Some []
      | c # u \<Rightarrow>
          if is_ws c then lex_json u
          else case next_token s of
            None \<Rightarrow> None
          | Some (t, r) \<Rightarrow> (case lex_json r of None \<Rightarrow> None | Some ts \<Rightarrow> Some (t # ts)))"
  by pat_completeness auto
termination by (relation "measure length") (auto dest: next_token_shorter)

declare lex_json.simps [simp del]

section \<open>The parser\<close>

text \<open>
  The machine's stack holds the arrays and objects that are open, their contents reversed; nesting is
  limited to 10000.
\<close>

datatype frame = FArr "json list" | FObj "(string \<times> json) list" | FKey string "(string \<times> json) list"

datatype pstate =
    PValue "frame list" | PFirst "frame list" | PKey1 "frame list" | PKey "frame list"
  | PColon string "frame list" | PAfter "frame list" | PDone json

fun deliver :: "frame list \<Rightarrow> json \<Rightarrow> pstate option" where
  "deliver [] v = Some (PDone v)"
| "deliver (FArr xs # st) v = Some (PAfter (FArr (v # xs) # st))"
| "deliver (FKey k ms # st) v = Some (PAfter (FObj ((k, v) # ms) # st))"
| "deliver (FObj ms # st) v = None"

fun value_token :: "frame list \<Rightarrow> token \<Rightarrow> pstate option" where
  "value_token st (TLit j) = deliver st j"
| "value_token st (TStr s) = deliver st (JStr s)"
| "value_token st TLBrack = (if length st < 10000 then Some (PFirst (FArr [] # st)) else None)"
| "value_token st TLBrace = (if length st < 10000 then Some (PKey1 (FObj [] # st)) else None)"
| "value_token st _ = None"

fun close_arr :: "frame list \<Rightarrow> pstate option" where
  "close_arr (FArr xs # st) = deliver st (JArr (rev xs))"
| "close_arr _ = None"

fun close_obj :: "frame list \<Rightarrow> pstate option" where
  "close_obj (FObj ms # st) = deliver st (JObj (rev ms))"
| "close_obj _ = None"

fun after_comma :: "frame list \<Rightarrow> pstate option" where
  "after_comma (FArr xs # st) = Some (PValue (FArr xs # st))"
| "after_comma (FObj ms # st) = Some (PKey (FObj ms # st))"
| "after_comma _ = None"

fun after_colon :: "string \<Rightarrow> frame list \<Rightarrow> pstate option" where
  "after_colon k (FObj ms # st) = Some (PValue (FKey k ms # st))"
| "after_colon k _ = None"

fun key_token :: "frame list \<Rightarrow> token \<Rightarrow> pstate option" where
  "key_token st (TStr k) = Some (PColon k st)"
| "key_token st _ = None"

fun pstep :: "pstate \<Rightarrow> token \<Rightarrow> pstate option" where
  "pstep (PValue st) t = value_token st t"
| "pstep (PFirst st) t = (if t = TRBrack then close_arr st else value_token st t)"
| "pstep (PKey1 st) t = (if t = TRBrace then close_obj st else key_token st t)"
| "pstep (PKey st) t = key_token st t"
| "pstep (PColon k st) t = (if t = TColon then after_colon k st else None)"
| "pstep (PAfter st) t =
     (if t = TComma then after_comma st else if t = TRBrack then close_arr st
      else if t = TRBrace then close_obj st else None)"
| "pstep (PDone v) t = None"

fun psteps :: "pstate option \<Rightarrow> token list \<Rightarrow> pstate option" where
  "psteps s [] = s"
| "psteps None (t # ts) = None"
| "psteps (Some s) (t # ts) = psteps (pstep s t) ts"

definition parse_json :: "string \<Rightarrow> json option" where
  "parse_json s =
     (case lex_json s of
        None \<Rightarrow> None
      | Some ts \<Rightarrow> (case psteps (Some (PValue [])) ts of Some (PDone v) \<Rightarrow> Some v | _ \<Rightarrow> None))"

section \<open>The printer\<close>

definition short_escape :: "nat \<Rightarrow> char option" where
  "short_escape n = map_of [(8, CHR ''b''), (9, CHR ''t''), (10, CHR ''n''), (12, CHR ''f''), (13, CHR ''r''),
     (34, CHR 0x22), (92, CHR 0x5C)] n"

definition hex_escape :: "nat \<Rightarrow> string" where
  "hex_escape n = [CHR 0x5C, CHR ''u''] @ map (\<lambda>k. hex_digit (n div 16 ^ k mod 16)) [3, 2, 1, 0]"

definition ascii_escape :: "char \<Rightarrow> string" where
  "ascii_escape c =
     (let n = of_char c
      in case short_escape n of
           Some e \<Rightarrow> [CHR 0x5C, e]
         | None \<Rightarrow> if n < 32 \<or> n \<in> {38, 60, 62} then hex_escape n else [c])"

function quote_body :: "string \<Rightarrow> string" where
  "quote_body [] = []"
| "quote_body (c # s) =
     (let n = utf8_len (c # s)
      in if n = 0 then hex_escape 0xFFFD @ quote_body s
         else if n = 1 then ascii_escape c @ quote_body s
         else (if take n (c # s) = utf8 0x2028 then hex_escape 0x2028
               else if take n (c # s) = utf8 0x2029 then hex_escape 0x2029
               else take n (c # s)) @ quote_body (drop (n - 1) s))"
  by pat_completeness auto
termination by (relation "measure length") auto

definition quote :: "string \<Rightarrow> string" where
  "quote s = [CHR 0x22] @ quote_body s @ [CHR 0x22]"

fun commas :: "string list \<Rightarrow> string" where
  "commas [] = []"
| "commas [x] = x"
| "commas (x # y # xs) = x @ '','' @ commas (y # xs)"

fun print_json :: "json \<Rightarrow> string" where
  "print_json JNull = ''null''"
| "print_json (JBool b) = (if b then ''true'' else ''false'')"
| "print_json (JNum lit) = lit"
| "print_json (JStr s) = quote s"
| "print_json (JArr xs) = ''['' @ commas (map print_json xs) @ '']''"
| "print_json (JObj ms) = ''{'' @ commas (map (\<lambda>(k, v). quote k @ '':'' @ print_json v) ms) @ ''}''"

end
