(* ===== verification/Json_Laws.thy ===== *)
theory Json_Laws
  imports Json
begin

text \<open>
  Printing and parsing of JSON are inverse on the values the program writes: strings of ASCII
  characters, well-formed number literals, nesting within the limit.
\<close>

section \<open>Strings\<close>

definition ascii :: "string \<Rightarrow> bool" where
  "ascii s \<longleftrightarrow> list_all (\<lambda>c. of_char c < (128::nat)) s"

lemma utf8_len_ascii: "of_char c < (128::nat) \<Longrightarrow> utf8_len (c # s) = 1"
  by (simp add: utf8_len_def)

lemma utf8_fix_ascii: "ascii s \<Longrightarrow> utf8_fix s = s"
  by (induction s) (auto simp: ascii_def utf8_len_ascii)

lemma base_digit_hex: "d < 16 \<Longrightarrow> base_digit 16 (hex_digit d) = Some (int d)"
  using hex_digit_code [of d] by (auto simp: base_digit_def lower_char_def Let_def)

lemma hex4_escape:
  assumes "n < 65536"
  shows "hex4 (map (\<lambda>k. hex_digit (n div 16 ^ k mod 16)) [3, 2, 1, 0] @ t) = Some n"
proof -
  let ?h = "\<lambda>k. hex_digit (n div 16 ^ k mod 16)"
  have v: "(((n div 4096 mod 16) * 16 + n div 256 mod 16) * 16 + n div 16 mod 16) * 16 + n mod 16 = n"
  proof -
    have "n div 4096 mod 16 = n div 4096" using assms by simp
    moreover have "n div 4096 * 16 + n div 256 mod 16 = n div 256" "n div 256 * 16 + n div 16 mod 16 = n div 16"
      using div_mult_mod_eq [of "n div 256" 16] div_mult_mod_eq [of "n div 16" 16] by (simp_all flip: div_mult2_eq)
    ultimately show ?thesis by simp
  qed
  have "mantissa 16 0 (map ?h [3, 2, 1, 0]) =
      int ((((n div 4096 mod 16) * 16 + n div 256 mod 16) * 16 + n div 16 mod 16) * 16 + n mod 16)"
    by (simp add: base_digit_hex zdiv_int zmod_int)
  then have "mantissa 16 0 (map ?h [3, 2, 1, 0]) = int n" unfolding v .
  moreover have "list_all (is_digit 16) (map ?h [3, 2, 1, 0])" by (simp add: is_digit_def base_digit_hex)
  ultimately show ?thesis by (simp add: hex4_def)
qed

lemma next_char_escape:
  assumes "of_char c < (128::nat)"
  shows "next_char (ascii_escape c @ t) = Some ([c], t)"
proof -
  define n where "n = (of_char c :: nat)"
  have c: "c = byte n" by (simp add: n_def)
  have n: "n < 128" using assms by (simp add: n_def)
  consider (short) e where "short_escape n = Some e" | (hex) "short_escape n = None" "n < 32 \<or> n \<in> {38, 60, 62}"
    | (plain) "short_escape n = None" "\<not> (n < 32 \<or> n \<in> {38, 60, 62})" by (cases "short_escape n") auto
  then show ?thesis
  proof cases
    case short
    then have "(n, e) \<in> {(8, CHR ''b''), (9, CHR ''t''), (10, CHR ''n''), (12, CHR ''f''), (13, CHR ''r''),
        (34, CHR 0x22), (92, CHR 0x5C)}"
      by (auto simp: short_escape_def split: if_splits)
    moreover have "ascii_escape c = [CHR 0x5C, e]" using short by (simp add: ascii_escape_def n_def)
    moreover have "byte 34 = CHR 0x22" "byte 92 = CHR 0x5C"
      by (rule of_char_eqI [where ?'a = nat], simp)+
    ultimately show ?thesis unfolding c
      by (elim insertE emptyE Pair_inject) (simp_all add: next_char_def escape_def)
  next
    case hex
    have "ascii_escape c = hex_escape n" using hex by (simp add: ascii_escape_def flip: n_def)
    moreover have "unicode_escape (map (\<lambda>k. hex_digit (n div 16 ^ k mod 16)) [3, 2, 1, 0] @ t) = Some ([c], t)"
      unfolding unicode_escape_def using hex4_escape [of n t] n by (simp add: utf8_def c)
    ultimately show ?thesis by (simp add: hex_escape_def next_char_def escape_def)
  next
    case plain
    then have "ascii_escape c = [c]" by (simp add: ascii_escape_def flip: n_def)
    moreover have "c \<noteq> CHR 0x5C" using plain by (auto simp: n_def short_escape_def)
    ultimately show ?thesis using plain by (simp add: next_char_def flip: n_def)
  qed
qed

lemma ascii_escape_head:
  assumes "of_char c < (128::nat)"
  obtains d u where "ascii_escape c = d # u" "d \<noteq> CHR 0x22"
proof (cases "ascii_escape c = [c]")
  case True
  have "short_escape (of_char (CHR 0x22)) = Some (CHR 0x22)" by (simp add: short_escape_def)
  then have "c \<noteq> CHR 0x22" using True by (auto simp: ascii_escape_def)
  with True that show ?thesis by blast
next
  case False
  then have "\<exists>u. ascii_escape c = CHR 0x5C # u"
    by (auto simp: ascii_escape_def hex_escape_def Let_def split: option.splits if_splits)
  with that show ?thesis by fastforce
qed

lemma quote_body_ascii: "of_char c < (128::nat) \<Longrightarrow> quote_body (c # s) = ascii_escape c @ quote_body s"
  by (simp add: utf8_len_ascii)

lemma lex_string_quote: "ascii s \<Longrightarrow> lex_string (quote_body s @ CHR 0x22 # t) = Some (s, t)"
proof (induction s)
  case Nil
  then show ?case by (simp add: lex_string.simps)
next
  case (Cons c s)
  then have c: "of_char c < (128::nat)" and IH: "lex_string (quote_body s @ CHR 0x22 # t) = Some (s, t)"
    by (simp_all add: ascii_def)
  obtain d u where d: "ascii_escape c = d # u" "d \<noteq> CHR 0x22" using ascii_escape_head [OF c] .
  from next_char_escape [OF c, of "quote_body s @ CHR 0x22 # t"] IH d show ?case
    unfolding quote_body_ascii [OF c] by (subst lex_string.simps) simp
qed

section \<open>Tokens\<close>

fun tcommas :: "token list list \<Rightarrow> token list" where
  "tcommas [] = []"
| "tcommas (x # xs) = x @ concat (map ((#) TComma) xs)"

fun toks :: "json \<Rightarrow> token list" where
  "toks (JStr s) = [TStr s]"
| "toks (JArr xs) = TLBrack # tcommas (map toks xs) @ [TRBrack]"
| "toks (JObj ms) = TLBrace # tcommas (map (\<lambda>(k, v). TStr k # TColon # toks v) ms) @ [TRBrace]"
| "toks j = [TLit j]"

text \<open>Values that can be written, and that fit into the remaining nesting.\<close>

fun writable :: "nat \<Rightarrow> json \<Rightarrow> bool" where
  "writable n (JStr s) = ascii s"
| "writable n (JNum lit) = (json_number lit \<and> list_all number_char lit)"
| "writable n (JArr xs) = (0 < n \<and> (\<forall>x \<in> set xs. writable (n - 1) x))"
| "writable n (JObj ms) = (0 < n \<and> (\<forall>(k, v) \<in> set ms. ascii k \<and> writable (n - 1) v))"
| "writable n _ = True"

definition stops :: "string \<Rightarrow> bool" where
  "stops t \<longleftrightarrow> (case t of [] \<Rightarrow> True | c # _ \<Rightarrow> \<not> number_char c)"

lemma stops_simps [simp]: "stops []" "stops (CHR '','' # t)" "stops (CHR '']'' # t)" "stops (CHR ''}'' # t)" "stops (CHR '':'' # t)"
  by (simp_all add: stops_def number_char_def is_digit10_iff)

lemma number_char_head:
  assumes "number_char c"
  shows "punct c = None" "c \<noteq> CHR 0x22" "\<not> is_ws c" "c \<noteq> CHR ''t''" "c \<noteq> CHR ''f''" "c \<noteq> CHR ''n''"
  using assms by (auto simp: number_char_def punct_def is_ws_def is_digit10_iff)

lemma lex_token:
  assumes "next_token (c # s) = Some (t, r)" "\<not> is_ws c"
  shows "lex_json (c # s) = map_option ((#) t) (lex_json r)"
  using assms by (subst lex_json.simps) (auto split: option.splits)

lemma lex_punct:
  "lex_json (CHR ''{'' # s) = map_option ((#) TLBrace) (lex_json s)" "lex_json (CHR ''}'' # s) = map_option ((#) TRBrace) (lex_json s)"
  "lex_json (CHR ''['' # s) = map_option ((#) TLBrack) (lex_json s)" "lex_json (CHR '']'' # s) = map_option ((#) TRBrack) (lex_json s)"
  "lex_json (CHR '':'' # s) = map_option ((#) TColon) (lex_json s)" "lex_json (CHR '','' # s) = map_option ((#) TComma) (lex_json s)"
  by (rule lex_token; simp add: next_token_def punct_def is_ws_def)+

lemma lex_quote: "ascii s \<Longrightarrow> lex_json (quote s @ t) = map_option ((#) (TStr s)) (lex_json t)"
  unfolding quote_def using lex_string_quote [of s t]
  by (simp, intro lex_token) (simp_all add: next_token_def punct_def is_ws_def utf8_fix_ascii)

lemma lex_number:
  assumes "json_number lit" "list_all number_char lit" "stops t"
  shows "lex_json (lit @ t) = map_option ((#) (TLit (JNum lit))) (lex_json t)"
proof -
  obtain c u where l: "lit = c # u" using assms(1) by (cases lit) auto
  have tw: "takeWhile number_char (lit @ t) = lit" "dropWhile number_char (lit @ t) = t"
    using assms(2,3) by (auto simp: list_all_iff stops_def takeWhile_append2 dropWhile_append2 split: list.splits)
  have c: "number_char c" using assms(2) l by simp
  note h = number_char_head [OF c]
  have "next_token (lit @ t) = Some (TLit (JNum lit), t)"
    using assms(1) tw h l unfolding next_token_def by (simp add: Let_def)
  then show ?thesis using h l by (auto intro!: lex_token)
qed

lemma lex_words:
  "lex_json (CHR ''n'' # CHR ''u'' # CHR ''l'' # CHR ''l'' # t) = map_option ((#) (TLit JNull)) (lex_json t)"
  "lex_json ((if b then ''true'' else ''false'') @ t) = map_option ((#) (TLit (JBool b))) (lex_json t)"
  by (rule lex_token; simp add: next_token_def punct_def is_ws_def)
    (cases b; simp; intro lex_token; simp add: next_token_def punct_def is_ws_def)

lemma map_option_append_Nil [simp]: "map_option ((@) []) x = x"
  by (cases x) auto

lemma map_option_append_single: "map_option ((@) [a]) x = map_option ((#) a) x"
  by (cases x) auto

lemma commas_Cons: "commas (x # xs) = x @ concat (map ((@) '','') xs)"
  by (induction xs arbitrary: x) auto

lemma lex_commas:
  assumes "\<And>x s. x \<in> set xs \<Longrightarrow> stops s \<Longrightarrow> lex_json (f x @ s) = map_option ((@) (g x)) (lex_json s)" "stops t"
  shows "lex_json (commas (map f xs) @ t) = map_option ((@) (tcommas (map g xs))) (lex_json t)"
proof (cases xs)
  case (Cons x ys)
  have st: "stops (concat (map ((@) '','' \<circ> f) zs) @ t)" for zs using assms(2) by (cases zs) simp_all
  have "lex_json (concat (map ((@) '','' \<circ> f) zs) @ t) = map_option ((@) (concat (map ((#) TComma \<circ> g) zs))) (lex_json t)"
    if "set zs \<subseteq> set xs" for zs
    using that
  proof (induction zs)
    case (Cons z zs)
    then show ?case using assms(1) [of z, OF _ st [of zs]] 
      by (simp add: lex_punct option.map_comp comp_def)
  qed simp
  from this [of ys] assms(1) [of x, OF _ st [of ys]] Cons show ?thesis
    by (cases "lex_json t") (auto simp: commas_Cons comp_def)
qed simp

lemma lex_print: "writable n j \<Longrightarrow> stops t \<Longrightarrow> lex_json (print_json j @ t) = map_option ((@) (toks j)) (lex_json t)"
proof (induction j arbitrary: n t rule: toks.induct)
  case (1 s)
  then show ?case by (simp add: lex_quote)
next
  case (2 xs)
  have "lex_json (commas (map print_json xs) @ CHR '']'' # t) = map_option ((@) (tcommas (map toks xs))) (lex_json (CHR '']'' # t))"
    by (rule lex_commas) (use 2 in auto)
  then show ?case by (simp add: lex_punct option.map_comp comp_def)
next
  case (3 ms)
  have "lex_json (commas (map (\<lambda>(k, v). quote k @ '':'' @ print_json v) ms) @ CHR ''}'' # t) =
      map_option ((@) (tcommas (map (\<lambda>(k, v). TStr k # TColon # toks v) ms))) (lex_json (CHR ''}'' # t))"
  proof (rule lex_commas, goal_cases)
    case (1 x s)
    then obtain k v where x: "x = (k, v)" "(k, v) \<in> set ms" by (metis surj_pair)
    with 3(2) have "ascii k" "writable (n - 1) v" by auto
    with 3(1) [OF x(2) refl, of "n - 1" s] 1(2) show ?case
      by (cases "lex_json s") (simp_all add: x lex_quote lex_punct)
  qed simp
  then show ?case by (simp add: lex_punct option.map_comp comp_def)
qed (use lex_words lex_number in \<open>simp_all add: map_option_append_single\<close>)

section \<open>Parsing the tokens of a value\<close>

lemma psteps_None [simp]: "psteps None ts = None"
  by (cases ts) simp_all

lemma toks_head: "\<exists>t ts. toks j = t # ts \<and> t \<notin> {TRBrack, TRBrace, TComma, TColon}"
  by (cases j rule: toks.cases) auto

lemma parse_elements:
  assumes "\<And>y xs r. y \<in> set ys \<Longrightarrow> psteps (Some (PValue (FArr xs # st))) (toks y @ r) = psteps (Some (PAfter (FArr (y # xs) # st))) r"
  shows "psteps (Some (PAfter (FArr xs # st))) (concat (map ((#) TComma \<circ> toks) ys) @ TRBrack # rest) =
    psteps (deliver st (JArr (rev xs @ ys))) rest"
  using assms
proof (induction ys arbitrary: xs)
  case (Cons y ys)
  have "psteps (Some (PAfter (FArr xs # st))) (concat (map ((#) TComma \<circ> toks) (y # ys)) @ TRBrack # rest) =
      psteps (Some (PAfter (FArr (y # xs) # st))) (concat (map ((#) TComma \<circ> toks) ys) @ TRBrack # rest)"
    using Cons.prems [of y xs "concat (map ((#) TComma \<circ> toks) ys) @ TRBrack # rest"] by simp
  also have "\<dots> = psteps (deliver st (JArr (rev (y # xs) @ ys))) rest" by (rule Cons.IH) (simp add: Cons.prems)
  finally show ?case by (simp add: comp_def)
qed simp

lemma parse_members:
  assumes "\<And>k v ms r. (k, v) \<in> set ys \<Longrightarrow>
    psteps (Some (PValue (FKey k ms # st))) (toks v @ r) = psteps (Some (PAfter (FObj ((k, v) # ms) # st))) r"
  shows "psteps (Some (PAfter (FObj ms # st))) (concat (map ((#) TComma \<circ> (\<lambda>(k, v). TStr k # TColon # toks v)) ys) @ TRBrace # rest) =
    psteps (deliver st (JObj (rev ms @ ys))) rest"
  using assms
proof (induction ys arbitrary: ms)
  case (Cons y ys)
  obtain k v where y: "y = (k, v)" by force
  let ?t = "\<lambda>ys. concat (map ((#) TComma \<circ> (\<lambda>(k, v). TStr k # TColon # toks v)) ys) @ TRBrace # rest"
  have "psteps (Some (PAfter (FObj ms # st))) (?t (y # ys)) = psteps (Some (PAfter (FObj (y # ms) # st))) (?t ys)"
    using Cons.prems [of k v ms "?t ys"] by (simp add: y)
  also have "\<dots> = psteps (deliver st (JObj (rev (y # ms) @ ys))) rest" by (rule Cons.IH) (simp add: Cons.prems)
  finally show ?case by (simp add: comp_def)
qed simp

lemma parse_toks:
  "writable (10000 - length st) j \<Longrightarrow> psteps (Some (PValue st)) (toks j @ rest) = psteps (deliver st j) rest"
proof (induction j arbitrary: st rest rule: toks.induct)
  case (2 xs)
  have l: "length st < 10000" and w: "\<And>x. x \<in> set xs \<Longrightarrow> writable (10000 - length (f # st)) x" for f
    using 2(2) by auto
  have el: "psteps (Some (PValue (FArr ys # st))) (toks x @ r) = psteps (Some (PAfter (FArr (x # ys) # st))) r"
    if "x \<in> set xs" for x ys r using 2(1) [OF that w [OF that]] by simp
  show ?case
  proof (cases xs)
    case Nil
    then show ?thesis using l by simp
  next
    case (Cons y ys)
    obtain t ts where t: "toks y = t # ts" "t \<noteq> TRBrack" using toks_head [of y] by auto
    have "psteps (Some (PFirst (FArr [] # st))) (toks y @ r) = psteps (Some (PValue (FArr [] # st))) (toks y @ r)" for r
      using t by simp
    with parse_elements [of ys st "[y]" rest] el Cons l show ?thesis by (simp add: comp_def)
  qed
next
  case (3 ms)
  have l: "length st < 10000" and w: "\<And>k v. (k, v) \<in> set ms \<Longrightarrow> writable (10000 - length (f # st)) v" for f
    using 3(2) by auto
  have el: "psteps (Some (PValue (FKey k ys # st))) (toks v @ r) = psteps (Some (PAfter (FObj ((k, v) # ys) # st))) r"
    if "(k, v) \<in> set ms" for k v ys r using 3(1) [OF that refl w [OF that]] by simp
  show ?case
  proof (cases ms)
    case Nil
    then show ?thesis using l by simp
  next
    case (Cons y ys)
    obtain k v where y: "y = (k, v)" by force
    from parse_members [of ys st "[y]" rest] el [of k v] el Cons l y show ?thesis by (simp add: comp_def)
  qed
qed simp_all

text \<open>What is printed parses back to the same value.\<close>

lemma parse_print: "writable 10000 j \<Longrightarrow> parse_json (print_json j) = Some j"
  using lex_print [of 10000 j "[]"] parse_toks [of "[]" j "[]"]
  by (simp add: parse_json_def lex_json.simps)

section \<open>Numbers are written in the syntax of JSON\<close>

lemma show_nat_head: "0 < n \<Longrightarrow> \<exists>c t. show_nat n = c # t \<and> c \<noteq> CHR ''0''"
proof (induction n rule: show_nat.induct)
  case (1 n)
  show ?case
  proof (cases "n < 10")
    case True
    have "digit_char n = CHR ''0'' \<Longrightarrow> n = 0" using True digit_val_char [of n] by (auto simp: digit_val_def)
    then show ?thesis using True 1(2) by (auto simp: show_nat.simps)
  next
    case False
    then have "0 < n div 10" by (simp add: div_greater_zero_iff)
    with 1(1) [OF False] obtain c t where "show_nat (n div 10) = c # t" "c \<noteq> CHR ''0''" by blast
    with False show ?thesis by (subst show_nat.simps) simp
  qed
qed

lemma digit_not_sign: "is_digit 10 c \<Longrightarrow> c \<noteq> CHR ''-'' \<and> c \<noteq> CHR ''+''"
  by (auto simp: is_digit10_iff)

lemma json_number_format_f:
  assumes ds: "list_all (is_digit 10) ds" "ds = c # u" "c \<noteq> CHR ''0''"
  shows "json_number (format_f ds dp)"
proof -
  have z: "list_all (is_digit 10) (replicate k (CHR ''0''))" for k by (induction k) auto
  have c: "is_digit 10 c" using ds by simp
  consider (small) "dp \<le> 0" | (large) "0 < dp" "len ds \<le> dp" | (mid) "0 < dp" "dp < len ds" by linarith
  then show ?thesis
  proof cases
    case small
    let ?r = "replicate (nat (- dp)) (CHR ''0'') @ ds"
    have f: "format_f ds dp = ''0'' @ (CHR ''.'' # ?r)" using small by (simp add: format_f_def)
    have "takeWhile (is_digit 10) (format_f ds dp) = ''0''" "dropWhile (is_digit 10) (format_f ds dp) = CHR ''.'' # ?r"
      unfolding f by (rule takeWhile_digits; simp)+
    moreover have "takeWhile (is_digit 10) ?r = ?r" "dropWhile (is_digit 10) ?r = []" "?r \<noteq> []"
      using takeWhile_digits [of ?r "[]"] ds z by simp_all
    moreover have "take 1 (format_f ds dp) = ''0''" by (simp add: f)
    ultimately show ?thesis unfolding json_number_def Let_def
      by (simp del: takeWhile_eq_all_conv dropWhile_eq_Nil_conv)
  next
    case large
    let ?s = "ds @ replicate (nat (dp - len ds)) (CHR ''0'')"
    have f: "format_f ds dp = ?s" using large by (simp add: format_f_def)
    have "takeWhile (is_digit 10) ?s = ?s" "dropWhile (is_digit 10) ?s = []"
      using takeWhile_digits [of ?s "[]"] ds(1) z by simp_all
    then show ?thesis using ds digit_not_sign [OF c] unfolding f json_number_def by (simp add: Let_def)
  next
    case mid
    let ?a = "take (nat dp) ds" and ?b = "drop (nat dp) ds"
    have f: "format_f ds dp = ?a @ (CHR ''.'' # ?b)" using mid by (simp add: format_f_def)
    have ab: "list_all (is_digit 10) ?a" "list_all (is_digit 10) ?b"
      using ds(1) by (auto simp: list_all_iff dest: in_set_takeD in_set_dropD)
    have t: "takeWhile (is_digit 10) (format_f ds dp) = ?a" "dropWhile (is_digit 10) (format_f ds dp) = CHR ''.'' # ?b"
      unfolding f by (rule takeWhile_digits; use ab(1) in simp)+
    have b: "takeWhile (is_digit 10) ?b = ?b" "dropWhile (is_digit 10) ?b = []" "?b \<noteq> []"
      using takeWhile_digits [of ?b "[]"] ab(2) mid by (simp_all add: len_def)
    obtain w where w: "?a = c # w" using mid ds(2) by (cases "nat dp") auto
    have s: "take 1 (format_f ds dp) = [c]" "drop 0 (format_f ds dp) = format_f ds dp" unfolding f w by simp_all
    show ?thesis unfolding json_number_def Let_def s using t b w ds(3) digit_not_sign [OF c]
      by (simp del: takeWhile_eq_all_conv dropWhile_eq_Nil_conv)
  qed
qed

lemma json_number_format_e:
  assumes ds: "list_all (is_digit 10) ds" "ds = c # u" "c \<noteq> CHR ''0''"
  shows "json_number (format_e ds dp)"
proof -
  have c: "is_digit 10 c" "list_all (is_digit 10) u" using ds by simp_all
  define e where "e = show_nat (nat \<bar>dp - 1\<bar>)"
  obtain sg where sg: "(if dp - 1 < 0 then ''-'' @ show_int (1 - dp) else ''+'' @ show_int (dp - 1)) = sg # e"
      "sg \<in> {CHR ''-'', CHR ''+''}"
    by (cases "dp - 1 < 0") (auto simp: e_def show_int_def)
  have e: "e \<noteq> []" "list_all (is_digit 10) e" by (simp_all add: e_def digits_list)
  show ?thesis
  proof (cases "u = []")
    case True
    have f: "format_e ds dp = [c] @ (CHR ''e'' # sg # e)" using sg(1) ds(2) True by (simp add: format_e_def len_def)
    have t: "takeWhile (is_digit 10) (format_e ds dp) = [c]" "dropWhile (is_digit 10) (format_e ds dp) = CHR ''e'' # sg # e"
      unfolding f by (rule takeWhile_digits; use c in simp)+
    have "take 1 (format_e ds dp) = [c]" by (simp add: f)
    then show ?thesis unfolding json_number_def Let_def using t e sg(2) ds(3) digit_not_sign [OF c(1)] by auto
  next
    case False
    have f: "format_e ds dp = [c] @ (CHR ''.'' # u @ CHR ''e'' # sg # e)"
      using sg(1) ds(2) False by (simp add: format_e_def len_def)
    have t: "takeWhile (is_digit 10) (format_e ds dp) = [c]"
        "dropWhile (is_digit 10) (format_e ds dp) = CHR ''.'' # u @ CHR ''e'' # sg # e"
      unfolding f by (rule takeWhile_digits; use c in simp)+
    have b: "takeWhile (is_digit 10) (u @ CHR ''e'' # sg # e) = u"
        "dropWhile (is_digit 10) (u @ CHR ''e'' # sg # e) = CHR ''e'' # sg # e"
      by (rule takeWhile_digits; use c in simp)+
    have "take 1 (format_e ds dp) = [c]" by (simp add: f)
    then show ?thesis unfolding json_number_def Let_def using t b e sg(2) ds(3) False digit_not_sign [OF c(1)] by auto
  qed
qed

lemma json_number_minus: "json_number s \<Longrightarrow> take 1 s \<noteq> ''-'' \<Longrightarrow> json_number (''-'' @ s)"
  by (simp add: json_number_def)

lemma float_digits_number:
  assumes "0 \<le> m" "rmag m = m"
  shows "json_number (float_digits m)"
proof (cases "m = 0")
  case True
  then show ?thesis by (simp add: float_digits_def json_number_def)
next
  case False
  with assms have m: "0 < m" by simp
  obtain d x where d: "0 < d" "float_digits m \<in> {format_f (show_nat (nat d)) (len (show_int d) + x), format_e (show_nat (nat d)) (len (show_int d) + x)}"
    using float_digits_cases [OF m assms(2)] by metis
  obtain c u where c: "show_nat (nat d) = c # u" "c \<noteq> CHR ''0''" using show_nat_head [of "nat d"] d(1) by auto
  from d(2) json_number_format_f [OF digits_list c] json_number_format_e [OF digits_list c] show ?thesis by auto
qed

lemma json_float_writable:
  assumes "json_float v = Some s"
  shows "writable n (JNum s)"
proof -
  obtain b m where v: "v = Fin b m" and s: "s = (if b then ''-'' else []) @ float_digits m"
    and m: "0 \<le> m" "rmag m = m"
    using assms by (cases v) (auto split: if_splits)
  obtain c t where c: "float_digits m = c # t" "is_digit 10 c" "list_all num_char (float_digits m)"
    using float_digits_chars [OF m] by auto
  have "list_all number_char (float_digits m)" using c(3) by (auto simp: list_all_iff num_char_def number_char_def)
  moreover have "take 1 (float_digits m) \<noteq> ''-''" using c digit_not_sign by auto
  moreover have "number_char (CHR ''-'')" by (simp add: number_char_def)
  ultimately show ?thesis using float_digits_number [OF m] json_number_minus by (simp add: s)
qed

end
