(* ===== verification/Result_Codec.thy ===== *)
theory Result_Codec
  imports Query_Laws Json_Laws
begin

text \<open>
  \<^verbatim>\<open>json.Marshal\<close> and \<^verbatim>\<open>json.Unmarshal\<close> on Go values: encoding by kind, decoding into the fields of a struct.
  The two codecs of the cached results are built from them, and decode what they encode.
\<close>

section \<open>Encoding\<close>

text \<open>
  The kinds of value the program encodes. A struct keeps the order of its fields; a map
  (\<^verbatim>\<open>gin.H\<close>) is written in the order of its keys.
\<close>

datatype goval =
    GNil | GInt int | GFloat float64 | GString string | GTime time
  | GSlice "goval list" | GStruct "(string \<times> goval) list" | GMap "(string \<times> goval) list"

fun seq_ret :: "'a ret list \<Rightarrow> 'a list ret" where
  "seq_ret [] = Inr []"
| "seq_ret (Inl e # rs) = Inl e"
| "seq_ret (Inr x # rs) = (case seq_ret rs of Inl e \<Rightarrow> Inl e | Inr xs \<Rightarrow> Inr (x # xs))"

definition unsupported :: gerror where
  "unsupported = Foreign ''json: unsupported value''"

fun json_of :: "goval \<Rightarrow> json ret" where
  "json_of GNil = Inr JNull"
| "json_of (GInt n) = Inr (JNum (show_int n))"
| "json_of (GFloat v) = (case json_float v of None \<Rightarrow> Inl unsupported | Some s \<Rightarrow> Inr (JNum s))"
| "json_of (GString s) = Inr (JStr s)"
| "json_of (GTime t) = (case rfc3339 t of None \<Rightarrow> Inl unsupported | Some s \<Rightarrow> Inr (JStr s))"
| "json_of (GSlice xs) = (case seq_ret (map json_of xs) of Inl e \<Rightarrow> Inl e | Inr js \<Rightarrow> Inr (JArr js))"
| "json_of (GStruct fs) =
     (case seq_ret (map (\<lambda>(k, v). json_of v) fs) of Inl e \<Rightarrow> Inl e | Inr js \<Rightarrow> Inr (JObj (zip (map fst fs) js)))"
| "json_of (GMap ms) =
     (case seq_ret (map (\<lambda>(k, v). json_of v) ms) of
        Inl e \<Rightarrow> Inl e | Inr js \<Rightarrow> Inr (JObj (sort_key fst (zip (map fst ms) js))))"

definition json_Marshal :: "goval \<Rightarrow> string ret" where
  "json_Marshal v = (case json_of v of Inl e \<Rightarrow> Inl e | Inr j \<Rightarrow> Inr (print_json j))"

definition ptr :: "float64 option \<Rightarrow> goval" where
  "ptr p = (case p of None \<Rightarrow> GNil | Some v \<Rightarrow> GFloat v)"

section \<open>Decoding\<close>

text \<open>
  A decoder takes the value found and the current contents of its target, and returns the new contents
  and whether the types matched; a mismatch makes the whole call fail, after the rest was decoded.
  \<^verbatim>\<open>null\<close> leaves a string, a number, a struct or a time as it is and clears a pointer.
\<close>

type_synonym 'a decoder = "json \<Rightarrow> 'a \<Rightarrow> 'a \<times> bool"

definition dec_string :: "string decoder" where
  "dec_string j old = (case j of JStr s \<Rightarrow> (s, True) | JNull \<Rightarrow> (old, True) | _ \<Rightarrow> (old, False))"

definition dec_float :: "float64 decoder" where
  "dec_float j old =
     (case j of
        JNum s \<Rightarrow> (case ParseFloat s of Some v \<Rightarrow> (v, True) | None \<Rightarrow> (old, False))
      | JNull \<Rightarrow> (old, True) | _ \<Rightarrow> (old, False))"

definition dec_ptr :: "float64 option decoder" where
  "dec_ptr j old =
     (case j of
        JNum s \<Rightarrow> (case ParseFloat s of Some v \<Rightarrow> (Some v, True) | None \<Rightarrow> (old, False))
      | JNull \<Rightarrow> (None, True) | _ \<Rightarrow> (old, False))"

definition dec_time :: "time decoder" where
  "dec_time j old =
     (case j of
        JStr s \<Rightarrow> (case parse_rfc3339 s of Some t \<Rightarrow> (t, True) | None \<Rightarrow> (old, False))
      | JNull \<Rightarrow> (old, True) | _ \<Rightarrow> (old, False))"

text \<open>
  Names of fields match exactly or, failing that, up to case; the characters outside ASCII whose case
  folds into it are the long s and the Kelvin sign.
\<close>

fun fold_name :: "string \<Rightarrow> string" where
  "fold_name [] = []"
| "fold_name (c # s) =
     (if c = byte 0xC5 \<and> take 1 s = [byte 0xBF] then CHR ''S'' # fold_name (drop 1 s)
      else if c = byte 0xE2 \<and> take 2 s = [byte 0x84, byte 0xAA] then CHR ''K'' # fold_name (drop 2 s)
      else upper_char c # fold_name s)"

definition find_field :: "(string \<times> 'a decoder) list \<Rightarrow> string \<Rightarrow> 'a decoder option" where
  "find_field flds k =
     (case map_of flds k of
        Some f \<Rightarrow> Some f
      | None \<Rightarrow> map_option snd (find (\<lambda>(n, f). fold_name n = fold_name k) flds))"

definition dec_member :: "(string \<times> 'a decoder) list \<Rightarrow> 'a \<times> bool \<Rightarrow> string \<times> json \<Rightarrow> 'a \<times> bool" where
  "dec_member flds st kv =
     (case find_field flds (fst kv) of
        None \<Rightarrow> st
      | Some f \<Rightarrow> (let (v, ok) = f (snd kv) (fst st) in (v, snd st \<and> ok)))"

definition dec_struct :: "(string \<times> 'a decoder) list \<Rightarrow> 'a decoder" where
  "dec_struct flds j old =
     (case j of
        JObj ms \<Rightarrow> foldl (dec_member flds) (old, True) ms
      | JNull \<Rightarrow> (old, True) | _ \<Rightarrow> (old, False))"

definition field :: "('s \<Rightarrow> 'a) \<Rightarrow> ('a \<Rightarrow> 's \<Rightarrow> 's) \<Rightarrow> 'a decoder \<Rightarrow> 's decoder" where
  "field get put dec j s = (let (v, ok) = dec j (get s) in (put v s, ok))"

definition json_Unmarshal :: "'a decoder \<Rightarrow> 'a \<Rightarrow> string \<Rightarrow> 'a ret" where
  "json_Unmarshal dec old data =
     (case parse_json data of
        None \<Rightarrow> Inl (Foreign ''json: syntax error'')
      | Some j \<Rightarrow> (let (v, ok) = dec j old in if ok then Inr v else Inl (Foreign ''json: cannot unmarshal'')))"

section \<open>The cached results\<close>

definition metrics_val :: "AnalyticsMetrics \<Rightarrow> goval" where
  "metrics_val m = GStruct
     [(''PERatio'', ptr (m_PERatio m)), (''PriceToBook'', ptr (m_PriceToBook m)), (''ROE'', ptr (m_ROE m)),
      (''ROA'', ptr (m_ROA m)), (''NetMargin'', ptr (m_NetMargin m)), (''CurrentRatio'', ptr (m_CurrentRatio m)),
      (''DebtToEquity'', ptr (m_DebtToEquity m)), (''RevenueGrowth'', ptr (m_RevenueGrowth m)),
      (''EarningsGrowth'', ptr (m_EarningsGrowth m))]"

definition analytics_val :: "AnalyticsResult \<Rightarrow> goval" where
  "analytics_val r = GStruct
     [(''Symbol'', GString (ar_Symbol r)), (''Price'', GFloat (ar_Price r)), (''Metrics'', metrics_val (ar_Metrics r))]"

definition metrics_fields :: "(string \<times> AnalyticsMetrics decoder) list" where
  "metrics_fields =
     [(''PERatio'', field m_PERatio (\<lambda>v. m_PERatio_update (\<lambda>_. v)) dec_ptr),
      (''PriceToBook'', field m_PriceToBook (\<lambda>v. m_PriceToBook_update (\<lambda>_. v)) dec_ptr),
      (''ROE'', field m_ROE (\<lambda>v. m_ROE_update (\<lambda>_. v)) dec_ptr),
      (''ROA'', field m_ROA (\<lambda>v. m_ROA_update (\<lambda>_. v)) dec_ptr),
      (''NetMargin'', field m_NetMargin (\<lambda>v. m_NetMargin_update (\<lambda>_. v)) dec_ptr),
      (''CurrentRatio'', field m_CurrentRatio (\<lambda>v. m_CurrentRatio_update (\<lambda>_. v)) dec_ptr),
      (''DebtToEquity'', field m_DebtToEquity (\<lambda>v. m_DebtToEquity_update (\<lambda>_. v)) dec_ptr),
      (''RevenueGrowth'', field m_RevenueGrowth (\<lambda>v. m_RevenueGrowth_update (\<lambda>_. v)) dec_ptr),
      (''EarningsGrowth'', field m_EarningsGrowth (\<lambda>v. m_EarningsGrowth_update (\<lambda>_. v)) dec_ptr)]"

definition analytics_fields :: "(string \<times> AnalyticsResult decoder) list" where
  "analytics_fields =
     [(''Symbol'', field ar_Symbol (\<lambda>v. ar_Symbol_update (\<lambda>_. v)) dec_string),
      (''Price'', field ar_Price (\<lambda>v. ar_Price_update (\<lambda>_. v)) dec_float),
      (''Metrics'', field ar_Metrics (\<lambda>v. ar_Metrics_update (\<lambda>_. v)) (dec_struct metrics_fields))]"

definition zero_metrics :: AnalyticsMetrics where
  "zero_metrics = \<lparr>m_PERatio = None, m_PriceToBook = None, m_ROE = None, m_ROA = None, m_NetMargin = None,
     m_CurrentRatio = None, m_DebtToEquity = None, m_RevenueGrowth = None, m_EarningsGrowth = None\<rparr>"

definition zero_analytics :: AnalyticsResult where
  "zero_analytics = \<lparr>ar_Symbol = [], ar_Price = 0, ar_Metrics = zero_metrics\<rparr>"

definition analytics_codec :: "AnalyticsResult Codec" where
  "analytics_codec = \<lparr>Marshal = (\<lambda>r. json_Marshal (analytics_val r)),
     Unmarshal = json_Unmarshal (dec_struct analytics_fields) zero_analytics\<rparr>"

definition values_val :: "TechnicalValues \<Rightarrow> goval" where
  "values_val v = GStruct
     [(''DailyReturn'', ptr (tv_DailyReturn v)), (''SMA20'', ptr (tv_SMA20 v)), (''SMA50'', ptr (tv_SMA50 v)),
      (''SMA200'', ptr (tv_SMA200 v)), (''EMA20'', ptr (tv_EMA20 v)), (''RSI14'', ptr (tv_RSI14 v)),
      (''Volatility20'', ptr (tv_Volatility20 v)), (''AverageVolume20'', ptr (tv_AverageVolume20 v))]"

definition technical_val :: "TechnicalResult \<Rightarrow> goval" where
  "technical_val r = GStruct
     [(''Symbol'', GString (tr_Symbol r)), (''LastDate'', GTime (tr_LastDate r)), (''Values'', values_val (tr_Values r))]"

definition values_fields :: "(string \<times> TechnicalValues decoder) list" where
  "values_fields =
     [(''DailyReturn'', field tv_DailyReturn (\<lambda>v. tv_DailyReturn_update (\<lambda>_. v)) dec_ptr),
      (''SMA20'', field tv_SMA20 (\<lambda>v. tv_SMA20_update (\<lambda>_. v)) dec_ptr),
      (''SMA50'', field tv_SMA50 (\<lambda>v. tv_SMA50_update (\<lambda>_. v)) dec_ptr),
      (''SMA200'', field tv_SMA200 (\<lambda>v. tv_SMA200_update (\<lambda>_. v)) dec_ptr),
      (''EMA20'', field tv_EMA20 (\<lambda>v. tv_EMA20_update (\<lambda>_. v)) dec_ptr),
      (''RSI14'', field tv_RSI14 (\<lambda>v. tv_RSI14_update (\<lambda>_. v)) dec_ptr),
      (''Volatility20'', field tv_Volatility20 (\<lambda>v. tv_Volatility20_update (\<lambda>_. v)) dec_ptr),
      (''AverageVolume20'', field tv_AverageVolume20 (\<lambda>v. tv_AverageVolume20_update (\<lambda>_. v)) dec_ptr)]"

definition technical_fields :: "(string \<times> TechnicalResult decoder) list" where
  "technical_fields =
     [(''Symbol'', field tr_Symbol (\<lambda>v. tr_Symbol_update (\<lambda>_. v)) dec_string),
      (''LastDate'', field tr_LastDate (\<lambda>v. tr_LastDate_update (\<lambda>_. v)) dec_time),
      (''Values'', field tr_Values (\<lambda>v. tr_Values_update (\<lambda>_. v)) (dec_struct values_fields))]"

definition zero_values :: TechnicalValues where
  "zero_values = \<lparr>tv_DailyReturn = None, tv_SMA20 = None, tv_SMA50 = None, tv_SMA200 = None, tv_EMA20 = None,
     tv_RSI14 = None, tv_Volatility20 = None, tv_AverageVolume20 = None\<rparr>"

definition zero_technical :: TechnicalResult where
  "zero_technical = \<lparr>tr_Symbol = [], tr_LastDate = 0, tr_Values = zero_values\<rparr>"

definition technical_codec :: "TechnicalResult Codec" where
  "technical_codec = \<lparr>Marshal = (\<lambda>r. json_Marshal (technical_val r)),
     Unmarshal = json_Unmarshal (dec_struct technical_fields) zero_technical\<rparr>"

section \<open>The codecs decode what they encode\<close>

lemma json_ptr:
  assumes "json_of (ptr p) = Inr j"
  shows "writable n j" "dec_ptr j old = (p, True)"
proof -
  have "writable n j \<and> dec_ptr j old = (p, True)"
  proof (cases p)
    case None
    with assms show ?thesis by (auto simp: ptr_def dec_ptr_def)
  next
    case (Some v)
    with assms obtain s where "json_float v = Some s" "j = JNum s" by (auto simp: ptr_def split: option.splits)
    with json_float_roundtrip [of v s] json_float_writable [of v s n] Some show ?thesis by (simp add: dec_ptr_def)
  qed
  then show "writable n j" "dec_ptr j old = (p, True)" by auto
qed

lemma json_GFloat:
  assumes "json_of (GFloat v) = Inr j"
  shows "writable n j" "dec_float j old = (v, True)"
  using assms json_float_roundtrip [of v] json_float_writable [of v _ n]
  by (auto simp: dec_float_def split: option.splits)

lemma seq_ret_Cons_Inr: "seq_ret (r # rs) = Inr xs \<longleftrightarrow> (\<exists>y ys. r = Inr y \<and> seq_ret rs = Inr ys \<and> xs = y # ys)"
  by (cases r) (auto split: sum.splits)

lemma dec_member_hit:
  "map_of flds k = Some f \<Longrightarrow> f j s = (s', True) \<Longrightarrow> dec_member flds (s, True) (k, j) = (s', True)"
  by (simp add: dec_member_def find_field_def)

lemma metrics_roundtrip:
  assumes "json_of (metrics_val m) = Inr j" "1 \<le> n"
  shows "writable n j" "dec_struct metrics_fields j zero_metrics = (m, True)"
proof -
  obtain j1 j2 j3 j4 j5 j6 j7 j8 j9 where
    1: "json_of (ptr (m_PERatio m)) = Inr j1" "json_of (ptr (m_PriceToBook m)) = Inr j2" "json_of (ptr (m_ROE m)) = Inr j3"
      "json_of (ptr (m_ROA m)) = Inr j4" "json_of (ptr (m_NetMargin m)) = Inr j5" "json_of (ptr (m_CurrentRatio m)) = Inr j6"
      "json_of (ptr (m_DebtToEquity m)) = Inr j7" "json_of (ptr (m_RevenueGrowth m)) = Inr j8"
      "json_of (ptr (m_EarningsGrowth m)) = Inr j9"
    and j: "j = JObj [(''PERatio'', j1), (''PriceToBook'', j2), (''ROE'', j3), (''ROA'', j4), (''NetMargin'', j5),
      (''CurrentRatio'', j6), (''DebtToEquity'', j7), (''RevenueGrowth'', j8), (''EarningsGrowth'', j9)]"
    using assms(1) unfolding metrics_val_def
    by (auto simp: seq_ret_Cons_Inr split: sum.splits)
  show "writable n j" using json_ptr(1) [OF 1(1)] json_ptr(1) [OF 1(2)] json_ptr(1) [OF 1(3)] json_ptr(1) [OF 1(4)]
      json_ptr(1) [OF 1(5)] json_ptr(1) [OF 1(6)] json_ptr(1) [OF 1(7)] json_ptr(1) [OF 1(8)] json_ptr(1) [OF 1(9)] assms(2)
    by (simp add: j ascii_def)
  show "dec_struct metrics_fields j zero_metrics = (m, True)"
    unfolding dec_struct_def j json.case foldl.simps
    by (simp add: dec_member_hit metrics_fields_def field_def json_ptr(2) [OF 1(1)] json_ptr(2) [OF 1(2)]
        json_ptr(2) [OF 1(3)] json_ptr(2) [OF 1(4)] json_ptr(2) [OF 1(5)] json_ptr(2) [OF 1(6)] json_ptr(2) [OF 1(7)]
        json_ptr(2) [OF 1(8)] json_ptr(2) [OF 1(9)] zero_metrics_def)
qed

lemma values_roundtrip:
  assumes "json_of (values_val v) = Inr j" "1 \<le> n"
  shows "writable n j" "dec_struct values_fields j zero_values = (v, True)"
proof -
  obtain j1 j2 j3 j4 j5 j6 j7 j8 where
    1: "json_of (ptr (tv_DailyReturn v)) = Inr j1" "json_of (ptr (tv_SMA20 v)) = Inr j2" "json_of (ptr (tv_SMA50 v)) = Inr j3"
      "json_of (ptr (tv_SMA200 v)) = Inr j4" "json_of (ptr (tv_EMA20 v)) = Inr j5" "json_of (ptr (tv_RSI14 v)) = Inr j6"
      "json_of (ptr (tv_Volatility20 v)) = Inr j7" "json_of (ptr (tv_AverageVolume20 v)) = Inr j8"
    and j: "j = JObj [(''DailyReturn'', j1), (''SMA20'', j2), (''SMA50'', j3), (''SMA200'', j4), (''EMA20'', j5),
      (''RSI14'', j6), (''Volatility20'', j7), (''AverageVolume20'', j8)]"
    using assms(1) unfolding values_val_def
    by (auto simp: seq_ret_Cons_Inr split: sum.splits)
  show "writable n j" using json_ptr(1) [OF 1(1)] json_ptr(1) [OF 1(2)] json_ptr(1) [OF 1(3)] json_ptr(1) [OF 1(4)]
      json_ptr(1) [OF 1(5)] json_ptr(1) [OF 1(6)] json_ptr(1) [OF 1(7)] json_ptr(1) [OF 1(8)] assms(2)
    by (simp add: j ascii_def)
  show "dec_struct values_fields j zero_values = (v, True)"
    unfolding dec_struct_def j json.case foldl.simps
    by (simp add: dec_member_hit values_fields_def field_def json_ptr(2) [OF 1(1)] json_ptr(2) [OF 1(2)]
        json_ptr(2) [OF 1(3)] json_ptr(2) [OF 1(4)] json_ptr(2) [OF 1(5)] json_ptr(2) [OF 1(6)] json_ptr(2) [OF 1(7)]
        json_ptr(2) [OF 1(8)] zero_values_def)
qed

lemma analytics_roundtrip:
  assumes "ascii (ar_Symbol r)" "Marshal analytics_codec r = Inr d"
  shows "Unmarshal analytics_codec d = Inr r"
proof -
  obtain jp jm where jp: "json_of (GFloat (ar_Price r)) = Inr jp" and jm: "json_of (metrics_val (ar_Metrics r)) = Inr jm"
    and d: "d = print_json (JObj [(''Symbol'', JStr (ar_Symbol r)), (''Price'', jp), (''Metrics'', jm)])"
    using assms(2) unfolding analytics_codec_def json_Marshal_def analytics_val_def
    by (auto simp: seq_ret_Cons_Inr simp del: json_of.simps(3) split: sum.splits)
  let ?j = "JObj [(''Symbol'', JStr (ar_Symbol r)), (''Price'', jp), (''Metrics'', jm)]"
  have "writable 10000 ?j"
    using assms(1) json_GFloat(1) [OF jp] metrics_roundtrip(1) [OF jm] by (simp add: ascii_def)
  then have p: "parse_json d = Some ?j" unfolding d by (rule parse_print)
  have "dec_struct analytics_fields ?j zero_analytics = (r, True)"
    unfolding dec_struct_def json.case foldl.simps
    by (simp add: dec_member_hit analytics_fields_def field_def dec_string_def json_GFloat(2) [OF jp]
        metrics_roundtrip(2) [OF jm order.refl] zero_analytics_def)
  with p show ?thesis by (simp add: analytics_codec_def json_Unmarshal_def)
qed

lemma pad_ascii: "ascii (pad w n)"
proof -
  have "ascii (show_nat n)" for n
    using show_nat_is_digit [of _ n] by (fastforce simp: ascii_def list_all_iff is_digit10_iff)
  moreover have "ascii (replicate k (CHR ''0''))" for k by (simp add: ascii_def list_all_iff)
  ultimately show ?thesis by (simp add: pad_def Let_def ascii_def)
qed

lemma dateFormat_ascii: "ascii (dateFormat t)"
  using pad_ascii by (cases "civil t") (simp add: dateFormat_def ascii_def)

lemma rfc3339_ascii:
  assumes "rfc3339 t = Some s"
  shows "ascii s"
proof -
  have t: "ascii (trim_frac x)" if "ascii x" for x
    using that by (auto simp: trim_frac_def ascii_def list_all_iff dest: set_dropWhileD)
  show ?thesis
    using assms pad_ascii t [OF pad_ascii] dateFormat_ascii [of t] by (auto simp: rfc3339_def Let_def ascii_def split: if_splits)
qed

lemma json_GTime:
  assumes "json_of (GTime t) = Inr j"
  shows "writable n j" "dec_time j old = (t, True)"
  using assms rfc3339_roundtrip [of t] rfc3339_ascii [of t] by (auto simp: dec_time_def split: option.splits)

lemma technical_roundtrip:
  assumes "ascii (tr_Symbol r)" "Marshal technical_codec r = Inr d"
  shows "Unmarshal technical_codec d = Inr r"
proof -
  obtain jt jv where jt: "json_of (GTime (tr_LastDate r)) = Inr jt" and jv: "json_of (values_val (tr_Values r)) = Inr jv"
    and d: "d = print_json (JObj [(''Symbol'', JStr (tr_Symbol r)), (''LastDate'', jt), (''Values'', jv)])"
    using assms(2) unfolding technical_codec_def json_Marshal_def technical_val_def
    by (auto simp: seq_ret_Cons_Inr simp del: json_of.simps(5) split: sum.splits)
  let ?j = "JObj [(''Symbol'', JStr (tr_Symbol r)), (''LastDate'', jt), (''Values'', jv)]"
  have "writable 10000 ?j"
    using assms(1) json_GTime(1) [OF jt] values_roundtrip(1) [OF jv] by (simp add: ascii_def)
  then have p: "parse_json d = Some ?j" unfolding d by (rule parse_print)
  have "dec_struct technical_fields ?j zero_technical = (r, True)"
    unfolding dec_struct_def json.case foldl.simps
    by (simp add: dec_member_hit technical_fields_def field_def dec_string_def json_GTime(2) [OF jt]
        values_roundtrip(2) [OF jv order.refl] zero_technical_def)
  with p show ?thesis by (simp add: technical_codec_def json_Unmarshal_def)
qed

lemma valid_symbol_ascii: "IsValidSymbol s \<Longrightarrow> ascii s"
  by (auto simp: IsValidSymbol_def symbolRe_def ascii_def list_all_iff symbol_char_def Let_def)

text \<open>
  C22. What the cache stores reads back. Whenever a computed result of a valid symbol can be marshalled
  (all its numbers are finite and its date is in the years 0 to 9999), unmarshalling the JSON text gives
  exactly the same result: every float64 bit for bit, nulls as nulls, and the date to the nanosecond.
\<close>
theorem cached_results_roundtrip:
  "(IsValidSymbol (ar_Symbol a) \<longrightarrow> Marshal analytics_codec a = Inr d \<longrightarrow> Unmarshal analytics_codec d = Inr a) \<and>
   (IsValidSymbol (tr_Symbol t) \<longrightarrow> Marshal technical_codec t = Inr d \<longrightarrow> Unmarshal technical_codec d = Inr t)"
  using analytics_roundtrip technical_roundtrip valid_symbol_ascii by blast

definition sample_analytics :: AnalyticsResult where
  "sample_analytics = \<lparr>ar_Symbol = ''BRK.B'', ar_Price = Fin False (3/2), ar_Metrics = zero_metrics\<lparr>m_ROE := Some (Fin True (1/4))\<rparr>\<rparr>"

theorem cached_results_roundtrip_witness:
  "Marshal analytics_codec sample_analytics \<in> range Inr \<and>
   Unmarshal analytics_codec (projr (Marshal analytics_codec sample_analytics)) = Inr sample_analytics"
proof -
  have w: "wf64 (Fin False (3/2))" "wf64 (Fin True (1/4))" 
    using rmag_representable [OF representableI [of "3/2" 3 "-1"]] rmag_representable [OF representableI [of "1/4" 1 "-2"]]
    by (simp_all add: max64_def power_int_minus)
  have v: "IsValidSymbol (ar_Symbol sample_analytics)" by code_simp
  have "\<exists>d. Marshal analytics_codec sample_analytics = Inr d"
    unfolding sample_analytics_def analytics_codec_def using w
    by (simp add: json_Marshal_def analytics_val_def metrics_val_def ptr_def zero_metrics_def del: wf64.simps)
  then obtain d where d: "Marshal analytics_codec sample_analytics = Inr d" ..
  with v show ?thesis using cached_results_roundtrip [of sample_analytics d undefined] by auto
qed

end
