(* ===== verification/Rate.thy ===== *)
theory Rate
  imports Cache GoStd
begin

text \<open>
  The fixed-window rate limiter, \<^verbatim>\<open>internal/rate/rate.go\<close>, over the Redis client. The documented
  behaviour of the two commands it issues is the locale \<open>counter_service\<close>.
\<close>

section \<open>The limiter\<close>

text \<open>The interface \<^verbatim>\<open>Limiter\<close> has one method.\<close>

type_synonym 'w Limiter = "string \<Rightarrow> ('w, bool) call"

record 'w RedisLimiter =
  rl_client :: "'w Redis_client"
  rl_limit :: int
  rl_window :: int
  rl_prefix :: string

definition rate_NewRedis :: "'w Redis_client \<Rightarrow> int \<Rightarrow> int \<Rightarrow> 'w RedisLimiter" where
  "rate_NewRedis client limit window =
     \<lparr>rl_client = client, rl_limit = limit, rl_window = window, rl_prefix = ''fda:rl:''\<rparr>"

definition Allow :: "'w RedisLimiter \<Rightarrow> 'w Limiter" where
  "Allow l key w =
     (let k = rl_prefix l @ key
      in case rdb_Incr (rl_client l) k w of
           (Inl err, w) \<Rightarrow> (Inl err, w)
         | (Inr n, w) \<Rightarrow>
             (let w = (if n = 1 then snd (rdb_Expire (rl_client l) k (rl_window l) w) else w)
              in (Inr (n \<le> rl_limit l), w)))"

section \<open>Counting\<close>

text \<open>A burst of requests: the results of the calls that the limiter answered.\<close>

fun burst :: "'w Redis_client \<Rightarrow> int \<Rightarrow> int \<Rightarrow> string list \<Rightarrow> 'w \<Rightarrow> (string \<times> bool) list" where
  "burst cl limit window [] w = []"
| "burst cl limit window (key # keys) w =
     (case Allow (rate_NewRedis cl limit window) key w of
        (Inl e, w) \<Rightarrow> burst cl limit window keys w
      | (Inr ok, w) \<Rightarrow> (key, ok) # burst cl limit window keys w)"

text \<open>
  \<open>cnt w k\<close> is the counter stored under \<open>k\<close>, 0 when there is none: INCR adds one and returns the new
  value, EXPIRE with a positive time leaves the values alone, and a failed INCR may or may not have
  been executed.
\<close>

locale counter_service =
  fixes cl :: "'w Redis_client" and cnt :: "'w \<Rightarrow> string \<Rightarrow> int"
  assumes incr: "rdb_Incr cl k w = (Inr n, w') \<Longrightarrow> n = cnt w k + 1 \<and> cnt w' = (cnt w)(k := n)"
    and incr_err: "rdb_Incr cl k w = (Inl e, w') \<Longrightarrow> cnt w' = cnt w \<or> cnt w' = (cnt w)(k := cnt w k + 1)"
    and expire: "0 < ttl \<Longrightarrow> rdb_Expire cl k ttl w = (rb, w') \<Longrightarrow> cnt w' = cnt w"
begin

lemma Allow_counts:
  assumes "Allow (rate_NewRedis cl limit window) key w = (Inr ok, w')" "0 < window"
  shows "ok = (cnt w (''fda:rl:'' @ key) < limit) \<and>
    cnt w' = (cnt w)(''fda:rl:'' @ key := cnt w (''fda:rl:'' @ key) + 1)"
proof -
  let ?k = "''fda:rl:'' @ key"
  obtain r w1 where i: "rdb_Incr cl ?k w = (r, w1)" by force
  with assms(1) obtain n where n: "r = Inr n" "ok = (n \<le> limit)"
    "w' = (if n = 1 then snd (rdb_Expire cl ?k window w1) else w1)"
    by (auto simp: Allow_def rate_NewRedis_def Let_def split: sum.splits)
  have "cnt (snd (rdb_Expire cl ?k window w1)) = cnt w1" using expire [OF assms(2)] by (metis prod.collapse)
  with n incr [of ?k w n w1] i show ?thesis by auto
qed

lemma burst_bound:
  assumes "0 < window" "0 \<le> cnt w (''fda:rl:'' @ key)"
  shows "int (length (filter (\<lambda>r. r = (key, True)) (burst cl limit window keys w))) \<le>
    max 0 (limit - cnt w (''fda:rl:'' @ key))"
  using assms(2)
proof (induction keys arbitrary: w)
  case (Cons k keys)
  let ?c = "\<lambda>w. cnt w (''fda:rl:'' @ key)"
  obtain r w1 where a: "Allow (rate_NewRedis cl limit window) k w = (r, w1)" by force
  show ?case
  proof (cases r)
    case (Inl e)
    with a have i: "rdb_Incr cl (''fda:rl:'' @ k) w = (Inl e, w1)"
      by (auto simp: Allow_def rate_NewRedis_def Let_def split: sum.splits prod.splits)
    have "?c w \<le> ?c w1" using incr_err [OF i] by auto
    with Cons.IH [of w1] Cons.prems a Inl show ?thesis by (simp add: max_def split: if_splits)
  next
    case (Inr ok)
    from Allow_counts [OF a [unfolded Inr] assms(1)]
    have ok: "ok = (cnt w (''fda:rl:'' @ k) < limit)"
      and c1: "?c w1 = (if k = key then ?c w + 1 else ?c w)" by auto
    from Cons.IH [of w1] Cons.prems c1 have "int (length (filter (\<lambda>r. r = (key, True)) (burst cl limit window keys w1)))
        \<le> max 0 (limit - ?c w1)" by auto
    with c1 ok a Inr show ?thesis by (auto simp: max_def split: if_splits)
  qed
qed simp

end

section \<open>Redis\<close>

text \<open>
  The commands as Redis documents them, on a state of its own: a map from keys to values with an
  optional time of expiry, the server's clock, and a schedule of failures (a refused command, or one
  whose reply is lost after it took effect).
\<close>

datatype rfault = RRefused string | RLost string

record redis =
  rs_data :: "string \<Rightarrow> (string \<times> time option) option"
  rs_now :: time
  rs_faults :: "rfault option list"

fun alive :: "time \<Rightarrow> time option \<Rightarrow> bool" where
  "alive now None = True"
| "alive now (Some t) = (now < t)"

definition live :: "redis \<Rightarrow> string \<Rightarrow> (string \<times> time option) option" where
  "live s k = (case rs_data s k of
     None \<Rightarrow> None
   | Some (v, ex) \<Rightarrow> if alive (rs_now s) ex then Some (v, ex) else None)"

definition redis_Nil :: gerror where "redis_Nil = Foreign ''redis: nil''"

definition command :: "(redis \<Rightarrow> 'a ret \<times> redis) \<Rightarrow> (redis, 'a) call" where
  "command cmd s =
     (case rs_faults s of
        [] \<Rightarrow> cmd s
      | None # fs \<Rightarrow> cmd (s\<lparr>rs_faults := fs\<rparr>)
      | Some (RRefused e) # fs \<Rightarrow> (Inl (Foreign e), s\<lparr>rs_faults := fs\<rparr>)
      | Some (RLost e) # fs \<Rightarrow> (Inl (Foreign e), snd (cmd (s\<lparr>rs_faults := fs\<rparr>))))"

definition ref_Get :: "string \<Rightarrow> redis \<Rightarrow> string ret \<times> redis" where
  "ref_Get k s = (case live s k of None \<Rightarrow> (Inl redis_Nil, s) | Some (v, ex) \<Rightarrow> (Inr v, s))"

definition ref_Set :: "string \<Rightarrow> string \<Rightarrow> int \<Rightarrow> redis \<Rightarrow> unit ret \<times> redis" where
  "ref_Set k v ttl s = (Inr (), s\<lparr>rs_data := (rs_data s)(k \<mapsto> (v, if 0 < ttl then Some (rs_now s + ttl) else None))\<rparr>)"

definition ref_Del :: "string list \<Rightarrow> redis \<Rightarrow> int ret \<times> redis" where
  "ref_Del ks s = (Inr (len (filter (\<lambda>k. live s k \<noteq> None) (remdups ks))),
     s\<lparr>rs_data := (\<lambda>k. if k \<in> set ks then None else rs_data s k)\<rparr>)"

definition ref_Incr :: "string \<Rightarrow> redis \<Rightarrow> int ret \<times> redis" where
  "ref_Incr k s =
     (case live s k of
        None \<Rightarrow> (Inr 1, s\<lparr>rs_data := (rs_data s)(k \<mapsto> (show_int 1, None))\<rparr>)
      | Some (v, ex) \<Rightarrow>
          (case Atoi v of
             None \<Rightarrow> (Inl (Foreign ''ERR value is not an integer or out of range''), s)
           | Some n \<Rightarrow>
               if n < max_int then (Inr (n + 1), s\<lparr>rs_data := (rs_data s)(k \<mapsto> (show_int (n + 1), ex))\<rparr>)
               else (Inl (Foreign ''ERR increment or decrement would overflow''), s)))"

definition ref_Expire :: "string \<Rightarrow> int \<Rightarrow> redis \<Rightarrow> bool ret \<times> redis" where
  "ref_Expire k ttl s =
     (case live s k of
        None \<Rightarrow> (Inr False, s)
      | Some (v, ex) \<Rightarrow>
          (Inr True, s\<lparr>rs_data := (rs_data s)(k := if 0 < ttl then Some (v, Some (rs_now s + ttl)) else None)\<rparr>))"

definition ref_client :: "redis Redis_client" where
  "ref_client = \<lparr>rdb_Get = (\<lambda>k. command (ref_Get k)), rdb_Set = (\<lambda>k v ttl. command (ref_Set k v ttl)),
     rdb_Del = (\<lambda>ks. command (ref_Del ks)), rdb_Incr = (\<lambda>k. command (ref_Incr k)),
     rdb_Expire = (\<lambda>k ttl. command (ref_Expire k ttl))\<rparr>"

definition ref_entries :: "redis \<Rightarrow> string \<Rightarrow> string option" where
  "ref_entries s k = map_option fst (live s k)"

text \<open>The counter under a key; a value that is not a number counts as the number it will never reach.\<close>

definition ref_cnt :: "redis \<Rightarrow> string \<Rightarrow> int" where
  "ref_cnt s k = (case live s k of None \<Rightarrow> 0 | Some (v, ex) \<Rightarrow> (case Atoi v of None \<Rightarrow> 0 | Some n \<Rightarrow> n))"

lemma rs_faults_id [simp]: "s\<lparr>rs_faults := rs_faults s\<rparr> = s"
  by (cases s) simp

lemma command_cases:
  obtains (ok) fs where "command cmd s = cmd (s\<lparr>rs_faults := fs\<rparr>)"
  | (refused) e fs where "command cmd s = (Inl (Foreign e), s\<lparr>rs_faults := fs\<rparr>)"
  | (lost) e fs where "command cmd s = (Inl (Foreign e), snd (cmd (s\<lparr>rs_faults := fs\<rparr>)))"
proof (cases "rs_faults s")
  case Nil
  then have "command cmd s = cmd s" by (simp add: command_def)
  then show ?thesis by (intro ok [of "rs_faults s"]) simp
next
  case (Cons f fs)
  then show ?thesis
    by (cases f; (cases "the f")?) (auto simp: command_def intro: ok [of fs] refused lost)
qed

lemma live_faults [simp]: "live (s\<lparr>rs_faults := fs\<rparr>) = live s"
  by (auto simp: live_def fun_eq_iff split: option.splits)

lemma live_upd: "live (s\<lparr>rs_data := (rs_data s)(k \<mapsto> (v, ex))\<rparr>) =
    (live s)(k := if alive (rs_now s) ex then Some (v, ex) else None)"
  by (auto simp: live_def fun_eq_iff split: option.splits)

lemma live_del: "live (s\<lparr>rs_data := (\<lambda>k. if k \<in> A then None else rs_data s k)\<rparr>) =
    (\<lambda>k. if k \<in> A then None else live s k)"
  by (auto simp: live_def fun_eq_iff split: option.splits)

lemma live_alive: "live s k = Some (v, ex) \<Longrightarrow> alive (rs_now s) ex"
  by (auto simp: live_def split: option.splits if_splits)

lemma ref_states:
  "snd (ref_Get k s) = s"
  "live (snd (ref_Set k v ttl s)) = (live s)(k \<mapsto> (v, if 0 < ttl then Some (rs_now s + ttl) else None))"
  "live (snd (ref_Del ks s)) = (\<lambda>k. if k \<in> set ks then None else live s k)"
  by (auto simp: ref_Get_def ref_Set_def ref_Del_def live_upd live_del split: option.splits)

lemma entries_eq: "ref_entries s = (map_option fst \<circ> live s)"
  by (auto simp: ref_entries_def fun_eq_iff)

interpretation ref_cache: redis_cache ref_client ttl ref_entries for ttl
proof unfold_locales
  fix k v :: string and ks :: "string list" and s s' and r :: "string ret" and ru :: "unit ret"
  show "ref_entries s' \<subseteq>\<^sub>m ref_entries s" if "cache_Get (client_cache ref_client ttl) k s = (r, s')"
    using that
    by (cases rule: command_cases [of "ref_Get k" s])
      (auto simp: client_cache_def ref_client_def entries_eq ref_Get_def split: option.splits)
  show "ref_entries s k = Some v" if "cache_Get (client_cache ref_client ttl) k s = (Inr v, s')"
    using that
    by (cases rule: command_cases [of "ref_Get k" s])
      (auto simp: client_cache_def ref_client_def entries_eq ref_Get_def split: option.splits)
  show "ref_entries s' \<subseteq>\<^sub>m (ref_entries s)(k \<mapsto> v) \<or> ref_entries s' \<subseteq>\<^sub>m ref_entries s"
    if "cache_Set (client_cache ref_client ttl) k v s = (ru, s')"
    using that
    by (cases rule: command_cases [of "ref_Set k v ttl" s])
      (auto simp: client_cache_def ref_client_def entries_eq ref_states map_le_def dest!: arg_cong [of _ _ snd])
  show "ref_entries s' \<subseteq>\<^sub>m ref_entries s" if "cache_Del (client_cache ref_client ttl) ks s = (ru, s')"
    using that
    by (cases rule: command_cases [of "ref_Del ks" s])
      (auto simp: client_cache_def ref_client_def entries_eq ref_Del_def live_del map_le_def split: if_splits)
  show "ref_entries s' k = None" if "cache_Del (client_cache ref_client ttl) ks s = (Inr (), s')" "k \<in> set ks"
    using that
    by (cases rule: command_cases [of "ref_Del ks" s])
      (auto simp: client_cache_def ref_client_def entries_eq ref_Del_def live_del)
qed

lemma Atoi_range: "Atoi v = Some n \<Longrightarrow> - (2 ^ 63) \<le> n \<and> n \<le> max_int"
  by (auto simp: Atoi_def Let_def split: option.splits if_splits list.splits)

lemma ref_Incr_cnt:
  "ref_Incr k s = (Inr n, s') \<Longrightarrow> n = ref_cnt s k + 1 \<and> ref_cnt s' = (ref_cnt s)(k := n)"
  "ref_Incr k s = (Inl e, s') \<Longrightarrow> s' = s"
proof -
  assume "ref_Incr k s = (Inr n, s')"
  then show "n = ref_cnt s k + 1 \<and> ref_cnt s' = (ref_cnt s)(k := n)"
  proof (cases "live s k")
    case None
    with \<open>ref_Incr k s = (Inr n, s')\<close> Atoi_show_int [of 1] show ?thesis
      by (auto simp: ref_Incr_def ref_cnt_def live_upd fun_eq_iff max_int_def)
  next
    case (Some a)
    obtain v ex where a: "a = (v, ex)" by force
    with Some \<open>ref_Incr k s = (Inr n, s')\<close> obtain m where m: "Atoi v = Some m" "m < max_int" "n = m + 1"
      "s' = s\<lparr>rs_data := (rs_data s)(k \<mapsto> (show_int (m + 1), ex))\<rparr>"
      by (auto simp: ref_Incr_def split: option.splits if_splits)
    moreover have "Atoi (show_int (m + 1)) = Some (m + 1)"
      using Atoi_range [OF m(1)] m(2) by (intro Atoi_show_int) auto
    ultimately show ?thesis using Some a live_alive [of s k v ex]
      by (auto simp: ref_cnt_def live_upd fun_eq_iff)
  qed
next
  show "ref_Incr k s = (Inl e, s') \<Longrightarrow> s' = s"
    by (auto simp: ref_Incr_def split: option.splits if_splits prod.splits)
qed

lemma ref_cnt_faults [simp]: "ref_cnt (s\<lparr>rs_faults := fs\<rparr>) = ref_cnt s"
  by (auto simp: ref_cnt_def fun_eq_iff)

lemma ref_Expire_cnt: "0 < ttl \<Longrightarrow> ref_cnt (snd (ref_Expire k ttl s)) = ref_cnt s"
  by (auto simp: ref_Expire_def ref_cnt_def live_upd fun_eq_iff split: option.splits prod.splits)

interpretation ref_counter: counter_service ref_client ref_cnt
proof unfold_locales
  fix k e :: string and n ttl :: int and s s'
  show "n = ref_cnt s k + 1 \<and> ref_cnt s' = (ref_cnt s)(k := n)" if "rdb_Incr ref_client k s = (Inr n, s')"
    using that
    by (cases rule: command_cases [of "ref_Incr k" s]) (auto simp: ref_client_def dest!: ref_Incr_cnt(1))
  show "ref_cnt s' = ref_cnt s \<or> ref_cnt s' = (ref_cnt s)(k := ref_cnt s k + 1)"
    if i: "rdb_Incr ref_client k s = (Inl err, s')" for err
  proof (cases rule: command_cases [of "ref_Incr k" s])
    case (ok fs)
    with i ref_Incr_cnt(2) [of k "s\<lparr>rs_faults := fs\<rparr>" err s'] show ?thesis by (simp add: ref_client_def)
  next
    case (refused e fs)
    with i show ?thesis by (auto simp: ref_client_def)
  next
    case (lost e fs)
    obtain q t where q: "ref_Incr k (s\<lparr>rs_faults := fs\<rparr>) = (q, t)" by force
    with lost i have "s' = t" by (simp add: ref_client_def)
    with q ref_Incr_cnt show ?thesis by (cases q) fastforce+
  qed
  show "ref_cnt s' = ref_cnt s" if "0 < ttl" "rdb_Expire ref_client k ttl s = (rb, s')" for rb
    using that ref_Expire_cnt [OF that(1)]
    by (cases rule: command_cases [of "ref_Expire k ttl" s]) (auto simp: ref_client_def dest!: arg_cong [of _ _ snd])
qed

end
