(* ===== verification/Handlers.thy ===== *)
theory Handlers
  imports Result_Codec Rate
begin

text \<open>
  The HTTP layer, \<^verbatim>\<open>internal/handler\<close>: responses and the error envelope, the two middleware functions, the
  ten endpoints and the route table. The framework supplies what a request holds as a \<^verbatim>\<open>gin.Context\<close>: path
  parameters, query parameters, headers and the client's address; which route a path matches is its
  business, so a request is served at the registered pattern. A middleware function goes on to the next
  one or aborts with a response. Logging is left out. \<open>pr\<close> tells which characters outside ASCII are printable
  in a quoted string, which is a table of the Go release.
\<close>

section \<open>Rendering messages\<close>

text \<open>\<^verbatim>\<open>strconv.Quote\<close>.\<close>

fun rune_of :: "string \<Rightarrow> nat" where
  "rune_of [a, b] = (of_char a mod 32) * 64 + of_char b mod 64"
| "rune_of [a, b, c] = (of_char a mod 16) * 4096 + (of_char b mod 64) * 64 + of_char c mod 64"
| "rune_of [a, b, c, d] = (of_char a mod 8) * 262144 + (of_char b mod 64) * 4096 + (of_char c mod 64) * 64 + of_char d mod 64"
| "rune_of _ = 0"

definition lower_hex :: "nat \<Rightarrow> nat \<Rightarrow> string" where
  "lower_hex w n = map (\<lambda>k. hex_digit (n div 16 ^ k mod 16)) (rev [0..<w])"

definition quote_ascii :: "char \<Rightarrow> string" where
  "quote_ascii c =
     (let n = of_char c :: nat
      in if n = 34 \<or> n = 92 then [CHR 0x5C, c]
         else if 32 \<le> n \<and> n < 127 then [c]
         else case map_of [(7, CHR ''a''), (8, CHR ''b''), (12, CHR ''f''), (10, CHR ''n''), (13, CHR ''r''), (9, CHR ''t''), (11, CHR ''v'')] n of
           Some e \<Rightarrow> [CHR 0x5C, e]
         | None \<Rightarrow> [CHR 0x5C, CHR ''x''] @ lower_hex 2 n)"

definition quote_rune :: "(nat \<Rightarrow> bool) \<Rightarrow> string \<Rightarrow> string" where
  "quote_rune pr bytes =
     (let n = rune_of bytes
      in if pr n then bytes
         else if n < 0x10000 then [CHR 0x5C, CHR ''u''] @ lower_hex 4 n
         else [CHR 0x5C, CHR ''U''] @ lower_hex 8 n)"

function quoted :: "(nat \<Rightarrow> bool) \<Rightarrow> string \<Rightarrow> string" where
  "quoted pr [] = []"
| "quoted pr (c # s) =
     (let n = utf8_len (c # s)
      in if n = 0 then [CHR 0x5C, CHR ''x''] @ lower_hex 2 (of_char c) @ quoted pr s
         else if n = 1 then quote_ascii c @ quoted pr s
         else quote_rune pr (take n (c # s)) @ quoted pr (drop (n - 1) s))"
  by pat_completeness auto
termination by (relation "measure (length \<circ> snd)") auto

definition Quote :: "(nat \<Rightarrow> bool) \<Rightarrow> string \<Rightarrow> string" where
  "Quote pr s = [CHR 0x22] @ quoted pr s @ [CHR 0x22]"

definition render :: "(nat \<Rightarrow> bool) \<Rightarrow> msg \<Rightarrow> string" where
  "render pr m = concat (map (\<lambda>f. case f of Lit s \<Rightarrow> s | Q s \<Rightarrow> Quote pr s) m)"

section \<open>Responses\<close>

record response =
  resp_Status :: int
  resp_ContentType :: string
  resp_Body :: string

definition codeValidation :: string where "codeValidation = ''VALIDATION_ERROR''"
definition codeNotFound :: string where "codeNotFound = ''NOT_FOUND''"
definition codeInsufficient :: string where "codeInsufficient = ''INSUFFICIENT_DATA''"
definition codeRateLimited :: string where "codeRateLimited = ''RATE_LIMITED''"
definition codeUnauthorized :: string where "codeUnauthorized = ''UNAUTHORIZED''"
definition codeInternal :: string where "codeInternal = ''INTERNAL''"

definition errorBody :: "string \<Rightarrow> string \<Rightarrow> goval" where
  "errorBody code message = GStruct [(''code'', GString code), (''message'', GString message)]"

definition errorEnvelope :: "string \<Rightarrow> string \<Rightarrow> goval" where
  "errorEnvelope code message = GStruct [(''error'', errorBody code message)]"

text \<open>
  The status is written first; \<^verbatim>\<open>Encode\<close> then writes the whole document and a newline, or nothing when the
  value cannot be encoded, and its error is dropped.
\<close>

definition writeJSON :: "int \<Rightarrow> goval \<Rightarrow> response" where
  "writeJSON status body =
     \<lparr>resp_Status = status, resp_ContentType = ''application/json'',
      resp_Body = (case json_Marshal body of Inl err \<Rightarrow> [] | Inr text \<Rightarrow> text @ [byte 10])\<rparr>"

definition writeError :: "int \<Rightarrow> string \<Rightarrow> string \<Rightarrow> response" where
  "writeError status code message = writeJSON status (errorEnvelope code message)"

definition writeData :: "int \<Rightarrow> goval \<Rightarrow> response" where
  "writeData status data = writeJSON status (GMap [(''data'', data)])"

definition writeServiceError :: "(nat \<Rightarrow> bool) \<Rightarrow> gerror \<Rightarrow> response" where
  "writeServiceError pr err =
     (if errors_Is err ErrInvalidSymbol then writeError 400 codeValidation (render pr (Error_text err))
      else if errors_Is err ErrNotFound then writeError 404 codeNotFound (render pr (Error_text err))
      else if errors_Is err ErrInsufficientData then writeError 422 codeInsufficient (render pr (Error_text err))
      else writeError 500 codeInternal ''internal error'')"

section \<open>The handler and its middleware\<close>

record gin_Context =
  c_Param :: "string \<Rightarrow> string"
  c_Query :: "string \<Rightarrow> string"
  c_Header :: "string \<Rightarrow> string"
  c_ClientIP :: string
  c_keyID :: "int option"

record 'w Options =
  opt_Auth :: "('w Env \<times> 'w Store) option"
  opt_Limiter :: "'w Limiter option"
  opt_AuthGuard :: "'w Limiter option"

record 'w Handler =
  h_qs :: "'w QueryService"
  h_auth :: "('w Env \<times> 'w Store) option"
  h_limiter :: "'w Limiter option"
  h_authGuard :: "'w Limiter option"

definition handler_New :: "'w QueryService \<Rightarrow> 'w Options list \<Rightarrow> 'w Handler" where
  "handler_New qs opts =
     (if 0 < len opts
      then \<lparr>h_qs = qs, h_auth = opt_Auth (hd opts), h_limiter = opt_Limiter (hd opts), h_authGuard = opt_AuthGuard (hd opts)\<rparr>
      else \<lparr>h_qs = qs, h_auth = None, h_limiter = None, h_authGuard = None\<rparr>)"

text \<open>What a middleware function does with the request: \<^verbatim>\<open>c.Next\<close>, a response and \<^verbatim>\<open>c.Abort\<close>, or a panic.\<close>

datatype step = Next gin_Context | Abort response | Crash

definition blockedByAuthFloodGuard :: "'w Handler \<Rightarrow> gin_Context \<Rightarrow> 'w \<Rightarrow> response option \<times> 'w" where
  "blockedByAuthFloodGuard h c w =
     (case h_authGuard h of
        None \<Rightarrow> (None, w)
      | Some guard \<Rightarrow>
          (case guard (''authfail:'' @ c_ClientIP c) w of
             (Inl err, w) \<Rightarrow> (None, w)
           | (Inr ok, w) \<Rightarrow>
               if \<not> ok then (Some (writeError 429 codeRateLimited ''too many failed auth attempts''), w)
               else (None, w)))"

definition authRequire :: "'w Handler \<Rightarrow> gin_Context \<Rightarrow> 'w \<Rightarrow> step \<times> 'w" where
  "authRequire h c w =
     (case h_auth h of
        None \<Rightarrow> (Next c, w)
      | Some (env, store) \<Rightarrow>
          (case Validate env store (c_Header c ''X-API-Key'') w of
             (Err err, w) \<Rightarrow>
               (case blockedByAuthFloodGuard h c w of
                  (Some resp, w) \<Rightarrow> (Abort resp, w)
                | (None, w) \<Rightarrow> (Abort (writeError 401 codeUnauthorized ''missing or invalid API key''), w))
           | (Ok key, w) \<Rightarrow> (Next (c\<lparr>c_keyID := Some (key_ID key)\<rparr>), w)
           | (Panic, w) \<Rightarrow> (Crash, w)))"

definition rateLimit :: "'w Handler \<Rightarrow> gin_Context \<Rightarrow> 'w \<Rightarrow> step \<times> 'w" where
  "rateLimit h c w =
     (case h_limiter h of
        None \<Rightarrow> (Next c, w)
      | Some limiter \<Rightarrow>
          (let key = (case c_keyID c of Some i \<Rightarrow> ''key:'' @ show_int i | None \<Rightarrow> ''ip:'' @ c_ClientIP c)
           in case limiter key w of
                (Inl err, w) \<Rightarrow> (Next c, w)
              | (Inr ok, w) \<Rightarrow>
                  if \<not> ok then (Abort (writeError 429 codeRateLimited ''rate limit exceeded''), w) else (Next c, w)))"

section \<open>Companies\<close>

definition companyListJSON :: "Company list \<Rightarrow> goval" where
  "companyListJSON companies = GSlice (map (\<lambda>cmp. GMap
     [(''symbol'', GString (co_Symbol cmp)), (''name'', GString (co_Name cmp)), (''exchange'', GString (co_Exchange cmp)),
      (''sector'', GString (co_Sector cmp)), (''industry'', GString (co_Industry cmp)), (''currency'', GString (co_Currency cmp))]) companies)"

definition companyJSON :: "Company \<Rightarrow> goval" where
  "companyJSON cmp = GMap
     [(''symbol'', GString (co_Symbol cmp)), (''name'', GString (co_Name cmp)), (''exchange'', GString (co_Exchange cmp)),
      (''sector'', GString (co_Sector cmp)), (''industry'', GString (co_Industry cmp)), (''currency'', GString (co_Currency cmp)),
      (''description'', GString (co_Description cmp))]"

type_synonym 'w endpoint = "(nat \<Rightarrow> bool) \<Rightarrow> 'w Handler \<Rightarrow> gin_Context \<Rightarrow> 'w \<Rightarrow> response res \<times> 'w"

definition h_listCompanies :: "'w endpoint" where
  "h_listCompanies pr h c w =
     (case ListCompanies (h_qs h) w of
        (Inl err, w) \<Rightarrow> (Ok (writeServiceError pr err), w)
      | (Inr companies, w) \<Rightarrow> (Ok (writeData 200 (companyListJSON companies)), w))"

definition h_company :: "'w endpoint" where
  "h_company pr h c w =
     (case GetCompany (h_qs h) (c_Param c ''symbol'') w of
        (Inl err, w) \<Rightarrow> (Ok (writeServiceError pr err), w)
      | (Inr cmp, w) \<Rightarrow> (Ok (writeData 200 (companyJSON cmp)), w))"

section \<open>Stocks\<close>

definition parsePeriod :: "string \<Rightarrow> string option" where
  "parsePeriod v = (if v = [] then Some ''annual'' else if v \<in> {''annual'', ''quarterly'', ''all''} then Some v else None)"

definition parseLimit :: "string \<Rightarrow> bool \<Rightarrow> int option" where
  "parseLimit v absent =
     (if absent then Some 0
      else case Atoi v of None \<Rightarrow> None | Some n \<Rightarrow> if n < 1 \<or> 1000 < n then None else Some n)"

definition priceListJSON :: "DailyPrice list \<Rightarrow> goval" where
  "priceListJSON prices = GSlice (map (\<lambda>p. GMap
     [(''date'', GString (dateFormat (dp_Date p))), (''open'', GFloat (dp_Open p)), (''high'', GFloat (dp_High p)),
      (''low'', GFloat (dp_Low p)), (''close'', GFloat (dp_Close p)), (''volume'', GInt (dp_Volume p))]) prices)"

definition h_priceHistory :: "'w endpoint" where
  "h_priceHistory pr h c w =
     (let symbol = c_Param c ''symbol''
      in case parseLimit (c_Query c ''limit'') (c_Query c ''limit'' = []) of
           None \<Rightarrow> (Ok (writeError 400 codeValidation ''limit must be an integer in [1,1000]''), w)
         | Some limit \<Rightarrow>
             (case GetPriceHistory (h_qs h) symbol limit w of
                (Inl err, w) \<Rightarrow> (Ok (writeServiceError pr err), w)
              | (Inr prices, w) \<Rightarrow> (Ok (writeData 200 (priceListJSON prices)), w)))"

definition badPeriod :: response where
  "badPeriod = writeError 400 codeValidation ''period must be one of annual|quarterly|all''"

definition incomeListJSON :: "IncomeStatement list \<Rightarrow> goval" where
  "incomeListJSON items = GSlice (map (\<lambda>it. GMap
      [(''period'', GString (inc_Period it)), (''fiscal_date'', GString (dateFormat (inc_FiscalDate it))),
      (''revenue'', GFloat (inc_Revenue it)), (''net_income'', GFloat (inc_NetIncome it)),
      (''diluted_eps'', GFloat (inc_DilutedEPS it))]) items)"

definition h_incomeStatements :: "'w endpoint" where
  "h_incomeStatements pr h c w =
     (case parsePeriod (c_Query c ''period'') of
        None \<Rightarrow> (Ok badPeriod, w)
      | Some period \<Rightarrow>
          (case GetIncomeStatements (h_qs h) (c_Param c ''symbol'') period w of
             (Inl err, w) \<Rightarrow> (Ok (writeServiceError pr err), w)
           | (Inr items, w) \<Rightarrow> (Ok (writeData 200 (incomeListJSON items)), w)))"

definition balanceListJSON :: "BalanceSheet list \<Rightarrow> goval" where
  "balanceListJSON items = GSlice (map (\<lambda>it. GMap
      [(''period'', GString (bal_Period it)), (''fiscal_date'', GString (dateFormat (bal_FiscalDate it))),
      (''total_assets'', GFloat (bal_TotalAssets it)), (''total_liabilities'', GFloat (bal_TotalLiabilities it)),
      (''total_equity'', GFloat (bal_TotalEquity it)), (''total_debt'', GFloat (bal_TotalDebt it)),
      (''current_assets'', GFloat (bal_CurrentAssets it)), (''current_liabilities'', GFloat (bal_CurrentLiabilities it)),
      (''shares_outstanding'', GFloat (bal_SharesOutstanding it))]) items)"

definition h_balanceSheets :: "'w endpoint" where
  "h_balanceSheets pr h c w =
     (case parsePeriod (c_Query c ''period'') of
        None \<Rightarrow> (Ok badPeriod, w)
      | Some period \<Rightarrow>
          (case GetBalanceSheets (h_qs h) (c_Param c ''symbol'') period w of
             (Inl err, w) \<Rightarrow> (Ok (writeServiceError pr err), w)
           | (Inr items, w) \<Rightarrow> (Ok (writeData 200 (balanceListJSON items)), w)))"

definition cashFlowListJSON :: "CashFlow list \<Rightarrow> goval" where
  "cashFlowListJSON items = GSlice (map (\<lambda>it. GMap
      [(''period'', GString (cfl_Period it)), (''fiscal_date'', GString (dateFormat (cfl_FiscalDate it))),
      (''operating_cash_flow'', GFloat (cfl_OperatingCashFlow it)), (''investing_cash_flow'', GFloat (cfl_InvestingCashFlow it)),
      (''financing_cash_flow'', GFloat (cfl_FinancingCashFlow it)), (''net_change_in_cash'', GFloat (cfl_NetChangeInCash it))]) items)"

definition h_cashFlows :: "'w endpoint" where
  "h_cashFlows pr h c w =
     (case parsePeriod (c_Query c ''period'') of
        None \<Rightarrow> (Ok badPeriod, w)
      | Some period \<Rightarrow>
          (case GetCashFlows (h_qs h) (c_Param c ''symbol'') period w of
             (Inl err, w) \<Rightarrow> (Ok (writeServiceError pr err), w)
           | (Inr items, w) \<Rightarrow> (Ok (writeData 200 (cashFlowListJSON items)), w)))"

section \<open>Computed results\<close>

definition metricsJSON :: "AnalyticsMetrics \<Rightarrow> goval" where
  "metricsJSON m = GMap
     [(''pe'', ptr (m_PERatio m)), (''pb'', ptr (m_PriceToBook m)), (''roe'', ptr (m_ROE m)), (''roa'', ptr (m_ROA m)),
      (''net_margin'', ptr (m_NetMargin m)), (''current_ratio'', ptr (m_CurrentRatio m)), (''debt_to_equity'', ptr (m_DebtToEquity m)),
      (''revenue_growth'', ptr (m_RevenueGrowth m)), (''earnings_growth'', ptr (m_EarningsGrowth m))]"

definition analyticsJSON :: "AnalyticsResult \<Rightarrow> goval" where
  "analyticsJSON res = GMap
     [(''symbol'', GString (ar_Symbol res)), (''price'', GFloat (ar_Price res)), (''metrics'', metricsJSON (ar_Metrics res))]"

definition h_analytics :: "'w endpoint" where
  "h_analytics pr h c w =
     (case GetAnalytics analytics_codec (h_qs h) (c_Param c ''symbol'') w of
        (Err err, w) \<Rightarrow> (Ok (writeServiceError pr err), w)
      | (Ok res, w) \<Rightarrow> (Ok (writeData 200 (analyticsJSON res)), w)
      | (Panic, w) \<Rightarrow> (Panic, w))"

definition technicalJSON :: "TechnicalResult \<Rightarrow> goval" where
  "technicalJSON res = GMap
     [(''symbol'', GString (tr_Symbol res)), (''last_date'', GString (dateFormat (tr_LastDate res))),
      (''values'', let v = tr_Values res in GMap
        [(''daily_return'', ptr (tv_DailyReturn v)), (''sma20'', ptr (tv_SMA20 v)), (''sma50'', ptr (tv_SMA50 v)),
         (''sma200'', ptr (tv_SMA200 v)), (''ema20'', ptr (tv_EMA20 v)), (''rsi14'', ptr (tv_RSI14 v)),
         (''volatility20'', ptr (tv_Volatility20 v)), (''average_volume20'', ptr (tv_AverageVolume20 v))])]"

definition h_technical :: "'w endpoint" where
  "h_technical pr h c w =
     (case GetTechnical technical_codec (h_qs h) (c_Param c ''symbol'') w of
        (Err err, w) \<Rightarrow> (Ok (writeServiceError pr err), w)
      | (Ok res, w) \<Rightarrow> (Ok (writeData 200 (technicalJSON res)), w)
      | (Panic, w) \<Rightarrow> (Panic, w))"

definition maxCompareSymbols :: int where "maxCompareSymbols = 10"

definition compareJSON :: "AnalyticsResult list \<Rightarrow> goval" where
  "compareJSON results = GSlice (map (\<lambda>res. GMap
     [(''symbol'', GString (ar_Symbol res)), (''metrics'', metricsJSON (ar_Metrics res))]) results)"

definition h_compare :: "'w endpoint" where
  "h_compare pr h c w =
     (let raw = Split (CHR '','') (c_Query c ''symbols'')
      in case Compare analytics_codec (h_qs h) raw maxCompareSymbols w of
           (Err err, w) \<Rightarrow> (Ok (writeServiceError pr err), w)
         | (Ok results, w) \<Rightarrow> (Ok (writeData 200 (compareJSON results)), w)
         | (Panic, w) \<Rightarrow> (Panic, w))"

section \<open>The screener\<close>

definition screenerParams :: "(string \<times> (float64 \<Rightarrow> ScreenerFilter \<Rightarrow> ScreenerFilter)) list" where
  "screenerParams =
     [(''min_roe'', \<lambda>f flt. flt\<lparr>sf_MinROE := Some f\<rparr>), (''max_pe'', \<lambda>f flt. flt\<lparr>sf_MaxPE := Some f\<rparr>),
      (''min_revenue_growth'', \<lambda>f flt. flt\<lparr>sf_MinRevenueGrowth := Some f\<rparr>)]"

fun readParams :: "(string \<times> (float64 \<Rightarrow> ScreenerFilter \<Rightarrow> ScreenerFilter)) list \<Rightarrow> gin_Context \<Rightarrow> ScreenerFilter \<Rightarrow> string + ScreenerFilter" where
  "readParams [] c flt = Inr flt"
| "readParams ((param, dst) # ps) c flt =
     (let raw = c_Query c param
      in if raw \<noteq> []
         then (case ParseFloat raw of
                 Some (Fin s m) \<Rightarrow> readParams ps c (dst (Fin s m) flt)
               | _ \<Rightarrow> Inl (param @ '' must be a finite number''))
         else readParams ps c flt)"

definition screenerJSON :: "ScreenerResult list \<Rightarrow> goval" where
  "screenerJSON rows = GSlice (map (\<lambda>r. GMap
     [(''symbol'', GString (sr_Symbol r)), (''name'', GString (sr_Name r)), (''sector'', GString (sr_Sector r)),
      (''roe'', ptr (sr_ROE r)), (''pe'', ptr (sr_PE r)), (''revenue_growth'', ptr (sr_RevenueGrowth r))]) rows)"

definition h_screener :: "'w endpoint" where
  "h_screener pr h c w =
     (let flt = \<lparr>sf_Sector = (if c_Query c ''sector'' \<noteq> [] then Some (c_Query c ''sector'') else None),
                 sf_MinROE = None, sf_MaxPE = None, sf_MinRevenueGrowth = None\<rparr>
      in case readParams screenerParams c flt of
           Inl message \<Rightarrow> (Ok (writeError 400 codeValidation message), w)
         | Inr flt \<Rightarrow>
             (case Screener (h_qs h) flt w of
                (Inl err, w) \<Rightarrow> (Ok (writeServiceError pr err), w)
              | (Inr rows, w) \<Rightarrow> (Ok (writeData 200 (screenerJSON rows)), w)))"

section \<open>Routes\<close>

definition h_health :: "'w endpoint" where
  "h_health pr h c w = (Ok (writeData 200 (GMap [(''status'', GString ''ok'')])), w)"

type_synonym 'w middleware = "'w Handler \<Rightarrow> gin_Context \<Rightarrow> 'w \<Rightarrow> step \<times> 'w"

definition Routes :: "(string \<times> 'w middleware list \<times> 'w endpoint) list" where
  "Routes =
     (''/health'', [], h_health) #
     map (\<lambda>(path, f). (''/api/v1'' @ path, [authRequire, rateLimit], f))
       [(''/companies'', h_listCompanies), (''/companies/:symbol'', h_company),
        (''/stocks/:symbol/history'', h_priceHistory), (''/stocks/:symbol/income-statement'', h_incomeStatements),
        (''/stocks/:symbol/balance-sheet'', h_balanceSheets), (''/stocks/:symbol/cash-flow'', h_cashFlows),
        (''/stocks/:symbol/analytics'', h_analytics), (''/stocks/:symbol/technical'', h_technical),
        (''/compare'', h_compare), (''/screener'', h_screener)]"

text \<open>The chain of a route: each middleware function in turn, then the endpoint.\<close>

fun run_chain :: "'w middleware list \<Rightarrow> 'w endpoint \<Rightarrow> 'w endpoint" where
  "run_chain [] f pr h c w = f pr h c w"
| "run_chain (m # ms) f pr h c w =
     (case m h c w of
        (Next c, w) \<Rightarrow> run_chain ms f pr h c w
      | (Abort resp, w) \<Rightarrow> (Ok resp, w)
      | (Crash, w) \<Rightarrow> (Panic, w))"

definition serve_route :: "string \<Rightarrow> (nat \<Rightarrow> bool) \<Rightarrow> 'w Handler \<Rightarrow> gin_Context \<Rightarrow> 'w \<Rightarrow> (response res \<times> 'w) option" where
  "serve_route path pr h c w = map_option (\<lambda>(ms, f). run_chain ms f pr h c w) (map_of Routes path)"

end
