(* ===== verification/Repository.thy ===== *)
theory Repository
  imports Query_Laws
begin

text \<open>
  The PostgreSQL repository, \<^verbatim>\<open>internal/repository\<close>: the tables of \<^verbatim>\<open>migrations/\<close> as lists of rows and
  every SQL statement of the package as an operation on them. What the server adds is kept open:
  \<open>Pg\<close> holds the conversions of float64 through \<^verbatim>\<open>NUMERIC\<close> columns and the collation of the symbol
  column, and \<open>db_faults\<close> schedules, statement by statement, whether the server refuses a statement or
  the connection breaks after it took effect; value checks of the schema (lengths, ranges) are refusals.
\<close>

section \<open>The database\<close>

record Pg =
  num18_4 :: "float64 \<Rightarrow> float64"
  num20_2 :: "float64 \<Rightarrow> float64"
  collate :: "string \<Rightarrow> string \<Rightarrow> bool"

datatype fault = Refused string | Broken string

record RunRow =
  rr_Symbol :: string
  rr_Status :: string
  rr_CompaniesInserted :: int
  rr_PricesInserted :: int
  rr_IncomeInserted :: int
  rr_BalanceInserted :: int
  rr_ErrorMessage :: msg
  rr_StartedAt :: time
  rr_FinishedAt :: time

record db =
  t_companies :: "(int \<times> Company) list"
  t_prices :: "(int \<times> DailyPrice) list"
  t_income :: "(int \<times> IncomeStatement) list"
  t_balance :: "(int \<times> BalanceSheet) list"
  t_cash :: "(int \<times> CashFlow) list"
  t_runs :: "RunRow list"
  t_keys :: "APIKey list"
  seq_companies :: int
  seq_keys :: int
  db_now :: time
  db_faults :: "fault option list"

definition next_fault :: "db \<Rightarrow> fault option \<times> db" where
  "next_fault d = (case db_faults d of [] \<Rightarrow> (None, d) | f # fs \<Rightarrow> (f, d\<lparr>db_faults := fs\<rparr>))"

text \<open>A statement that writes: the server runs it or refuses it; a broken connection hides its result.\<close>

definition exec_sql :: "(db \<Rightarrow> 'a ret \<times> db) \<Rightarrow> (db, 'a) call" where
  "exec_sql stmt d =
     (case next_fault d of
        (None, d) \<Rightarrow> stmt d
      | (Some (Refused e), d) \<Rightarrow> (Inl (Foreign e), d)
      | (Some (Broken e), d) \<Rightarrow> (Inl (Foreign e), snd (stmt d)))"

text \<open>
  A query: an error of \<^verbatim>\<open>QueryContext\<close>, or the rows with the error that ended the iteration
  (\<^verbatim>\<open>rows.Err\<close>), if any.
\<close>

definition query_sql :: "(db \<Rightarrow> 'a list) \<Rightarrow> (db, 'a list \<times> gerror option) call" where
  "query_sql q d =
     (case next_fault d of
        (None, d) \<Rightarrow> (Inr (q d, None), d)
      | (Some (Refused e), d) \<Rightarrow> (Inl (Foreign e), d)
      | (Some (Broken e), d) \<Rightarrow> (Inr ([], Some (Foreign e)), d))"

text \<open>\<^verbatim>\<open>QueryRowContext(...).Scan\<close>: the first row, \<^verbatim>\<open>sql.ErrNoRows\<close> or the error.\<close>

definition query_row :: "(db \<Rightarrow> 'a list) \<Rightarrow> (db, 'a) call" where
  "query_row q d =
     (case query_sql q d of
        (Inl e, d) \<Rightarrow> (Inl e, d)
      | (Inr (rows, Some e), d) \<Rightarrow> (Inl e, d)
      | (Inr ([], None), d) \<Rightarrow> (Inl sql_ErrNoRows, d)
      | (Inr (x # _, None), d) \<Rightarrow> (Inr x, d))"

text \<open>\<^verbatim>\<open>INSERT ... ON CONFLICT (key) DO NOTHING\<close>: rows are taken in order, a row whose key is present is
  skipped, also when an earlier row of the same statement inserted it; the result counts the insertions.\<close>

fun insert_nothing :: "('r \<Rightarrow> 'k) \<Rightarrow> 'r list \<Rightarrow> 'r list \<Rightarrow> int \<times> 'r list" where
  "insert_nothing key [] t = (0, t)"
| "insert_nothing key (r # rs) t =
     (if key r \<in> key ` set t then insert_nothing key rs t
      else (let (n, t) = insert_nothing key rs (t @ [r]) in (n + 1, t)))"

text \<open>A \<^verbatim>\<open>DATE\<close> column keeps the day.\<close>

definition day_ns :: int where "day_ns = 86400 * 10 ^ 9"

definition date_of :: "time \<Rightarrow> time" where "date_of t = t - t mod day_ns"

definition fk_violation :: gerror where
  "fk_violation = Foreign ''violates foreign key constraint''"

section \<open>Writes\<close>

definition repo_UpsertCompany :: "Company \<Rightarrow> (db, int) call" where
  "repo_UpsertCompany c d =
     (let stmt = (\<lambda>d.
            let i = seq_companies d;
                d = d\<lparr>seq_companies := i + 1\<rparr>
            in case find (\<lambda>(j, r). co_Symbol r = co_Symbol c) (t_companies d) of
                 Some (j, r) \<Rightarrow>
                   (Inr j, d\<lparr>t_companies := map (\<lambda>(k, r). (k, if co_Symbol r = co_Symbol c then c else r)) (t_companies d)\<rparr>)
               | None \<Rightarrow> (Inr i, d\<lparr>t_companies := t_companies d @ [(i, c)]\<rparr>))
      in case exec_sql stmt d of
           (Inl err, d) \<Rightarrow> (Inl (wrap_text ''upsert company'' err), d)
         | (Inr i, d) \<Rightarrow> (Inr i, d))"

definition price_row :: "Pg \<Rightarrow> DailyPrice \<Rightarrow> DailyPrice" where
  "price_row pg p = \<lparr>dp_Date = date_of (dp_Date p), dp_Open = num18_4 pg (dp_Open p), dp_High = num18_4 pg (dp_High p),
     dp_Low = num18_4 pg (dp_Low p), dp_Close = num18_4 pg (dp_Close p), dp_Volume = dp_Volume p\<rparr>"

definition price_key :: "int \<times> DailyPrice \<Rightarrow> int \<times> time" where
  "price_key r = (fst r, dp_Date (snd r))"

definition repo_InsertPrices :: "Pg \<Rightarrow> int \<Rightarrow> DailyPrice list \<Rightarrow> (db, int) call" where
  "repo_InsertPrices pg companyID prices d =
     (if len prices = 0 then (Inr 0, d)
      else
        let stmt = (\<lambda>d.
              if companyID \<notin> fst ` set (t_companies d) then (Inl fk_violation, d)
              else let (n, t) = insert_nothing price_key (map (\<lambda>p. (companyID, price_row pg p)) prices) (t_prices d)
                   in (Inr n, d\<lparr>t_prices := t\<rparr>))
        in case exec_sql stmt d of
             (Inl err, d) \<Rightarrow> (Inl (wrap_text ''insert prices'' err), d)
           | (Inr n, d) \<Rightarrow> (Inr n, d))"

text \<open>Only five of the columns of an income statement are written; the other two stay NULL.\<close>

definition income_row :: "Pg \<Rightarrow> IncomeStatement \<Rightarrow> IncomeStatement" where
  "income_row pg s = \<lparr>inc_Period = inc_Period s, inc_FiscalDate = date_of (inc_FiscalDate s),
     inc_Revenue = num20_2 pg (inc_Revenue s), inc_GrossProfit = 0, inc_OperatingIncome = 0,
     inc_NetIncome = num20_2 pg (inc_NetIncome s), inc_DilutedEPS = num18_4 pg (inc_DilutedEPS s)\<rparr>"

definition income_key :: "int \<times> IncomeStatement \<Rightarrow> int \<times> string \<times> time" where
  "income_key r = (fst r, inc_Period (snd r), inc_FiscalDate (snd r))"

definition repo_InsertIncomeStatements :: "Pg \<Rightarrow> int \<Rightarrow> IncomeStatement list \<Rightarrow> (db, int) call" where
  "repo_InsertIncomeStatements pg companyID stmts d =
     (if len stmts = 0 then (Inr 0, d)
      else
        let stmt = (\<lambda>d.
              if companyID \<notin> fst ` set (t_companies d) then (Inl fk_violation, d)
              else let (n, t) = insert_nothing income_key (map (\<lambda>s. (companyID, income_row pg s)) stmts) (t_income d)
                   in (Inr n, d\<lparr>t_income := t\<rparr>))
        in case exec_sql stmt d of
             (Inl err, d) \<Rightarrow> (Inl (wrap_text ''insert income statements'' err), d)
           | (Inr n, d) \<Rightarrow> (Inr n, d))"

definition balance_row :: "Pg \<Rightarrow> BalanceSheet \<Rightarrow> BalanceSheet" where
  "balance_row pg s = \<lparr>bal_Period = bal_Period s, bal_FiscalDate = date_of (bal_FiscalDate s),
     bal_TotalAssets = num20_2 pg (bal_TotalAssets s), bal_TotalLiabilities = num20_2 pg (bal_TotalLiabilities s),
     bal_TotalEquity = num20_2 pg (bal_TotalEquity s), bal_TotalDebt = num20_2 pg (bal_TotalDebt s),
     bal_CurrentAssets = num20_2 pg (bal_CurrentAssets s), bal_CurrentLiabilities = num20_2 pg (bal_CurrentLiabilities s),
     bal_SharesOutstanding = num20_2 pg (bal_SharesOutstanding s)\<rparr>"

definition balance_key :: "int \<times> BalanceSheet \<Rightarrow> int \<times> string \<times> time" where
  "balance_key r = (fst r, bal_Period (snd r), bal_FiscalDate (snd r))"

definition repo_InsertBalanceSheets :: "Pg \<Rightarrow> int \<Rightarrow> BalanceSheet list \<Rightarrow> (db, int) call" where
  "repo_InsertBalanceSheets pg companyID sheets d =
     (if len sheets = 0 then (Inr 0, d)
      else
        let stmt = (\<lambda>d.
              if companyID \<notin> fst ` set (t_companies d) then (Inl fk_violation, d)
              else let (n, t) = insert_nothing balance_key (map (\<lambda>s. (companyID, balance_row pg s)) sheets) (t_balance d)
                   in (Inr n, d\<lparr>t_balance := t\<rparr>))
        in case exec_sql stmt d of
             (Inl err, d) \<Rightarrow> (Inl (wrap_text ''insert balance sheets'' err), d)
           | (Inr n, d) \<Rightarrow> (Inr n, d))"

definition cash_row :: "Pg \<Rightarrow> CashFlow \<Rightarrow> CashFlow" where
  "cash_row pg f = \<lparr>cfl_Period = cfl_Period f, cfl_FiscalDate = date_of (cfl_FiscalDate f),
     cfl_OperatingCashFlow = num20_2 pg (cfl_OperatingCashFlow f), cfl_InvestingCashFlow = num20_2 pg (cfl_InvestingCashFlow f),
     cfl_FinancingCashFlow = num20_2 pg (cfl_FinancingCashFlow f), cfl_NetChangeInCash = num20_2 pg (cfl_NetChangeInCash f)\<rparr>"

definition cash_key :: "int \<times> CashFlow \<Rightarrow> int \<times> string \<times> time" where
  "cash_key r = (fst r, cfl_Period (snd r), cfl_FiscalDate (snd r))"

definition repo_InsertCashFlows :: "Pg \<Rightarrow> int \<Rightarrow> CashFlow list \<Rightarrow> (db, int) call" where
  "repo_InsertCashFlows pg companyID flows d =
     (if len flows = 0 then (Inr 0, d)
      else
        let stmt = (\<lambda>d.
              if companyID \<notin> fst ` set (t_companies d) then (Inl fk_violation, d)
              else let (n, t) = insert_nothing cash_key (map (\<lambda>f. (companyID, cash_row pg f)) flows) (t_cash d)
                   in (Inr n, d\<lparr>t_cash := t\<rparr>))
        in case exec_sql stmt d of
             (Inl err, d) \<Rightarrow> (Inl (wrap_text ''insert cash flow statements'' err), d)
           | (Inr n, d) \<Rightarrow> (Inr n, d))"

definition run_row :: "IngestionRun \<Rightarrow> RunRow" where
  "run_row run = \<lparr>rr_Symbol = run_Symbol run, rr_Status = run_Status run,
     rr_CompaniesInserted = run_CompaniesInserted run, rr_PricesInserted = run_PricesInserted run,
     rr_IncomeInserted = run_IncomeInserted run, rr_BalanceInserted = run_BalanceInserted run,
     rr_ErrorMessage = run_ErrorMessage run, rr_StartedAt = run_StartedAt run, rr_FinishedAt = run_FinishedAt run\<rparr>"

definition repo_RecordRun :: "IngestionRun \<Rightarrow> (db, unit) call" where
  "repo_RecordRun run d =
     (case exec_sql (\<lambda>d. (Inr (), d\<lparr>t_runs := t_runs d @ [run_row run]\<rparr>)) d of
        (Inl err, d) \<Rightarrow> (Inl (wrap_text ''record ingestion run'' err), d)
      | (Inr u, d) \<Rightarrow> (Inr u, d))"

section \<open>Reads\<close>

text \<open>\<^verbatim>\<open>JOIN companies c ON c.id = st.company_id WHERE c.symbol = $1\<close>.\<close>

definition rows_of :: "db \<Rightarrow> string \<Rightarrow> (int \<times> 'r) list \<Rightarrow> 'r list" where
  "rows_of d symbol t =
     concat (map (\<lambda>(i, r). map (\<lambda>_. r) (filter (\<lambda>(j, c). j = i \<and> co_Symbol c = symbol) (t_companies d))) t)"

definition company_rows :: "db \<Rightarrow> string \<Rightarrow> Company list" where
  "company_rows d symbol = map snd (filter (\<lambda>(i, c). co_Symbol c = symbol) (t_companies d))"

definition price_rows :: "db \<Rightarrow> string \<Rightarrow> DailyPrice list" where
  "price_rows d symbol = sort_key dp_Date (rows_of d symbol (t_prices d))"

definition repo_GetCompany :: "string \<Rightarrow> (db, Company) call" where
  "repo_GetCompany symbol d =
     (case query_row (\<lambda>d. company_rows d symbol) d of
        (Inl err, d) \<Rightarrow> (Inl (wrap_text ''get company'' err), d)
      | (Inr c, d) \<Rightarrow> (Inr c, d))"

text \<open>\<^verbatim>\<open>ORDER BY symbol\<close> under the collation of the column.\<close>

fun insort_by :: "('a \<Rightarrow> 'a \<Rightarrow> bool) \<Rightarrow> 'a \<Rightarrow> 'a list \<Rightarrow> 'a list" where
  "insort_by le x [] = [x]"
| "insort_by le x (y # ys) = (if le x y then x # y # ys else y # insort_by le x ys)"

definition sort_by :: "('a \<Rightarrow> 'a \<Rightarrow> bool) \<Rightarrow> 'a list \<Rightarrow> 'a list" where
  "sort_by le xs = foldr (insort_by le) xs []"

definition repo_ListCompanies :: "Pg \<Rightarrow> (db, Company list) call" where
  "repo_ListCompanies pg d =
     (case query_sql (\<lambda>d. sort_by (\<lambda>a b. collate pg (co_Symbol a) (co_Symbol b)) (map snd (t_companies d))) d of
        (Inl err, d) \<Rightarrow> (Inl (wrap_text ''list companies'' err), d)
      | (Inr (out, None), d) \<Rightarrow> (Inr out, d)
      | (Inr (out, Some err), d) \<Rightarrow> (Inl err, d))"

definition repo_GetPriceHistory :: "string \<Rightarrow> int \<Rightarrow> (db, DailyPrice list) call" where
  "repo_GetPriceHistory symbol limit d =
     (let q = (\<lambda>d. if 0 < limit then take (nat limit) (price_rows d symbol) else price_rows d symbol)
      in case query_sql q d of
           (Inl err, d) \<Rightarrow> (Inl (wrap_text ''get price history'' err), d)
         | (Inr (out, Some err), d) \<Rightarrow> (Inl err, d)
         | (Inr (out, None), d) \<Rightarrow> if len out = 0 then (Inl sql_ErrNoRows, d) else (Inr out, d))"

definition repo_GetLatestPrice :: "string \<Rightarrow> (db, DailyPrice) call" where
  "repo_GetLatestPrice symbol d =
     (case query_row (\<lambda>d. take 1 (rev (price_rows d symbol))) d of
        (Inl err, d) \<Rightarrow> (Inl (wrap_text ''get latest price'' err), d)
      | (Inr p, d) \<Rightarrow> (Inr p, d))"

text \<open>
  The generic select over a statement table. Rows of one day with different periods tie in the order;
  the stable sort keeps them as they were inserted.
\<close>

definition statement_rows :: "('r \<Rightarrow> string) \<Rightarrow> ('r \<Rightarrow> time) \<Rightarrow> (db \<Rightarrow> (int \<times> 'r) list) \<Rightarrow> db \<Rightarrow> string \<Rightarrow> string \<Rightarrow> 'r list" where
  "statement_rows period_of date table d symbol period =
     (let rows = rows_of d symbol (table d);
          rows = (if period \<noteq> [] \<and> period \<noteq> ''all'' then filter (\<lambda>r. period_of r = period) rows else rows)
      in sort_key (\<lambda>r. - date r) rows)"

definition queryStatements ::
    "('r \<Rightarrow> string) \<Rightarrow> ('r \<Rightarrow> time) \<Rightarrow> (db \<Rightarrow> (int \<times> 'r) list) \<Rightarrow> string \<Rightarrow> string \<Rightarrow> (db, 'r list) call" where
  "queryStatements period_of date table symbol period d =
     (case query_sql (\<lambda>d. statement_rows period_of date table d symbol period) d of
        (Inl err, d) \<Rightarrow> (Inl (wrap_text ''query statements'' err), d)
      | (Inr (out, Some err), d) \<Rightarrow> (Inl err, d)
      | (Inr (out, None), d) \<Rightarrow> if len out = 0 then (Inl sql_ErrNoRows, d) else (Inr out, d))"

definition repo_GetIncomeStatements :: "string \<Rightarrow> string \<Rightarrow> (db, IncomeStatement list) call" where
  "repo_GetIncomeStatements symbol period = queryStatements inc_Period inc_FiscalDate t_income symbol period"

definition repo_GetBalanceSheets :: "string \<Rightarrow> string \<Rightarrow> (db, BalanceSheet list) call" where
  "repo_GetBalanceSheets symbol period = queryStatements bal_Period bal_FiscalDate t_balance symbol period"

definition repo_GetCashFlows :: "string \<Rightarrow> string \<Rightarrow> (db, CashFlow list) call" where
  "repo_GetCashFlows symbol period = queryStatements cfl_Period cfl_FiscalDate t_cash symbol period"

section \<open>API keys\<close>

definition repo_CreateAPIKey :: "APIKey \<Rightarrow> (db, int) call" where
  "repo_CreateAPIKey k d =
     (let stmt = (\<lambda>d.
            let i = seq_keys d;
                d = d\<lparr>seq_keys := i + 1\<rparr>
            in if key_KeyHash k \<in> key_KeyHash ` set (t_keys d)
               then (Inl (Foreign ''duplicate key value violates unique constraint''), d)
               else (Inr i, d\<lparr>t_keys := t_keys d @
                      [k\<lparr>key_ID := i, key_CreatedAt := db_now d, key_RevokedAt := None\<rparr>]\<rparr>))
      in case exec_sql stmt d of
           (Inl err, d) \<Rightarrow> (Inl (wrap_text ''create api key'' err), d)
         | (Inr i, d) \<Rightarrow> (Inr i, d))"

definition repo_GetAPIKeysByPrefix :: "string \<Rightarrow> (db, APIKey list) call" where
  "repo_GetAPIKeysByPrefix prefix d =
     (case query_sql (\<lambda>d. sort_key key_ID (filter (\<lambda>k. key_KeyPrefix k = prefix) (t_keys d))) d of
        (Inl err, d) \<Rightarrow> (Inl (wrap_text ''get api keys by prefix'' err), d)
      | (Inr (keys, Some err), d) \<Rightarrow> (Inl (wrap_text ''iterate api keys'' err), d)
      | (Inr (keys, None), d) \<Rightarrow> (Inr keys, d))"

definition repo_ListAPIKeys :: "(db, APIKey list) call" where
  "repo_ListAPIKeys d =
     (case query_sql (\<lambda>d. sort_key key_ID (t_keys d)) d of
        (Inl err, d) \<Rightarrow> (Inl (wrap_text ''list api keys'' err), d)
      | (Inr (keys, Some err), d) \<Rightarrow> (Inl (wrap_text ''iterate api keys'' err), d)
      | (Inr (keys, None), d) \<Rightarrow> (Inr keys, d))"

definition repo_RevokeAPIKey :: "int \<Rightarrow> (db, unit) call" where
  "repo_RevokeAPIKey i d =
     (let hit = (\<lambda>k. key_ID k = i \<and> key_RevokedAt k = None);
          stmt = (\<lambda>d. (Inr (len (filter hit (t_keys d))),
                   d\<lparr>t_keys := map (\<lambda>k. if hit k then k\<lparr>key_RevokedAt := Some (db_now d)\<rparr> else k) (t_keys d)\<rparr>))
      in case exec_sql stmt d of
           (Inl err, d) \<Rightarrow> (Inl (wrap_text ''revoke api key'' err), d)
         | (Inr n, d) \<Rightarrow>
             if n = 0
             then (Inl (Errorf (Error_text sql_ErrNoRows @ [Lit '': api key '', Lit (show_int i)]) [sql_ErrNoRows]), d)
             else (Inr (), d))"

section \<open>The repository as the stores of the services\<close>

definition repo_DataStore :: "Pg \<Rightarrow> db DataStore" where
  "repo_DataStore pg = \<lparr>UpsertCompany = repo_UpsertCompany, InsertPrices = repo_InsertPrices pg,
     InsertIncomeStatements = repo_InsertIncomeStatements pg, InsertBalanceSheets = repo_InsertBalanceSheets pg,
     InsertCashFlows = repo_InsertCashFlows pg, RecordRun = repo_RecordRun\<rparr>"

definition repo_KeyStore :: "db Store" where
  "repo_KeyStore = \<lparr>CreateAPIKey = repo_CreateAPIKey, GetAPIKeysByPrefix = repo_GetAPIKeysByPrefix,
     ListAPIKeys = repo_ListAPIKeys, RevokeAPIKey = repo_RevokeAPIKey\<rparr>"

text \<open>The screener query is an argument.\<close>

definition repo_QueryStore :: "Pg \<Rightarrow> (ScreenerFilter \<Rightarrow> (db, ScreenerResult list) call) \<Rightarrow> db QueryStore" where
  "repo_QueryStore pg screener = \<lparr>qs_GetCompany = repo_GetCompany, qs_ListCompanies = repo_ListCompanies pg,
     qs_GetPriceHistory = repo_GetPriceHistory, qs_GetLatestPrice = repo_GetLatestPrice,
     qs_GetIncomeStatements = repo_GetIncomeStatements, qs_GetBalanceSheets = repo_GetBalanceSheets,
     qs_GetCashFlows = repo_GetCashFlows, qs_Screener = screener\<rparr>"

end
