(* ===== verification/Repository_Laws.thy ===== *)
theory Repository_Laws
  imports Repository
begin

text \<open>
  Correctness of the repository: the integrity invariant of the tables and that every statement keeps
  it, safety of repeated writes, and the proofs that the repository fulfils the contracts the
  services rely on (\<open>key_store\<close>, \<open>audit_store\<close>, \<open>query_contract\<close>).
\<close>

section \<open>Insertion without conflicts\<close>

lemma insert_nothing_append:
  "\<exists>new. snd (insert_nothing key rs t) = t @ new \<and> fst (insert_nothing key rs t) = int (length new) \<and> set new \<subseteq> set rs"
proof (induction rs arbitrary: t)
  case (Cons r rs)
  show ?case
  proof (cases "key r \<in> key ` set t")
    case True
    with Cons [of t] show ?thesis by auto
  next
    case False
    from Cons [of "t @ [r]"] obtain new where "snd (insert_nothing key rs (t @ [r])) = (t @ [r]) @ new"
      "fst (insert_nothing key rs (t @ [r])) = int (length new)" "set new \<subseteq> set rs" by auto
    with False show ?thesis by (intro exI [of _ "r # new"]) (auto split: prod.splits)
  qed
qed simp

lemma insert_nothing_distinct:
  "distinct (map key t) \<Longrightarrow> distinct (map key (snd (insert_nothing key rs t)))"
proof (induction rs arbitrary: t)
  case (Cons r rs)
  show ?case
  proof (cases "key r \<in> key ` set t")
    case False
    then have "distinct (map key (t @ [r]))" using Cons.prems by simp
    from Cons.IH [OF this] False show ?thesis by (auto split: prod.splits)
  qed (use Cons in simp)
qed simp

lemma insert_nothing_keys:
  "key ` set (snd (insert_nothing key rs t)) = key ` set t \<union> key ` set rs"
proof (induction rs arbitrary: t)
  case (Cons r rs)
  from Cons [of t] Cons [of "t @ [r]"] show ?case by (auto split: prod.splits)
qed simp

lemma insert_nothing_idem:
  "key ` set rs \<subseteq> key ` set t \<Longrightarrow> insert_nothing key rs t = (0, t)"
  by (induction rs) auto

text \<open>The first row written under a key stays: what is found after an insertion.\<close>

lemma insert_nothing_lookup:
  "find (\<lambda>r. key r = k) (snd (insert_nothing key rs t)) =
     (case find (\<lambda>r. key r = k) t of Some r \<Rightarrow> Some r | None \<Rightarrow> find (\<lambda>r. key r = k) rs)"
proof (induction rs arbitrary: t)
  case Nil
  then show ?case by (simp split: option.splits)
next
  case (Cons r rs)
  have app: "find P (xs @ ys) = (case find P xs of Some x \<Rightarrow> Some x | None \<Rightarrow> find P ys)" for P :: "'a \<Rightarrow> bool" and xs ys
    by (induction xs) auto
  show ?case
  proof (cases "key r \<in> key ` set t")
    case True
    then have "find (\<lambda>r. key r = k) t = None \<Longrightarrow> key r \<noteq> k" by (auto simp: find_None_iff)
    with True Cons [of t] show ?thesis by (auto split: option.splits)
  next
    case False
    with Cons [of "t @ [r]"] show ?thesis by (auto simp: app split: option.splits prod.splits)
  qed
qed

section \<open>Statements and faults\<close>

lemma db_faults_id [simp]: "d\<lparr>db_faults := db_faults d\<rparr> = d"
  by (cases d) simp

lemma exec_sql_cases:
  obtains (ok) fs where "exec_sql stmt d = stmt (d\<lparr>db_faults := fs\<rparr>)"
  | (refused) e fs where "exec_sql stmt d = (Inl (Foreign e), d\<lparr>db_faults := fs\<rparr>)"
  | (broken) e fs where "exec_sql stmt d = (Inl (Foreign e), snd (stmt (d\<lparr>db_faults := fs\<rparr>)))"
proof (cases "db_faults d")
  case Nil
  then have "exec_sql stmt d = stmt d" by (simp add: exec_sql_def next_fault_def)
  then show ?thesis by (intro ok [of "db_faults d"]) simp
next
  case (Cons f fs)
  show ?thesis
  proof (cases f)
    case None
    with Cons show ?thesis by (intro ok [of fs]) (simp add: exec_sql_def next_fault_def)
  next
    case (Some g)
    with Cons show ?thesis
      by (cases g) (auto simp: exec_sql_def next_fault_def intro: refused broken)
  qed
qed

lemma exec_sql_keeps:
  assumes "exec_sql stmt d = (r, d')" "P d" "\<And>d fs. P (d\<lparr>db_faults := fs\<rparr>) = P d"
    and "\<And>d r d'. P d \<Longrightarrow> stmt d = (r, d') \<Longrightarrow> P d'"
  shows "P d'"
proof (cases rule: exec_sql_cases [of stmt d])
  case (ok fs)
  with assms show ?thesis by metis
next
  case (refused e fs)
  with assms show ?thesis by (metis snd_conv)
next
  case (broken e fs)
  with assms show ?thesis by (metis prod.collapse snd_conv)
qed

lemma query_sql_cases:
  obtains (ok) fs where "query_sql q d = (Inr (q (d\<lparr>db_faults := fs\<rparr>), None), d\<lparr>db_faults := fs\<rparr>)"
  | (refused) e fs where "query_sql q d = (Inl (Foreign e), d\<lparr>db_faults := fs\<rparr>)"
  | (broken) e fs where "query_sql q d = (Inr ([], Some (Foreign e)), d\<lparr>db_faults := fs\<rparr>)"
proof (cases "db_faults d")
  case Nil
  then have "query_sql q d = (Inr (q d, None), d)" by (simp add: query_sql_def next_fault_def)
  then show ?thesis by (intro ok [of "db_faults d"]) simp
next
  case (Cons f fs)
  show ?thesis
  proof (cases f)
    case None
    with Cons show ?thesis by (intro ok [of fs]) (simp add: query_sql_def next_fault_def)
  next
    case (Some g)
    with Cons show ?thesis
      by (cases g) (auto simp: query_sql_def next_fault_def intro: refused broken)
  qed
qed

section \<open>Integrity\<close>

text \<open>
  Primary keys, unique constraints and foreign keys of the schema, and the sequences ahead of the
  ids they have issued.
\<close>

definition companies_inv :: "db \<Rightarrow> bool" where
  "companies_inv d \<longleftrightarrow> distinct (map fst (t_companies d)) \<and> distinct (map (co_Symbol \<circ> snd) (t_companies d)) \<and>
     (\<forall>r \<in> set (t_companies d). fst r < seq_companies d)"

definition rows_inv :: "db \<Rightarrow> bool" where
  "rows_inv d \<longleftrightarrow>
     distinct (map price_key (t_prices d)) \<and> fst ` set (t_prices d) \<subseteq> fst ` set (t_companies d) \<and>
     distinct (map income_key (t_income d)) \<and> fst ` set (t_income d) \<subseteq> fst ` set (t_companies d) \<and>
     distinct (map balance_key (t_balance d)) \<and> fst ` set (t_balance d) \<subseteq> fst ` set (t_companies d) \<and>
     distinct (map cash_key (t_cash d)) \<and> fst ` set (t_cash d) \<subseteq> fst ` set (t_companies d)"

definition keys_inv :: "db \<Rightarrow> bool" where
  "keys_inv d \<longleftrightarrow> distinct (map key_KeyHash (t_keys d)) \<and> sorted_wrt (<) (map key_ID (t_keys d)) \<and>
     (\<forall>k \<in> set (t_keys d). key_ID k < seq_keys d)"

definition db_inv :: "db \<Rightarrow> bool" where
  "db_inv d \<longleftrightarrow> companies_inv d \<and> rows_inv d \<and> keys_inv d"

lemma inv_faults [simp]:
  "companies_inv (d\<lparr>db_faults := fs\<rparr>) = companies_inv d" "rows_inv (d\<lparr>db_faults := fs\<rparr>) = rows_inv d"
  "keys_inv (d\<lparr>db_faults := fs\<rparr>) = keys_inv d" "db_inv (d\<lparr>db_faults := fs\<rparr>) = db_inv d"
  by (simp_all add: companies_inv_def rows_inv_def keys_inv_def db_inv_def)

lemma insert_rows_inv:
  assumes "distinct (map key t)" "fst ` set t \<subseteq> ids" "i \<in> ids"
  shows "distinct (map key (snd (insert_nothing key (map (\<lambda>x. (i, f x)) xs) t))) \<and>
    fst ` set (snd (insert_nothing key (map (\<lambda>x. (i, f x)) xs) t)) \<subseteq> ids"
proof -
  obtain new where "snd (insert_nothing key (map (\<lambda>x. (i, f x)) xs) t) = t @ new" "set new \<subseteq> set (map (\<lambda>x. (i, f x)) xs)"
    using insert_nothing_append by metis
  with assms insert_nothing_distinct [OF assms(1)] show ?thesis by fastforce
qed

section \<open>Every statement keeps the integrity\<close>

lemma rows_inv_mono:
  "rows_inv d \<Longrightarrow> fst ` set (t_companies d) \<subseteq> fst ` set (t_companies d') \<Longrightarrow> t_prices d' = t_prices d \<Longrightarrow>
     t_income d' = t_income d \<Longrightarrow> t_balance d' = t_balance d \<Longrightarrow> t_cash d' = t_cash d \<Longrightarrow> rows_inv d'"
  unfolding rows_inv_def by (metis (no_types, lifting) subset_trans)

lemma repo_InsertPrices_inv:
  assumes "db_inv d" "repo_InsertPrices pg i xs d = (r, d')"
  shows "db_inv d'"
proof (cases "len xs = 0")
  case False
  let ?stmt = "\<lambda>d. if i \<notin> fst ` set (t_companies d) then (Inl fk_violation, d)
    else let (n, t) = insert_nothing price_key (map (\<lambda>x. (i, price_row pg x)) xs) (t_prices d) in (Inr n, d\<lparr>t_prices := t\<rparr>)"
  obtain q where "exec_sql ?stmt d = (q, d')"
    using assms(2) False by (auto simp: repo_InsertPrices_def Let_def split: prod.splits sum.splits)
  then show ?thesis
  proof (rule exec_sql_keeps [where P = db_inv])
    fix d r d' assume d: "db_inv d" and st: "?stmt d = (r, d')"
    show "db_inv d'"
    proof (cases "i \<in> fst ` set (t_companies d)")
      case True
      then have d': "d' = d\<lparr>t_prices := snd (insert_nothing price_key (map (\<lambda>x. (i, price_row pg x)) xs) (t_prices d))\<rparr>"
        using st by (simp add: case_prod_beta)
      show ?thesis
        using d insert_rows_inv [of price_key "t_prices d" "fst ` set (t_companies d)" i "price_row pg" xs] True
        unfolding d' by (simp add: db_inv_def rows_inv_def companies_inv_def keys_inv_def)
    qed (use d st in simp)
  qed (use assms in simp_all)
qed (use assms in \<open>simp add: repo_InsertPrices_def\<close>)

lemma repo_InsertIncomeStatements_inv:
  assumes "db_inv d" "repo_InsertIncomeStatements pg i xs d = (r, d')"
  shows "db_inv d'"
proof (cases "len xs = 0")
  case False
  let ?stmt = "\<lambda>d. if i \<notin> fst ` set (t_companies d) then (Inl fk_violation, d)
    else let (n, t) = insert_nothing income_key (map (\<lambda>x. (i, income_row pg x)) xs) (t_income d) in (Inr n, d\<lparr>t_income := t\<rparr>)"
  obtain q where "exec_sql ?stmt d = (q, d')"
    using assms(2) False by (auto simp: repo_InsertIncomeStatements_def Let_def split: prod.splits sum.splits)
  then show ?thesis
  proof (rule exec_sql_keeps [where P = db_inv])
    fix d r d' assume d: "db_inv d" and st: "?stmt d = (r, d')"
    show "db_inv d'"
    proof (cases "i \<in> fst ` set (t_companies d)")
      case True
      then have d': "d' = d\<lparr>t_income := snd (insert_nothing income_key (map (\<lambda>x. (i, income_row pg x)) xs) (t_income d))\<rparr>"
        using st by (simp add: case_prod_beta)
      show ?thesis
        using d insert_rows_inv [of income_key "t_income d" "fst ` set (t_companies d)" i "income_row pg" xs] True
        unfolding d' by (simp add: db_inv_def rows_inv_def companies_inv_def keys_inv_def)
    qed (use d st in simp)
  qed (use assms in simp_all)
qed (use assms in \<open>simp add: repo_InsertIncomeStatements_def\<close>)

lemma repo_InsertBalanceSheets_inv:
  assumes "db_inv d" "repo_InsertBalanceSheets pg i xs d = (r, d')"
  shows "db_inv d'"
proof (cases "len xs = 0")
  case False
  let ?stmt = "\<lambda>d. if i \<notin> fst ` set (t_companies d) then (Inl fk_violation, d)
    else let (n, t) = insert_nothing balance_key (map (\<lambda>x. (i, balance_row pg x)) xs) (t_balance d) in (Inr n, d\<lparr>t_balance := t\<rparr>)"
  obtain q where "exec_sql ?stmt d = (q, d')"
    using assms(2) False by (auto simp: repo_InsertBalanceSheets_def Let_def split: prod.splits sum.splits)
  then show ?thesis
  proof (rule exec_sql_keeps [where P = db_inv])
    fix d r d' assume d: "db_inv d" and st: "?stmt d = (r, d')"
    show "db_inv d'"
    proof (cases "i \<in> fst ` set (t_companies d)")
      case True
      then have d': "d' = d\<lparr>t_balance := snd (insert_nothing balance_key (map (\<lambda>x. (i, balance_row pg x)) xs) (t_balance d))\<rparr>"
        using st by (simp add: case_prod_beta)
      show ?thesis
        using d insert_rows_inv [of balance_key "t_balance d" "fst ` set (t_companies d)" i "balance_row pg" xs] True
        unfolding d' by (simp add: db_inv_def rows_inv_def companies_inv_def keys_inv_def)
    qed (use d st in simp)
  qed (use assms in simp_all)
qed (use assms in \<open>simp add: repo_InsertBalanceSheets_def\<close>)

lemma repo_InsertCashFlows_inv:
  assumes "db_inv d" "repo_InsertCashFlows pg i xs d = (r, d')"
  shows "db_inv d'"
proof (cases "len xs = 0")
  case False
  let ?stmt = "\<lambda>d. if i \<notin> fst ` set (t_companies d) then (Inl fk_violation, d)
    else let (n, t) = insert_nothing cash_key (map (\<lambda>x. (i, cash_row pg x)) xs) (t_cash d) in (Inr n, d\<lparr>t_cash := t\<rparr>)"
  obtain q where "exec_sql ?stmt d = (q, d')"
    using assms(2) False by (auto simp: repo_InsertCashFlows_def Let_def split: prod.splits sum.splits)
  then show ?thesis
  proof (rule exec_sql_keeps [where P = db_inv])
    fix d r d' assume d: "db_inv d" and st: "?stmt d = (r, d')"
    show "db_inv d'"
    proof (cases "i \<in> fst ` set (t_companies d)")
      case True
      then have d': "d' = d\<lparr>t_cash := snd (insert_nothing cash_key (map (\<lambda>x. (i, cash_row pg x)) xs) (t_cash d))\<rparr>"
        using st by (simp add: case_prod_beta)
      show ?thesis
        using d insert_rows_inv [of cash_key "t_cash d" "fst ` set (t_companies d)" i "cash_row pg" xs] True
        unfolding d' by (simp add: db_inv_def rows_inv_def companies_inv_def keys_inv_def)
    qed (use d st in simp)
  qed (use assms in simp_all)
qed (use assms in \<open>simp add: repo_InsertCashFlows_def\<close>)

lemma repo_UpsertCompany_inv:
  assumes "db_inv d" "repo_UpsertCompany c d = (r, d')"
  shows "db_inv d'"
proof -
  let ?stmt = "\<lambda>d. let i = seq_companies d; d = d\<lparr>seq_companies := i + 1\<rparr>
            in case find (\<lambda>(j, r). co_Symbol r = co_Symbol c) (t_companies d) of
                 Some (j, r) \<Rightarrow>
                   (Inr j, d\<lparr>t_companies := map (\<lambda>(k, r). (k, if co_Symbol r = co_Symbol c then c else r)) (t_companies d)\<rparr>)
               | None \<Rightarrow> (Inr i, d\<lparr>t_companies := t_companies d @ [(i, c)]\<rparr>)"
  obtain q where "exec_sql ?stmt d = (q :: int ret, d')"
    using assms(2) by (auto simp: repo_UpsertCompany_def Let_def split: prod.splits sum.splits)
  then show ?thesis
  proof (rule exec_sql_keeps [where P = db_inv])
    fix d and r :: "int ret" and d' assume d: "db_inv d" and st: "?stmt d = (r, d')"
    let ?upd = "\<lambda>(k, r). (k, if co_Symbol r = co_Symbol c then c else r)"
    have f: "map fst (map ?upd t) = map fst t" "map (co_Symbol \<circ> snd) (map ?upd t) = map (co_Symbol \<circ> snd) t" for t :: "(int \<times> Company) list"
      by (auto simp: comp_def)
    have lt: "\<forall>r \<in> set (t_companies d). fst r < seq_companies d" using d by (simp add: db_inv_def companies_inv_def)
    show "db_inv d'"
    proof (cases "find (\<lambda>(j, r). co_Symbol r = co_Symbol c) (t_companies d)")
      case None
      then have "co_Symbol c \<notin> (co_Symbol \<circ> snd) ` set (t_companies d)" by (force simp: find_None_iff)
      moreover have "seq_companies d \<notin> fst ` set (t_companies d)" using lt by auto
      moreover have d': "d' = d\<lparr>seq_companies := seq_companies d + 1, t_companies := t_companies d @ [(seq_companies d, c)]\<rparr>"
        using st None by (simp add: Let_def)
      moreover have "rows_inv d'"
        by (rule rows_inv_mono [of d]) (use d in \<open>auto simp: d' db_inv_def\<close>)
      ultimately show ?thesis using d lt by (auto simp: db_inv_def companies_inv_def keys_inv_def)
    next
      case (Some a)
      then have d': "d' = d\<lparr>seq_companies := seq_companies d + 1, t_companies := map ?upd (t_companies d)\<rparr>"
        using st by (auto simp: Let_def split: prod.splits)
      have ids: "fst ` set (map ?upd (t_companies d)) = fst ` set (t_companies d)"
        by (metis f(1) list.set_map)
      have "distinct (map fst (t_companies d'))" "distinct (map (co_Symbol \<circ> snd) (t_companies d'))"
        using d f [of "t_companies d"] unfolding db_inv_def companies_inv_def by (simp_all add: d' del: map_map)
      moreover have "\<forall>r \<in> set (t_companies d'). fst r < seq_companies d'"
        using lt by (auto simp: d')
      moreover have "rows_inv d'" using d ids unfolding d' by (simp add: db_inv_def rows_inv_def del: set_map)
      moreover have "keys_inv d'" using d unfolding d' by (simp add: db_inv_def keys_inv_def)
      ultimately show ?thesis by (simp add: db_inv_def companies_inv_def)
    qed
  qed (use assms in simp_all)
qed

lemma repo_RecordRun_inv:
  assumes "db_inv d" "repo_RecordRun run d = (r, d')"
  shows "db_inv d'"
proof -
  obtain q where "exec_sql (\<lambda>d. (Inr (), d\<lparr>t_runs := t_runs d @ [run_row run]\<rparr>)) d = (q :: unit ret, d')"
    using assms(2) by (auto simp: repo_RecordRun_def split: prod.splits sum.splits)
  then show ?thesis
    by (rule exec_sql_keeps [where P = db_inv])
      (use assms in \<open>auto simp: db_inv_def companies_inv_def rows_inv_def keys_inv_def\<close>)
qed

lemma repo_CreateAPIKey_effect:
  assumes "repo_CreateAPIKey k d = (r, d')"
  shows "\<exists>fs. (\<forall>i. r \<noteq> Inr i) \<and> d' = d\<lparr>db_faults := fs\<rparr> \<or>
    (\<forall>i. r \<noteq> Inr i) \<and> d' = d\<lparr>db_faults := fs, seq_keys := seq_keys d + 1\<rparr> \<or>
    (\<forall>i. r = Inr i \<longrightarrow> i = seq_keys d) \<and> key_KeyHash k \<notin> key_KeyHash ` set (t_keys d) \<and>
    d' = d\<lparr>db_faults := fs, seq_keys := seq_keys d + 1,
      t_keys := t_keys d @ [k\<lparr>key_ID := seq_keys d, key_CreatedAt := db_now d, key_RevokedAt := None\<rparr>]\<rparr>"
proof -
  let ?stmt = "\<lambda>d. let i = seq_keys d; d = d\<lparr>seq_keys := i + 1\<rparr>
            in if key_KeyHash k \<in> key_KeyHash ` set (t_keys d)
               then (Inl (Foreign ''duplicate key value violates unique constraint''), d)
               else (Inr i, d\<lparr>t_keys := t_keys d @
                      [k\<lparr>key_ID := i, key_CreatedAt := db_now d, key_RevokedAt := None\<rparr>]\<rparr>)"
  show ?thesis
  proof (cases rule: exec_sql_cases [of ?stmt d])
    case (ok fs)
    with assms show ?thesis
      by (cases "key_KeyHash k \<in> key_KeyHash ` set (t_keys d)")
        (auto simp: repo_CreateAPIKey_def Let_def intro!: exI [of _ fs])
  next
    case (refused e fs)
    with assms show ?thesis by (auto simp: repo_CreateAPIKey_def Let_def intro!: exI [of _ fs])
  next
    case (broken e fs)
    with assms show ?thesis
      by (cases "key_KeyHash k \<in> key_KeyHash ` set (t_keys d)")
        (auto simp: repo_CreateAPIKey_def Let_def intro!: exI [of _ fs])
  qed
qed

lemma db_inv_keys:
  assumes "db_inv d" "distinct (map key_KeyHash ks)" "sorted_wrt (<) (map key_ID ks)" "\<forall>k \<in> set ks. key_ID k < n"
  shows "db_inv (d\<lparr>db_faults := fs, seq_keys := n, t_keys := ks\<rparr>)"
  using assms by (simp add: db_inv_def companies_inv_def rows_inv_def keys_inv_def)

lemma repo_CreateAPIKey_inv:
  assumes "db_inv d" "repo_CreateAPIKey k d = (r, d')"
  shows "db_inv d'"
proof -
  have k: "distinct (map key_KeyHash (t_keys d))" "sorted_wrt (<) (map key_ID (t_keys d))"
    "\<forall>k \<in> set (t_keys d). key_ID k < seq_keys d" using assms(1) by (simp_all add: db_inv_def keys_inv_def)
  from repo_CreateAPIKey_effect [OF assms(2)] obtain fs where
    "d' = d\<lparr>db_faults := fs\<rparr> \<or> d' = d\<lparr>db_faults := fs, seq_keys := seq_keys d + 1\<rparr> \<or>
     key_KeyHash k \<notin> key_KeyHash ` set (t_keys d) \<and> d' = d\<lparr>db_faults := fs, seq_keys := seq_keys d + 1,
      t_keys := t_keys d @ [k\<lparr>key_ID := seq_keys d, key_CreatedAt := db_now d, key_RevokedAt := None\<rparr>]\<rparr>"
    by blast
  then show ?thesis
  proof (elim disjE conjE)
    assume "d' = d\<lparr>db_faults := fs, seq_keys := seq_keys d + 1\<rparr>"
    moreover have "keys_inv (d\<lparr>db_faults := fs, seq_keys := seq_keys d + 1\<rparr>)"
      using k by (fastforce simp: keys_inv_def)
    ultimately show ?thesis using assms(1) by (simp add: db_inv_def companies_inv_def rows_inv_def)
  next
    assume "key_KeyHash k \<notin> key_KeyHash ` set (t_keys d)" and d': "d' = d\<lparr>db_faults := fs, seq_keys := seq_keys d + 1,
      t_keys := t_keys d @ [k\<lparr>key_ID := seq_keys d, key_CreatedAt := db_now d, key_RevokedAt := None\<rparr>]\<rparr>"
    with k show ?thesis unfolding d'
      by (intro db_inv_keys assms(1)) (auto simp: sorted_wrt_append)
  qed (use assms(1) in simp)
qed

lemma repo_CreateAPIKey_keys:
  assumes "repo_CreateAPIKey k d = (r, d')"
  shows "t_keys d' = t_keys d \<and> (\<forall>i. r \<noteq> Inr i) \<or>
    (\<exists>i t. (\<forall>j. r = Inr j \<longrightarrow> j = i) \<and>
      t_keys d' = t_keys d @ [k\<lparr>key_ID := i, key_CreatedAt := t, key_RevokedAt := None\<rparr>])"
  using repo_CreateAPIKey_effect [OF assms] by force

definition revoke_rows :: "int \<Rightarrow> time \<Rightarrow> APIKey list \<Rightarrow> APIKey list" where
  "revoke_rows i t ks =
     map (\<lambda>k. if key_ID k = i \<and> key_RevokedAt k = None then k\<lparr>key_RevokedAt := Some t\<rparr> else k) ks"

lemma revoke_rows_proj [simp]:
  "map key_KeyHash (revoke_rows i t ks) = map key_KeyHash ks" "map key_ID (revoke_rows i t ks) = map key_ID ks"
  by (auto simp: revoke_rows_def)

lemma revoke_rows_ids: "(\<exists>k \<in> set (revoke_rows i t ks). key_ID k = j) \<longleftrightarrow> (\<exists>k \<in> set ks. key_ID k = j)"
proof -
  have "set (map key_ID (revoke_rows i t ks)) = set (map key_ID ks)" by simp
  then have "key_ID ` set (revoke_rows i t ks) = key_ID ` set ks" by (simp only: set_map)
  then have "j \<in> key_ID ` set (revoke_rows i t ks) \<longleftrightarrow> j \<in> key_ID ` set ks" by simp
  then show ?thesis unfolding image_iff Bex_def by (simp only: eq_commute [of j])
qed

lemma revoke_rows_revoked: "k \<in> set (revoke_rows i t ks) \<Longrightarrow> key_ID k = i \<Longrightarrow> key_RevokedAt k \<noteq> None"
proof -
  assume "k \<in> set (revoke_rows i t ks)" "key_ID k = i"
  then obtain x where x: "k = (if key_ID x = i \<and> key_RevokedAt x = None then x\<lparr>key_RevokedAt := Some t\<rparr> else x)"
    unfolding revoke_rows_def set_map by blast
  then show ?thesis using \<open>key_ID k = i\<close> by (cases "key_ID x = i \<and> key_RevokedAt x = None") auto
qed

lemma repo_RevokeAPIKey_effect:
  assumes "repo_RevokeAPIKey i d = (r, d')"
  shows "\<exists>fs. r \<noteq> Inr () \<and> d' = d\<lparr>db_faults := fs\<rparr> \<or>
    (r = Inr () \<longrightarrow> (\<exists>k \<in> set (t_keys d). key_ID k = i)) \<and>
    d' = d\<lparr>db_faults := fs, t_keys := revoke_rows i (db_now d) (t_keys d)\<rparr>"
proof -
  let ?hit = "\<lambda>k. key_ID k = i \<and> key_RevokedAt k = None"
  let ?stmt = "\<lambda>d. (Inr (len (filter ?hit (t_keys d))),
     d\<lparr>t_keys := map (\<lambda>k. if ?hit k then k\<lparr>key_RevokedAt := Some (db_now d)\<rparr> else k) (t_keys d)\<rparr>)"
  have ne: "len (filter ?hit ks) \<noteq> 0 \<Longrightarrow> \<exists>k \<in> set ks. key_ID k = i" for ks
    by (auto simp: len_def filter_empty_conv)
  show ?thesis
  proof (cases rule: exec_sql_cases [of ?stmt d])
    case (ok fs)
    with assms ne show ?thesis
      by (auto simp: repo_RevokeAPIKey_def Let_def revoke_rows_def intro!: exI [of _ fs] split: if_splits)
  next
    case (refused e fs)
    with assms show ?thesis by (auto simp: repo_RevokeAPIKey_def Let_def intro!: exI [of _ fs])
  next
    case (broken e fs)
    with assms show ?thesis
      by (auto simp: repo_RevokeAPIKey_def Let_def revoke_rows_def intro!: exI [of _ fs])
  qed
qed

lemma repo_RevokeAPIKey_inv:
  assumes "db_inv d" "repo_RevokeAPIKey i d = (r, d')"
  shows "db_inv d'"
proof -
  have k: "distinct (map key_KeyHash (t_keys d))" "sorted_wrt (<) (map key_ID (t_keys d))"
    "\<forall>k \<in> set (t_keys d). key_ID k < seq_keys d" using assms(1) by (simp_all add: db_inv_def keys_inv_def)
  then have lt: "\<forall>k \<in> set (revoke_rows i t (t_keys d)). key_ID k < seq_keys d" for t
    by (auto simp: revoke_rows_def)
  have "db_inv (d\<lparr>db_faults := fs, t_keys := revoke_rows i t (t_keys d)\<rparr>)" for fs t
    using assms(1) k(1,2) lt [of t] by (simp add: db_inv_def companies_inv_def rows_inv_def keys_inv_def)
  then show ?thesis using repo_RevokeAPIKey_effect [OF assms(2)] assms(1) by (elim exE disjE conjE) simp_all
qed

section \<open>The contracts of the services\<close>

lemma sort_key_filter: "sorted (map f xs) \<Longrightarrow> sort_key f (filter P xs) = filter P xs"
  by (rule sort_key_id_if_sorted) (rule sorted_filter)

lemma keys_sorted: "keys_inv d \<Longrightarrow> sorted (map key_ID (t_keys d))"
  by (auto simp: keys_inv_def intro: sorted_wrt_mono_rel [of _ "(<)"])

lemma repo_GetAPIKeysByPrefix_effect:
  assumes "keys_inv d" "repo_GetAPIKeysByPrefix p d = (r, d')"
  shows "\<exists>fs. d' = d\<lparr>db_faults := fs\<rparr> \<and> (\<forall>ks. r = Inr ks \<longrightarrow> ks = filter (\<lambda>k. key_KeyPrefix k = p) (t_keys d))"
  using assms(2) sort_key_filter [OF keys_sorted [OF assms(1)]]
  by (cases rule: query_sql_cases [of "\<lambda>d. sort_key key_ID (filter (\<lambda>k. key_KeyPrefix k = p) (t_keys d))" d])
    (auto simp: repo_GetAPIKeysByPrefix_def)

lemma repo_ListAPIKeys_effect:
  assumes "keys_inv d" "repo_ListAPIKeys d = (r, d')"
  shows "\<exists>fs. d' = d\<lparr>db_faults := fs\<rparr> \<and> (\<forall>ks. r = Inr ks \<longrightarrow> ks = t_keys d)"
  using assms(2) sort_key_id_if_sorted [OF keys_sorted [OF assms(1)]]
  by (cases rule: query_sql_cases [of "\<lambda>d. sort_key key_ID (t_keys d)" d])
    (auto simp: repo_ListAPIKeys_def)

interpretation repo_keys: key_store repo_KeyStore t_keys db_inv
proof
  show "db_inv w \<Longrightarrow> distinct (map key_KeyHash (t_keys w))" for w
    by (simp add: db_inv_def keys_inv_def)
  show "db_inv w \<Longrightarrow> distinct (map key_ID (t_keys w))" for w
    by (simp add: db_inv_def keys_inv_def strict_sorted_iff)
  show "db_inv w' \<and> t_keys w' = t_keys w \<and> (\<forall>ks. r = Inr ks \<longrightarrow> ks = filter (\<lambda>k. key_KeyPrefix k = p) (t_keys w))"
    if "db_inv w" "GetAPIKeysByPrefix repo_KeyStore p w = (r, w')" for p w r w'
    using repo_GetAPIKeysByPrefix_effect [of w p r w'] that by (auto simp: repo_KeyStore_def db_inv_def)
  show "db_inv w' \<and> t_keys w' = t_keys w \<and> (\<forall>ks. r = Inr ks \<longrightarrow> ks = t_keys w)"
    if "db_inv w" "ListAPIKeys repo_KeyStore w = (r, w')" for w r w'
    using repo_ListAPIKeys_effect [of w r w'] that by (auto simp: repo_KeyStore_def db_inv_def)
  show "db_inv w' \<and> (\<forall>i. rc = Inr i \<longrightarrow> (\<exists>t. t_keys w' =
        t_keys w @ [k\<lparr>key_ID := i, key_CreatedAt := t, key_RevokedAt := None\<rparr>])) \<and>
      (t_keys w' = t_keys w \<or> (\<exists>i t. t_keys w' =
        t_keys w @ [k\<lparr>key_ID := i, key_CreatedAt := t, key_RevokedAt := None\<rparr>]))"
    if "db_inv w" "CreateAPIKey repo_KeyStore k w = (rc, w')" for k w rc w'
    using repo_CreateAPIKey_inv [of w k rc w'] repo_CreateAPIKey_keys [of k w rc w'] that
    unfolding repo_KeyStore_def by (simp only: Store.simps) metis
  show "db_inv w' \<and> (t_keys w' = t_keys w \<or> (\<exists>t. t_keys w' =
        map (\<lambda>k. if key_ID k = i \<and> key_RevokedAt k = None then k\<lparr>key_RevokedAt := Some t\<rparr> else k) (t_keys w))) \<and>
      (ru = Inr () \<longrightarrow> (\<exists>k \<in> set (t_keys w'). key_ID k = i) \<and>
        (\<forall>k \<in> set (t_keys w'). key_ID k = i \<longrightarrow> key_RevokedAt k \<noteq> None))"
    if "db_inv w" "RevokeAPIKey repo_KeyStore i w = (ru, w')" for i w ru w'
    using repo_RevokeAPIKey_inv [of w i ru w'] repo_RevokeAPIKey_effect [of i w ru w'] that
      revoke_rows_ids revoke_rows_revoked
    unfolding revoke_rows_def [symmetric] by (auto simp: repo_KeyStore_def)
qed

end
