(* ===== verification/Repository_Contracts.thy ===== *)
theory Repository_Contracts
  imports Repository_Laws
begin

text \<open>
  The repository as audit trail and as query store, and the safety of repeated writes.
\<close>

section \<open>The inserts as one statement\<close>

text \<open>The statement of a bulk insertion, for any of the four tables.\<close>

definition bulk_insert ::
    "(int \<times> 'r \<Rightarrow> 'k) \<Rightarrow> (db \<Rightarrow> (int \<times> 'r) list) \<Rightarrow> (((int \<times> 'r) list \<Rightarrow> (int \<times> 'r) list) \<Rightarrow> db \<Rightarrow> db) \<Rightarrow>
     int \<Rightarrow> (int \<times> 'r) list \<Rightarrow> db \<Rightarrow> int ret \<times> db" where
  "bulk_insert key table put i rs d =
     (if i \<notin> fst ` set (t_companies d) then (Inl fk_violation, d)
      else let (n, t) = insert_nothing key rs (table d) in (Inr n, put (\<lambda>_. t) d))"

definition wrap_error :: "string \<Rightarrow> 'a ret \<times> db \<Rightarrow> 'a ret \<times> db" where
  "wrap_error s r = (case r of (Inl err, d) \<Rightarrow> (Inl (wrap_text s err), d) | (Inr n, d) \<Rightarrow> (Inr n, d))"

lemma wrap_error_simps [simp]: "snd (wrap_error s r) = snd r" "fst (wrap_error s r) = Inr n \<longleftrightarrow> fst r = Inr n"
  "wrap_error s (Inr n, d) = (Inr n, d)"
  by (auto simp: wrap_error_def split: prod.splits sum.splits)

lemma inserts_eq:
  "repo_InsertPrices pg i ps d = (if ps = [] then (Inr 0, d) else wrap_error ''insert prices''
     (exec_sql (bulk_insert price_key t_prices t_prices_update i (map (\<lambda>p. (i, price_row pg p)) ps)) d))"
  "repo_InsertIncomeStatements pg i xs d = (if xs = [] then (Inr 0, d) else wrap_error ''insert income statements''
     (exec_sql (bulk_insert income_key t_income t_income_update i (map (\<lambda>p. (i, income_row pg p)) xs)) d))"
  "repo_InsertBalanceSheets pg i bs d = (if bs = [] then (Inr 0, d) else wrap_error ''insert balance sheets''
     (exec_sql (bulk_insert balance_key t_balance t_balance_update i (map (\<lambda>p. (i, balance_row pg p)) bs)) d))"
  "repo_InsertCashFlows pg i fs d = (if fs = [] then (Inr 0, d) else wrap_error ''insert cash flow statements''
     (exec_sql (bulk_insert cash_key t_cash t_cash_update i (map (\<lambda>p. (i, cash_row pg p)) fs)) d))"
  by (simp_all add: repo_InsertPrices_def repo_InsertIncomeStatements_def repo_InsertBalanceSheets_def
      repo_InsertCashFlows_def bulk_insert_def [abs_def] wrap_error_def Let_def len_def)

definition upsert_stmt :: "Company \<Rightarrow> db \<Rightarrow> int ret \<times> db" where
  "upsert_stmt c d =
     (let i = seq_companies d; d = d\<lparr>seq_companies := i + 1\<rparr>
      in case find (\<lambda>(j, r). co_Symbol r = co_Symbol c) (t_companies d) of
           Some (j, r) \<Rightarrow>
             (Inr j, d\<lparr>t_companies := map (\<lambda>(k, r). (k, if co_Symbol r = co_Symbol c then c else r)) (t_companies d)\<rparr>)
         | None \<Rightarrow> (Inr i, d\<lparr>t_companies := t_companies d @ [(i, c)]\<rparr>))"

lemma upsert_eq: "repo_UpsertCompany c d = wrap_error ''upsert company'' (exec_sql (upsert_stmt c) d)"
  unfolding repo_UpsertCompany_def upsert_stmt_def [abs_def] Let_def wrap_error_def ..

section \<open>The audit trail\<close>

lemma exec_sql_field:
  assumes "\<And>d. f (snd (stmt d)) = f d" "\<And>d fs. f (d\<lparr>db_faults := fs\<rparr>) = f d"
  shows "f (snd (exec_sql stmt d)) = f d"
  using assms by (cases rule: exec_sql_cases [of stmt d]) simp_all

lemma stmt_runs:
  "t_runs (snd (bulk_insert price_key t_prices t_prices_update i rs d)) = t_runs d"
  "t_runs (snd (bulk_insert income_key t_income t_income_update i rs1 d)) = t_runs d"
  "t_runs (snd (bulk_insert balance_key t_balance t_balance_update i rs2 d)) = t_runs d"
  "t_runs (snd (bulk_insert cash_key t_cash t_cash_update i rs3 d)) = t_runs d"
  "t_runs (snd (upsert_stmt c d)) = t_runs d"
  by (simp_all add: bulk_insert_def upsert_stmt_def case_prod_beta Let_def split: option.split)

lemma insert_runs:
  "t_runs (snd (repo_InsertPrices pg i ps d)) = t_runs d"
  "t_runs (snd (repo_InsertIncomeStatements pg i xs d)) = t_runs d"
  "t_runs (snd (repo_InsertBalanceSheets pg i bs d)) = t_runs d"
  "t_runs (snd (repo_InsertCashFlows pg i fs d)) = t_runs d"
  "t_runs (snd (repo_UpsertCompany c d)) = t_runs d"
  unfolding inserts_eq upsert_eq by (simp_all add: exec_sql_field [where f = t_runs] stmt_runs)

lemma stmt_calm:
  "db_faults (snd (bulk_insert price_key t_prices t_prices_update i rs d)) = db_faults d"
  "db_faults (snd (bulk_insert income_key t_income t_income_update i rs1 d)) = db_faults d"
  "db_faults (snd (bulk_insert balance_key t_balance t_balance_update i rs2 d)) = db_faults d"
  "db_faults (snd (bulk_insert cash_key t_cash t_cash_update i rs3 d)) = db_faults d"
  "db_faults (snd (upsert_stmt c d)) = db_faults d"
  by (simp_all add: bulk_insert_def upsert_stmt_def case_prod_beta Let_def split: option.split)

lemma insert_calm:
  assumes "db_faults d = []"
  shows "db_faults (snd (repo_InsertPrices pg i ps d)) = []"
    and "db_faults (snd (repo_InsertIncomeStatements pg i xs d)) = []"
    and "db_faults (snd (repo_InsertBalanceSheets pg i bs d)) = []"
    and "db_faults (snd (repo_InsertCashFlows pg i fs d)) = []"
    and "db_faults (snd (repo_UpsertCompany c d)) = []"
  unfolding inserts_eq upsert_eq using assms by (simp_all add: exec_sql_def next_fault_def stmt_calm)

lemma repo_RecordRun_runs:
  assumes "repo_RecordRun run d = (r, d')"
  shows "(r = Inr () \<longrightarrow> t_runs d' = t_runs d @ [run_row run]) \<and> t_runs d' \<in> {t_runs d, t_runs d @ [run_row run]} \<and>
    (db_faults d = [] \<longrightarrow> r = Inr ())"
proof
  show "r = Inr () \<longrightarrow> t_runs d' = t_runs d @ [run_row run]"
    using assms
    by (cases rule: exec_sql_cases [of "\<lambda>d. (Inr (), d\<lparr>t_runs := t_runs d @ [run_row run]\<rparr>)" d])
      (auto simp: repo_RecordRun_def)
  show "t_runs d' \<in> {t_runs d, t_runs d @ [run_row run]} \<and> (db_faults d = [] \<longrightarrow> r = Inr ())"
    using assms
    by (cases rule: exec_sql_cases [of "\<lambda>d. (Inr (), d\<lparr>t_runs := t_runs d @ [run_row run]\<rparr>)" d])
      (auto simp: repo_RecordRun_def exec_sql_def next_fault_def split: if_splits)
qed

interpretation repo_audit: audit_store "repo_DataStore pg" t_runs run_row "\<lambda>d. db_faults d = []" for pg
proof
  show "RecordRun (repo_DataStore pg) run w = (ru, w') \<Longrightarrow>
      (ru = Inr () \<longrightarrow> t_runs w' = t_runs w @ [run_row run]) \<and> t_runs w' \<in> {t_runs w, t_runs w @ [run_row run]} \<and>
      (db_faults w = [] \<longrightarrow> ru = Inr ())"
    for run w ru w' using repo_RecordRun_runs by (simp add: repo_DataStore_def)
qed (use insert_runs insert_calm in \<open>simp_all add: repo_DataStore_def, (metis snd_conv)+\<close>)

section \<open>The query store\<close>

text \<open>The data of the database: all tables, without the pending faults.\<close>

definition db_view :: "db \<Rightarrow> db" where "db_view d = d\<lparr>db_faults := []\<rparr>"

definition view_company :: "db \<Rightarrow> string \<Rightarrow> Company option" where
  "view_company d symbol = (case company_rows d symbol of [] \<Rightarrow> None | c # _ \<Rightarrow> Some c)"

definition view_income :: "db \<Rightarrow> string \<Rightarrow> string \<Rightarrow> IncomeStatement list" where
  "view_income = statement_rows inc_Period inc_FiscalDate t_income"

definition view_balance :: "db \<Rightarrow> string \<Rightarrow> string \<Rightarrow> BalanceSheet list" where
  "view_balance = statement_rows bal_Period bal_FiscalDate t_balance"

lemma rows_faults [simp]:
  "company_rows (d\<lparr>db_faults := fs\<rparr>) s = company_rows d s" "price_rows (d\<lparr>db_faults := fs\<rparr>) s = price_rows d s"
  "rows_of (d\<lparr>db_faults := fs\<rparr>) s t = rows_of d s t" "db_view (d\<lparr>db_faults := fs\<rparr>) = db_view d"
  by (simp_all add: company_rows_def price_rows_def rows_of_def db_view_def)

lemma view_rows [simp]:
  "company_rows (db_view d) s = company_rows d s" "price_rows (db_view d) s = price_rows d s"
  "rows_of (db_view d) s t = rows_of d s t"
  by (simp_all add: db_view_def)

lemma statement_rows_faults:
  "(\<And>d fs. table (d\<lparr>db_faults := fs\<rparr>) = table d) \<Longrightarrow>
     statement_rows p f table (d\<lparr>db_faults := fs\<rparr>) s per = statement_rows p f table d s per"
  by (simp add: statement_rows_def)

lemma view_statements [simp]:
  "view_income (d\<lparr>db_faults := fs\<rparr>) = view_income d" "view_balance (d\<lparr>db_faults := fs\<rparr>) = view_balance d"
  "view_income (db_view d) = view_income d" "view_balance (db_view d) = view_balance d"
  by (auto simp: view_income_def view_balance_def db_view_def fun_eq_iff statement_rows_faults)

lemma plain_Foreign: "plain_error (Foreign e)" "plain_error sql_ErrNoRows"
  "plain_error (wrap_text s e') = plain_error e'"
  by (auto simp: plain_error_def ErrNotFound_def ErrInsufficientData_def ErrInvalidSymbol_def sql_ErrNoRows_def wrap_text_def)

lemma NoRows_Foreign: "sql_ErrNoRows \<noteq> Foreign e" "Foreign e \<noteq> sql_ErrNoRows"
  "errors_Is (wrap_text s e') sql_ErrNoRows = errors_Is e' sql_ErrNoRows"
  by (auto simp: sql_ErrNoRows_def wrap_text_def)

lemmas plain_simps = plain_Foreign NoRows_Foreign

lemma query_row_laws:
  assumes "query_row q d = (r, d')" "\<And>d fs. q (d\<lparr>db_faults := fs\<rparr>) = q d"
  shows "db_view d' = db_view d \<and>
    (case r of Inr x \<Rightarrow> \<exists>xs. q d = x # xs
     | Inl e \<Rightarrow> plain_error e \<and> (errors_Is e sql_ErrNoRows \<longrightarrow> q d = []))"
  using assms
  by (cases rule: query_sql_cases [of q d])
    (auto simp: query_row_def plain_simps split: list.splits)

lemma repo_GetCompany_laws:
  assumes "repo_GetCompany s d = (r, d')"
  shows "db_view d' = db_view d \<and>
    (case r of Inr x \<Rightarrow> view_company d s = Some x
     | Inl e \<Rightarrow> plain_error e \<and> (errors_Is e sql_ErrNoRows \<longrightarrow> view_company d s = None))"
proof -
  obtain q d1 where 1: "query_row (\<lambda>d. company_rows d s) d = (q, d1)" by force
  from query_row_laws [OF 1] assms 1 show ?thesis
    by (auto simp: repo_GetCompany_def view_company_def plain_simps split: sum.splits list.splits)
qed

lemma repo_GetLatestPrice_laws:
  assumes "repo_GetLatestPrice s d = (r, d')"
  shows "db_view d' = db_view d \<and>
    (case r of Inr x \<Rightarrow> price_rows d s \<noteq> [] \<and> x = last (price_rows d s)
     | Inl e \<Rightarrow> plain_error e \<and> (errors_Is e sql_ErrNoRows \<longrightarrow> price_rows d s = []))"
proof -
  obtain q d1 where 1: "query_row (\<lambda>d. take 1 (rev (price_rows d s))) d = (q, d1)" by force
  have l: "take 1 (rev ys) = x # xs \<Longrightarrow> ys \<noteq> [] \<and> x = last ys" for ys :: "DailyPrice list" and x xs
    by (cases ys rule: rev_cases) auto
  from query_row_laws [OF 1] assms 1 l show ?thesis
    by (auto simp: repo_GetLatestPrice_def plain_simps split: sum.splits)
qed

lemma repo_GetPriceHistory_laws:
  assumes "repo_GetPriceHistory s 0 d = (r, d')"
  shows "db_view d' = db_view d \<and>
    (case r of Inr xs \<Rightarrow> xs = price_rows d s \<and> xs \<noteq> []
     | Inl e \<Rightarrow> plain_error e \<and> (errors_Is e sql_ErrNoRows \<longrightarrow> price_rows d s = []))"
  using assms
  by (cases rule: query_sql_cases [of "\<lambda>d. price_rows d s" d])
    (auto simp: repo_GetPriceHistory_def plain_simps len_def split: if_splits)

lemma queryStatements_laws:
  assumes "queryStatements p f table s per d = (r, d')" "\<And>d fs. table (d\<lparr>db_faults := fs\<rparr>) = table d"
  shows "db_view d' = db_view d \<and>
    (case r of Inr xs \<Rightarrow> xs = statement_rows p f table d s per \<and> xs \<noteq> []
     | Inl e \<Rightarrow> plain_error e \<and> (errors_Is e sql_ErrNoRows \<longrightarrow> statement_rows p f table d s per = []))"
  using assms statement_rows_faults [of table, OF assms(2)]
  by (cases rule: query_sql_cases [of "\<lambda>d. statement_rows p f table d s per" d])
    (auto simp: queryStatements_def plain_simps len_def split: if_splits)

interpretation repo_query: query_contract "repo_QueryStore pg scr" db_view view_company price_rows view_income view_balance
  for pg scr
proof
  have v: "view_company (db_view d) s = view_company d s" for d s by (simp add: view_company_def)
  show "db_view w' = db_view w \<and> (case rc of Inr x \<Rightarrow> view_company (db_view w) s = Some x
       | Inl e \<Rightarrow> plain_error e \<and> (errors_Is e sql_ErrNoRows \<longrightarrow> view_company (db_view w) s = None))"
    if "qs_GetCompany (repo_QueryStore pg scr) s w = (rc, w')" for s w rc w'
    using repo_GetCompany_laws [of s w rc w'] that by (auto simp: repo_QueryStore_def v split: sum.splits)
  show "db_view w' = db_view w \<and> (case rh of Inr xs \<Rightarrow> xs = price_rows (db_view w) s \<and> xs \<noteq> []
       | Inl e \<Rightarrow> plain_error e \<and> (errors_Is e sql_ErrNoRows \<longrightarrow> price_rows (db_view w) s = []))"
    if "qs_GetPriceHistory (repo_QueryStore pg scr) s 0 w = (rh, w')" for s w rh w'
    using repo_GetPriceHistory_laws [of s w rh w'] that by (auto simp: repo_QueryStore_def split: sum.splits)
  show "db_view w' = db_view w \<and> (case rl of Inr p \<Rightarrow> price_rows (db_view w) s \<noteq> [] \<and> p = last (price_rows (db_view w) s)
       | Inl e \<Rightarrow> plain_error e \<and> (errors_Is e sql_ErrNoRows \<longrightarrow> price_rows (db_view w) s = []))"
    if "qs_GetLatestPrice (repo_QueryStore pg scr) s w = (rl, w')" for s w rl w'
    using repo_GetLatestPrice_laws [of s w rl w'] that by (auto simp: repo_QueryStore_def split: sum.splits)
  show "db_view w' = db_view w \<and> (case ri of Inr xs \<Rightarrow> xs = view_income (db_view w) s p \<and> xs \<noteq> []
       | Inl e \<Rightarrow> plain_error e \<and> (errors_Is e sql_ErrNoRows \<longrightarrow> view_income (db_view w) s p = []))"
    if "qs_GetIncomeStatements (repo_QueryStore pg scr) s p w = (ri, w')" for s p w ri w'
    using queryStatements_laws [of inc_Period inc_FiscalDate t_income s p w ri w'] that
    by (auto simp: repo_QueryStore_def repo_GetIncomeStatements_def view_income_def [symmetric] split: sum.splits)
  show "db_view w' = db_view w \<and> (case rb of Inr xs \<Rightarrow> xs = view_balance (db_view w) s p \<and> xs \<noteq> []
       | Inl e \<Rightarrow> plain_error e \<and> (errors_Is e sql_ErrNoRows \<longrightarrow> view_balance (db_view w) s p = []))"
    if "qs_GetBalanceSheets (repo_QueryStore pg scr) s p w = (rb, w')" for s p w rb w'
    using queryStatements_laws [of bal_Period bal_FiscalDate t_balance s p w rb w'] that
    by (auto simp: repo_QueryStore_def repo_GetBalanceSheets_def view_balance_def [symmetric] split: sum.splits)
qed

section \<open>Repeated writes\<close>

text \<open>
  A statement is absorbed when running it on its own result returns \<open>n\<close> and changes nothing; then a
  caller that lost the reply of the first run, or that simply runs it again, ends in the same tables.
\<close>

definition absorbed :: "(db \<Rightarrow> int ret \<times> db) \<Rightarrow> bool" where
  "absorbed stmt \<longleftrightarrow> (\<forall>d. \<exists>r. stmt (snd (stmt d)) = (r, snd (stmt d)) \<and> (\<forall>n. fst (stmt d) = Inr n \<longrightarrow> r = Inr 0))"

lemma insert_absorbed:
  fixes key :: "int \<times> 'r \<Rightarrow> 'k" and table :: "db \<Rightarrow> (int \<times> 'r) list"
  assumes get: "\<And>d t. table (put (\<lambda>_. t) d) = t" and put2: "\<And>d t u. put (\<lambda>_. t) (put (\<lambda>_. u) d) = put (\<lambda>_. t) d"
    and self: "\<And>d. put (\<lambda>_. table d) d = d" and co: "\<And>d t. t_companies (put (\<lambda>_. t) d) = t_companies d"
  shows "absorbed (\<lambda>d. if i \<notin> fst ` set (t_companies d) then (Inl fk_violation, d)
    else let (n, t) = insert_nothing key rs (table d) in (Inr n, put (\<lambda>_. t) d))"
  unfolding absorbed_def
proof
  fix d
  let ?st = "\<lambda>d. if i \<notin> fst ` set (t_companies d) then (Inl fk_violation, d)
    else let (n, t) = insert_nothing key rs (table d) in (Inr n, put (\<lambda>_. t) d)"
  show "\<exists>r. ?st (snd (?st d)) = (r, snd (?st d)) \<and> (\<forall>n. fst (?st d) = Inr n \<longrightarrow> r = Inr 0)"
  proof (cases "i \<in> fst ` set (t_companies d)")
    case True
    define t where "t = snd (insert_nothing key rs (table d))"
    have "key ` set rs \<subseteq> key ` set t" unfolding t_def insert_nothing_keys by simp
    then have i: "insert_nothing key rs t = (0, t)" by (rule insert_nothing_idem)
    have a: "snd (?st d) = put (\<lambda>_. t) d" using True by (simp add: t_def case_prod_beta)
    have b: "?st (put (\<lambda>_. t) d) = (Inr 0, put (\<lambda>_. t) d)" using True i by (simp add: co get put2)
    have "?st (snd (?st d)) = (Inr 0, snd (?st d))" by (simp only: a b)
    then show ?thesis by blast
  qed simp
qed

lemma exec_retry:
  assumes ab: "absorbed stmt"
    and fa: "\<And>d fs. stmt (d\<lparr>db_faults := fs\<rparr>) = (fst (stmt d), (snd (stmt d))\<lparr>db_faults := fs\<rparr>)"
  shows "db_view (snd (exec_sql stmt (db_view (snd (exec_sql stmt d))))) = db_view (snd (exec_sql stmt (db_view d)))"
    and "fst (exec_sql stmt d) = Inr n \<Longrightarrow>
      exec_sql stmt (db_view (snd (exec_sql stmt d))) = (Inr 0, db_view (snd (exec_sql stmt d)))"
proof -
  have ex: "exec_sql stmt (db_view x) = (fst (stmt x), db_view (snd (stmt x)))" for x
    using fa [of "[]" x] by (simp add: exec_sql_def next_fault_def db_view_def)
  have v: "db_view (db_view x) = db_view x" for x by (simp add: db_view_def)
  have ab': "\<exists>r. stmt (snd (stmt d)) = (r, snd (stmt d)) \<and> (\<forall>n. fst (stmt d) = Inr n \<longrightarrow> r = Inr 0)"
    using ab unfolding absorbed_def by blast
  show "db_view (snd (exec_sql stmt (db_view (snd (exec_sql stmt d))))) = db_view (snd (exec_sql stmt (db_view d)))"
    using ab' by (cases rule: exec_sql_cases [of stmt d]) (auto simp: ex v fa)
  show "exec_sql stmt (db_view (snd (exec_sql stmt d))) = (Inr 0, db_view (snd (exec_sql stmt d)))"
    if "fst (exec_sql stmt d) = Inr n"
    using ab' that by (cases rule: exec_sql_cases [of stmt d]) (auto simp: ex v fa)
qed

lemma bulk_insert_absorbed:
  "absorbed (bulk_insert price_key t_prices t_prices_update i rs)"
  "absorbed (bulk_insert income_key t_income t_income_update i rs1)"
  "absorbed (bulk_insert balance_key t_balance t_balance_update i rs2)"
  "absorbed (bulk_insert cash_key t_cash t_cash_update i rs3)"
  unfolding bulk_insert_def [abs_def] by (rule insert_absorbed; simp)+

lemma bulk_insert_faults:
  "bulk_insert price_key t_prices t_prices_update i rs (d\<lparr>db_faults := fs\<rparr>) =
     (fst (bulk_insert price_key t_prices t_prices_update i rs d),
      (snd (bulk_insert price_key t_prices t_prices_update i rs d))\<lparr>db_faults := fs\<rparr>)"
  "bulk_insert income_key t_income t_income_update i rs1 (d\<lparr>db_faults := fs\<rparr>) =
     (fst (bulk_insert income_key t_income t_income_update i rs1 d),
      (snd (bulk_insert income_key t_income t_income_update i rs1 d))\<lparr>db_faults := fs\<rparr>)"
  "bulk_insert balance_key t_balance t_balance_update i rs2 (d\<lparr>db_faults := fs\<rparr>) =
     (fst (bulk_insert balance_key t_balance t_balance_update i rs2 d),
      (snd (bulk_insert balance_key t_balance t_balance_update i rs2 d))\<lparr>db_faults := fs\<rparr>)"
  "bulk_insert cash_key t_cash t_cash_update i rs3 (d\<lparr>db_faults := fs\<rparr>) =
     (fst (bulk_insert cash_key t_cash t_cash_update i rs3 d),
      (snd (bulk_insert cash_key t_cash t_cash_update i rs3 d))\<lparr>db_faults := fs\<rparr>)"
  by (simp_all add: bulk_insert_def case_prod_beta)

lemmas bulk_retry =
  exec_retry [OF bulk_insert_absorbed(1) bulk_insert_faults(1)]
  exec_retry [OF bulk_insert_absorbed(2) bulk_insert_faults(2)]
  exec_retry [OF bulk_insert_absorbed(3) bulk_insert_faults(3)]
  exec_retry [OF bulk_insert_absorbed(4) bulk_insert_faults(4)]

text \<open>
  Writes may be repeated. However a bulk insertion ended, refused, executed, or executed with its
  reply lost, running it again leaves exactly the tables that a single undisturbed run leaves: the
  unique keys with \<^verbatim>\<open>ON CONFLICT DO NOTHING\<close> absorb the duplicates, for prices and all three statements.
\<close>
theorem insert_retry_safe:
  "db_view (snd (repo_InsertPrices pg i ps (db_view (snd (repo_InsertPrices pg i ps d))))) =
     db_view (snd (repo_InsertPrices pg i ps (db_view d))) \<and>
   db_view (snd (repo_InsertIncomeStatements pg i xs (db_view (snd (repo_InsertIncomeStatements pg i xs d))))) =
     db_view (snd (repo_InsertIncomeStatements pg i xs (db_view d))) \<and>
   db_view (snd (repo_InsertBalanceSheets pg i bs (db_view (snd (repo_InsertBalanceSheets pg i bs d))))) =
     db_view (snd (repo_InsertBalanceSheets pg i bs (db_view d))) \<and>
   db_view (snd (repo_InsertCashFlows pg i fs (db_view (snd (repo_InsertCashFlows pg i fs d))))) =
     db_view (snd (repo_InsertCashFlows pg i fs (db_view d)))"
  unfolding inserts_eq by (simp add: bulk_retry)

end
