(* ===== verification/Key_Lifecycle.thy ===== *)
theory Key_Lifecycle
  imports Repository_Contracts
begin

text \<open>
  The life of an API key, from \<^verbatim>\<open>keygen create\<close> over every authenticated request to
  \<^verbatim>\<open>keygen revoke\<close>: the auth service on top of the repository. The facts come from the contract
  \<open>key_store\<close>, interpreted on the repository as \<open>repo_keys\<close>.
\<close>

section \<open>Creation\<close>

text \<open>The database as the migrations leave it, with some key rows.\<close>

definition fresh_db :: "APIKey list \<Rightarrow> int \<Rightarrow> db" where
  "fresh_db ks n = \<lparr>t_companies = [], t_prices = [], t_income = [], t_balance = [], t_cash = [], t_runs = [],
     t_keys = ks, seq_companies = 1, seq_keys = n, db_now = 0, db_faults = []\<rparr>"

lemma fresh_db_inv: "keys_inv (fresh_db ks n) \<Longrightarrow> db_inv (fresh_db ks n)"
  by (simp add: db_inv_def companies_inv_def rows_inv_def fresh_db_def)

text \<open>The environment of the service: a source of bytes and the clock, which do not touch the database.\<close>

definition fixed_Env :: "(nat \<Rightarrow> char) ret \<Rightarrow> time \<Rightarrow> db Env" where
  "fixed_Env entropy now = \<lparr>rand_Read = (\<lambda>d. (entropy, d)), Now = (\<lambda>d. (now, d))\<rparr>"

lemma GenerateRaw_fixed:
  "GenerateRaw (fixed_Env entropy now) d =
     (case entropy of
        Inl e \<Rightarrow> (Inl (wrap_text ''auth: generate key'' e), d)
      | Inr fill \<Rightarrow> (Inr (''fda_'' @ hex_EncodeToString (map fill [0..<32])), d))"
  by (simp add: GenerateRaw_def fixed_Env_def KeyPrefix_def KeyEntropyBytes_def Let_def split: sum.splits)

definition raw_of :: "(nat \<Rightarrow> char) \<Rightarrow> string" where
  "raw_of fill = ''fda_'' @ hex_EncodeToString (map fill [0..<32])"

definition issued :: "string \<Rightarrow> string \<Rightarrow> time option \<Rightarrow> APIKey" where
  "issued raw label ex = \<lparr>key_ID = 0, key_KeyPrefix = take 8 (drop 4 raw), key_KeyHash = HashKey raw,
    key_Label = label, key_CreatedAt = 0, key_ExpiresAt = ex, key_RevokedAt = None\<rparr>"

lemma raw_of_wf: "rawKeyRe (raw_of fill)"
  using GenerateRaw_wf [of "fixed_Env (Inr fill) 0" undefined "raw_of fill" undefined]
  by (simp add: GenerateRaw_fixed raw_of_def)

lemma Create_fixed:
  "Create (fixed_Env (Inr fill) now) store label ex d =
     (case CreateAPIKey store (issued (raw_of fill) label ex) d of
        (Inl err, d) \<Rightarrow> (Err err, d)
      | (Inr i, d) \<Rightarrow> (Ok (raw_of fill, (issued (raw_of fill) label ex)\<lparr>key_ID := i\<rparr>), d))"
proof -
  have "LookupPrefix (raw_of fill) = Ok (take 8 (drop 4 (raw_of fill)))"
    using rawKeyRe_length [OF raw_of_wf] by (intro LookupPrefix_Ok) simp
  then show ?thesis
    unfolding Create_def GenerateRaw_fixed raw_of_def [symmetric] sum.case prod.case
    by (simp only: outcome.case Let_def issued_def [symmetric])
qed

lemma Create_no_entropy: "fst (Create (fixed_Env (Inl e) now) store label ex d) \<noteq> Ok x"
  "snd (Create (fixed_Env (Inl e) now) store label ex d) = d"
  by (simp_all add: Create_def GenerateRaw_fixed)

lemma Create_Ok:
  assumes "Create (fixed_Env entropy now) repo_KeyStore label ex d = (Ok (raw, k), d')" "db_inv d"
  shows "rawKeyRe raw \<and> db_inv d' \<and> key_KeyHash k = HashKey raw \<and> key_KeyPrefix k = take 8 (drop 4 raw) \<and>
    key_Label k = label \<and> key_ExpiresAt k = ex \<and>
    (\<exists>t. t_keys d' = t_keys d @ [k\<lparr>key_CreatedAt := t, key_RevokedAt := None\<rparr>])"
proof -
  obtain fill where e: "entropy = Inr fill"
    using assms(1) Create_no_entropy(1) by (cases entropy) (auto, metis fst_conv)
  obtain q d2 where c: "CreateAPIKey repo_KeyStore (issued (raw_of fill) label ex) d = (q, d2)" by force
  with assms(1) obtain i where q: "q = Inr i" "d' = d2" "raw = raw_of fill"
    "k = (issued (raw_of fill) label ex)\<lparr>key_ID := i\<rparr>"
    unfolding e Create_fixed by (auto split: sum.splits)
  from repo_keys.create [OF assms(2) c] q raw_of_wf [of fill] show ?thesis by (auto simp: issued_def)
qed

text \<open>
  A key works once it has been issued. After a successful \<open>Create\<close>, presenting the raw token that
  was printed validates it: the stored key with the issued id, label and expiry is returned, as long
  as the clock has not passed the expiry, and \<open>ErrInvalidKey\<close> afterwards.
\<close>
theorem Create_then_Validate:
  assumes inv: "db_inv d" and cr: "Create (fixed_Env entropy now) repo_KeyStore label ex d = (Ok (raw, k), d1)"
    and up: "db_faults d1 = []"
  shows "\<exists>k'. key_ID k' = key_ID k \<and> key_Label k' = label \<and> key_ExpiresAt k' = ex \<and>
    Validate (fixed_Env entropy' later) repo_KeyStore raw d1 =
      (if (case ex of None \<Rightarrow> True | Some t \<Rightarrow> later \<le> t) then Ok k' else Err ErrInvalidKey, d1)"
proof -
  from Create_Ok [OF cr inv] obtain t where c: "rawKeyRe raw" "db_inv d1" "key_KeyHash k = HashKey raw"
    "key_KeyPrefix k = take 8 (drop 4 raw)" "key_Label k = label" "key_ExpiresAt k = ex"
    "t_keys d1 = t_keys d @ [k\<lparr>key_CreatedAt := t, key_RevokedAt := None\<rparr>]" by blast
  define k' where "k' = k\<lparr>key_CreatedAt := t, key_RevokedAt := None\<rparr>"
  obtain ks where g: "GetAPIKeysByPrefix repo_KeyStore (take 8 (drop 4 raw)) d1 = (Inr ks, d1)"
    using up by (auto simp: repo_KeyStore_def repo_GetAPIKeysByPrefix_def query_sql_def next_fault_def)
  have k': "k' \<in> set (t_keys d1)" "key_KeyHash k' = HashKey raw" "key_KeyPrefix k' = take 8 (drop 4 raw)"
    using c by (simp_all add: k'_def)
  have "Validate (fixed_Env entropy' later) repo_KeyStore raw d1 =
      (if (case ex of None \<Rightarrow> True | Some t \<Rightarrow> later \<le> t) then Ok k' else Err ErrInvalidKey, d1)"
    using repo_keys.Validate_complete [OF c(2,1) k' g, of "fixed_Env entropy' later"] c(6)
    by (simp add: fixed_Env_def active_def k'_def)
  then show ?thesis using c by (intro exI [of _ k']) (simp add: k'_def)
qed

text \<open>Issuing a key on a quiet database: the row that is added.\<close>

lemma Create_fresh:
  assumes "HashKey (raw_of fill) \<notin> key_KeyHash ` set ks"
  shows "Create (fixed_Env (Inr fill) now) repo_KeyStore label ex (fresh_db ks n) =
    (Ok (raw_of fill, (issued (raw_of fill) label ex)\<lparr>key_ID := n\<rparr>),
     fresh_db (ks @ [(issued (raw_of fill) label ex)\<lparr>key_ID := n, key_CreatedAt := 0\<rparr>]) (n + 1))"
  using assms unfolding Create_fixed
  by (simp add: repo_KeyStore_def repo_CreateAPIKey_def exec_sql_def next_fault_def fresh_db_def issued_def Let_def)

theorem Create_then_Validate_witness:
  "\<exists>raw k d1 k'. Create (fixed_Env (Inr (\<lambda>_. CHR ''x'')) 5) repo_KeyStore ''ops'' (Some 10) (fresh_db [] 1) = (Ok (raw, k), d1) \<and>
     key_ID k' = key_ID k \<and> Validate (fixed_Env (Inr (\<lambda>_. CHR ''y'')) 9) repo_KeyStore raw d1 = (Ok k', d1)"
proof -
  let ?raw = "raw_of (\<lambda>_. CHR ''x'')" and ?k = "(issued (raw_of (\<lambda>_. CHR ''x'')) ''ops'' (Some 10))\<lparr>key_ID := 1\<rparr>"
  let ?d1 = "fresh_db [(issued ?raw ''ops'' (Some 10))\<lparr>key_ID := 1, key_CreatedAt := 0\<rparr>] 2"
  have c: "Create (fixed_Env (Inr (\<lambda>_. CHR ''x'')) 5) repo_KeyStore ''ops'' (Some 10) (fresh_db [] 1) = (Ok (?raw, ?k), ?d1)"
    using Create_fresh [of "\<lambda>_. CHR ''x''" "[]" 5 "''ops''" "Some 10" 1] by simp
  have inv: "db_inv (fresh_db [] 1)" by (intro fresh_db_inv) (simp add: keys_inv_def fresh_db_def)
  have "db_faults ?d1 = []" by (simp add: fresh_db_def)
  from Create_then_Validate [OF inv c this, of "Inr (\<lambda>_. CHR ''y'')" 9] c show ?thesis by auto
qed

section \<open>Validation\<close>

text \<open>
  C21. Only stored keys open the API: whatever token is presented, a successful \<open>Validate\<close> returns a row
  of the key table whose digest is that of the token, that is not revoked and not expired, and the
  token has the form \<^verbatim>\<open>fda_\<close> followed by 64 lower-case hexadecimal digits.
\<close>
theorem Validate_sound:
  assumes "db_inv d" "Validate (fixed_Env entropy now) repo_KeyStore raw d = (Ok k, d')"
  shows "rawKeyRe raw \<and> k \<in> set (t_keys d) \<and> key_KeyHash k = HashKey raw \<and>
    key_RevokedAt k = None \<and> (\<forall>t. key_ExpiresAt k = Some t \<longrightarrow> now \<le> t)"
  using repo_keys.Validate_Ok [OF assms] by (auto simp: fixed_Env_def active_def)

theorem Validate_sound_witness:
  "\<exists>raw k d d'. Validate (fixed_Env (Inr (\<lambda>_. CHR ''y'')) 9) repo_KeyStore raw d = (Ok k, d') \<and>
     rawKeyRe raw \<and> k \<in> set (t_keys d) \<and> key_KeyHash k = HashKey raw \<and> key_RevokedAt k = None"
proof -
  let ?raw = "raw_of (\<lambda>_. CHR ''x'')"
  let ?k = "(issued ?raw ''ops'' None)\<lparr>key_ID := 1\<rparr>"
  let ?d = "fresh_db [?k] 2"
  have inv: "db_inv ?d" by (intro fresh_db_inv) (simp add: keys_inv_def fresh_db_def)
  have "Validate (fixed_Env (Inr (\<lambda>_. CHR ''y'')) 9) repo_KeyStore ?raw ?d = (Ok ?k, ?d)"
    unfolding Validate_wf [OF raw_of_wf]
    by (simp add: repo_KeyStore_def repo_GetAPIKeysByPrefix_def query_sql_def next_fault_def fresh_db_def
        fixed_Env_def issued_def)
  from Validate_sound [OF inv this] this show ?thesis by blast
qed

text \<open>
  Rejections are uniform: an unsuccessful \<open>Validate\<close> is \<open>ErrInvalidKey\<close> whatever the cause, or the
  wrapped failure of the lookup; it never panics, and a malformed token is rejected without touching
  the store.
\<close>
theorem Validate_rejection:
  "(case fst (Validate env store raw w) of
      Ok k \<Rightarrow> rawKeyRe raw
    | Err e \<Rightarrow> e = ErrInvalidKey \<or>
        rawKeyRe raw \<and> (\<exists>err w'. GetAPIKeysByPrefix store (take 8 (drop 4 raw)) w = (Inl err, w') \<and>
          e = wrap_text ''auth: prefix lookup'' err)
    | Panic \<Rightarrow> False) \<and>
   (rawKeyRe raw \<or> Validate env store raw w = (Err ErrInvalidKey, w))"
proof (cases "rawKeyRe raw")
  case True
  then show ?thesis
    by (auto simp: Validate_wf validate_candidates_eq split: prod.splits sum.splits option.splits outcome.splits)
qed (simp add: Validate_malformed)

section \<open>Revocation\<close>

text \<open>
  Steps of the system on the database, in any order and with any arguments, clocks and faults: the
  operations of the auth service, the passing of time, new faults, and every other change that
  leaves the key table alone and the tables sound, as the ingestion and the queries do.
\<close>

inductive key_step :: "db \<Rightarrow> db \<Rightarrow> bool" where
  create: "Create (fixed_Env entropy now) repo_KeyStore label ex d = (r, d') \<Longrightarrow> key_step d d'"
| validate: "Validate (fixed_Env entropy now) repo_KeyStore raw d = (r, d') \<Longrightarrow> key_step d d'"
| revoke: "Revoke repo_KeyStore i d = (r, d') \<Longrightarrow> key_step d d'"
| list: "List_keys repo_KeyStore d = (r, d') \<Longrightarrow> key_step d d'"
| tick: "key_step d (d\<lparr>db_now := t\<rparr>)"
| faults: "key_step d (d\<lparr>db_faults := fs\<rparr>)"
| other: "db_inv d' \<Longrightarrow> t_keys d' = t_keys d \<Longrightarrow> key_step d d'"

inductive_cases key_stepE: "key_step d d'"

definition is_revoked :: "int \<Rightarrow> db \<Rightarrow> bool" where
  "is_revoked i d \<longleftrightarrow> (\<exists>k \<in> set (t_keys d). key_ID k = i \<and> key_RevokedAt k \<noteq> None)"

lemma Create_keys:
  assumes "Create (fixed_Env entropy now) repo_KeyStore label ex d = (r, d')" "db_inv d"
  shows "db_inv d' \<and> (\<exists>new. t_keys d' = t_keys d @ new)"
proof -
  have "d' = d \<or> (\<exists>k q. CreateAPIKey repo_KeyStore k d = (q, d'))"
  proof (cases entropy)
    case (Inl e)
    then show ?thesis using assms(1) Create_no_entropy(2) by (metis snd_conv)
  next
    case (Inr fill)
    obtain q d2 where "CreateAPIKey repo_KeyStore (issued (raw_of fill) label ex) d = (q, d2)" by force
    with assms(1) show ?thesis unfolding Inr Create_fixed by (auto split: sum.splits)
  qed
  then show ?thesis
  proof
    assume "\<exists>k q. CreateAPIKey repo_KeyStore k d = (q, d')"
    then obtain k q where "CreateAPIKey repo_KeyStore k d = (q, d')" by blast
    from repo_keys.create [OF assms(2) this] show ?thesis by auto
  qed (use assms in simp)
qed

lemma is_revoked_map:
  assumes "is_revoked i d" "t_keys d' = map (\<lambda>k. if key_ID k = j \<and> key_RevokedAt k = None then k\<lparr>key_RevokedAt := Some t\<rparr> else k) (t_keys d)"
  shows "is_revoked i d'"
proof -
  from assms(1) obtain k where k: "k \<in> set (t_keys d)" "key_ID k = i" "key_RevokedAt k \<noteq> None"
    unfolding is_revoked_def by blast
  have "(if key_ID k = j \<and> key_RevokedAt k = None then k\<lparr>key_RevokedAt := Some t\<rparr> else k) = k"
    using k(3) by simp
  then have "k \<in> set (t_keys d')" unfolding assms(2) set_map using k(1) by (intro image_eqI [of _ _ k]) simp_all
  with k show ?thesis unfolding is_revoked_def by blast
qed

lemma key_step_keeps:
  assumes "key_step d d'" "db_inv d"
  shows "db_inv d' \<and> (is_revoked i d \<longrightarrow> is_revoked i d')"
  using assms
proof cases
  case (create entropy now label ex r)
  from Create_keys [OF create assms(2)] show ?thesis by (auto simp: is_revoked_def)
next
  case (validate entropy now raw r)
  from repo_keys.Validate_keys [OF assms(2) validate] show ?thesis by (auto simp: fixed_Env_def is_revoked_def)
next
  case (revoke j r)
  then have "RevokeAPIKey repo_KeyStore j d = (r, d')" by (simp add: Revoke_def)
  from repo_keys.revoke [OF assms(2) this] have inv: "db_inv d'"
    and k: "t_keys d' = t_keys d \<or> (\<exists>t. t_keys d' =
        map (\<lambda>k. if key_ID k = j \<and> key_RevokedAt k = None then k\<lparr>key_RevokedAt := Some t\<rparr> else k) (t_keys d))"
    by blast+
  from k have "is_revoked i d \<longrightarrow> is_revoked i d'"
    using is_revoked_map by (elim disjE exE) (simp add: is_revoked_def, blast)
  with inv show ?thesis by blast
next
  case (list r)
  then have "ListAPIKeys repo_KeyStore d = (r, d')" by (simp add: List_keys_def)
  from repo_keys.list_all_keys [OF assms(2) this] show ?thesis by (auto simp: is_revoked_def)
qed (use assms(2) in \<open>auto simp: is_revoked_def db_inv_def companies_inv_def rows_inv_def keys_inv_def\<close>)

text \<open>The row of a key stays: only the time of its revocation may be set.\<close>

lemma key_step_row:
  assumes "key_step d d'" "db_inv d" "k \<in> set (t_keys d)"
  shows "\<exists>r. k\<lparr>key_RevokedAt := r\<rparr> \<in> set (t_keys d')"
proof -
  have same: "\<exists>r. k\<lparr>key_RevokedAt := r\<rparr> \<in> set ks" if "k \<in> set ks" for ks
    using that by (intro exI [of _ "key_RevokedAt k"]) simp
  from assms(1) show ?thesis
  proof cases
    case (create entropy now label ex r)
    from Create_keys [OF create assms(2)] assms(3) same show ?thesis by force
  next
    case (validate entropy now raw r)
    from repo_keys.Validate_keys [OF assms(2) validate] assms(3) same show ?thesis by (auto simp: fixed_Env_def)
  next
    case (revoke j r)
    then have "RevokeAPIKey repo_KeyStore j d = (r, d')" by (simp add: Revoke_def)
    from repo_keys.revoke [OF assms(2) this] consider "t_keys d' = t_keys d"
      | t where "t_keys d' = map (\<lambda>k. if key_ID k = j \<and> key_RevokedAt k = None then k\<lparr>key_RevokedAt := Some t\<rparr> else k) (t_keys d)"
      by blast
    then show ?thesis
    proof cases
      case (2 t)
      have "(if key_ID k = j \<and> key_RevokedAt k = None then k\<lparr>key_RevokedAt := Some t\<rparr> else k) \<in> set (t_keys d')"
        unfolding 2 using assms(3) by simp
      then show ?thesis using same by (auto split: if_splits)
    qed (use assms(3) same in simp)
  next
    case (list r)
    then have "ListAPIKeys repo_KeyStore d = (r, d')" by (simp add: List_keys_def)
    from repo_keys.list_all_keys [OF assms(2) this] assms(3) same show ?thesis by auto
  qed (use assms(3) same in simp_all)
qed

lemma key_steps_row:
  assumes "key_step\<^sup>*\<^sup>* d d'" "db_inv d" "k \<in> set (t_keys d)"
  shows "db_inv d' \<and> (\<exists>r. k\<lparr>key_RevokedAt := r\<rparr> \<in> set (t_keys d'))"
  using assms
proof (induction rule: rtranclp_induct)
  case base
  then show ?case by (auto intro!: exI [of _ "key_RevokedAt k"])
next
  case (step y z)
  then obtain r where "k\<lparr>key_RevokedAt := r\<rparr> \<in> set (t_keys y)" "db_inv y" by blast
  with key_step_row [OF step.hyps(2), of "k\<lparr>key_RevokedAt := r\<rparr>"] key_step_keeps [OF step.hyps(2)] show ?case by auto
qed

lemma is_revoked_row:
  assumes "db_inv d" "k \<in> set (t_keys d)"
  shows "is_revoked (key_ID k) d \<longleftrightarrow> key_RevokedAt k \<noteq> None"
proof -
  have "inj_on key_ID (set (t_keys d))" using repo_keys.distinct_id [OF assms(1)] by (simp add: distinct_map)
  with assms(2) show ?thesis unfolding is_revoked_def by (metis inj_onD)
qed

lemma key_steps_keep:
  assumes "key_step\<^sup>*\<^sup>* d d'" "db_inv d"
  shows "db_inv d' \<and> (is_revoked i d \<longrightarrow> is_revoked i d')"
  using assms by (induction rule: rtranclp_induct) (auto dest: key_step_keeps)

lemma Revoke_revokes:
  assumes "db_inv d" "Revoke repo_KeyStore i d = (Inr (), d1)"
  shows "db_inv d1 \<and> is_revoked i d1"
proof -
  from assms(2) have "RevokeAPIKey repo_KeyStore i d = (Inr (), d1)" by (simp add: Revoke_def)
  from repo_keys.revoke [OF assms(1) this] show ?thesis unfolding is_revoked_def by blast
qed

lemma revoked_not_valid:
  assumes "db_inv d" "is_revoked i d" "Validate (fixed_Env entropy now) repo_KeyStore raw d = (Ok k, d')"
  shows "key_ID k \<noteq> i"
proof
  assume i: "key_ID k = i"
  from assms(2) obtain k' where k': "k' \<in> set (t_keys d)" "key_ID k' = i" "key_RevokedAt k' \<noteq> None"
    by (auto simp: is_revoked_def)
  from repo_keys.Validate_Ok [OF assms(1,3)] have k: "k \<in> set (t_keys d)" "key_RevokedAt k = None" by auto
  have "inj_on key_ID (set (t_keys d))" using repo_keys.distinct_id [OF assms(1)] by (simp add: distinct_map)
  from inj_onD [OF this _ k(1) k'(1)] i k'(2) have "k = k'" by simp
  with k k' show False by simp
qed

text \<open>
  Revocation is final. Once \<open>Revoke\<close> has succeeded for a key, no later request is authenticated by
  it: after any sequence of creations, validations, revocations, listings, clock changes and
  database failures, \<open>Validate\<close> never returns a key with that id.
\<close>
theorem Revoke_final:
  assumes inv: "db_inv d" and rv: "Revoke repo_KeyStore i d = (Inr (), d1)" and steps: "key_step\<^sup>*\<^sup>* d1 d2"
    and val: "Validate (fixed_Env entropy now) repo_KeyStore raw d2 = (Ok k, d3)"
  shows "key_ID k \<noteq> i"
  using revoked_not_valid [OF _ _ val] key_steps_keep [OF steps] Revoke_revokes [OF inv rv] by blast

theorem Revoke_final_witness:
  "\<exists>d d1 raw k d3. Revoke repo_KeyStore 1 d = (Inr (), d1) \<and>
     Validate (fixed_Env (Inr (\<lambda>_. CHR ''y'')) 9) repo_KeyStore raw d1 = (Ok k, d3) \<and> key_ID k \<noteq> 1"
proof -
  let ?raw = "raw_of (\<lambda>_. CHR ''x'')"
  let ?old = "\<lparr>key_ID = 1, key_KeyPrefix = ''00000000'', key_KeyHash = ''h'', key_Label = ''old'',
    key_CreatedAt = 0, key_ExpiresAt = None, key_RevokedAt = None\<rparr>"
  let ?new = "(issued ?raw ''ops'' None)\<lparr>key_ID := 2\<rparr>"
  let ?d = "fresh_db [?old, ?new] 3" and ?d1 = "fresh_db [?old\<lparr>key_RevokedAt := Some 0\<rparr>, ?new] 3"
  have h: "HashKey ?raw \<noteq> ''h''" by (rule notI, drule arg_cong [of _ _ length], simp)
  have inv: "db_inv ?d" by (intro fresh_db_inv) (use h in \<open>simp add: keys_inv_def fresh_db_def issued_def\<close>)
  have rv: "Revoke repo_KeyStore 1 ?d = (Inr (), ?d1)"
    by (simp add: Revoke_def repo_KeyStore_def repo_RevokeAPIKey_def exec_sql_def next_fault_def fresh_db_def
        issued_def Let_def len_def)
  have val: "Validate (fixed_Env (Inr (\<lambda>_. CHR ''y'')) 9) repo_KeyStore ?raw ?d1 = (Ok ?new, ?d1)"
    unfolding Validate_wf [OF raw_of_wf]
    using h by (simp add: repo_KeyStore_def repo_GetAPIKeysByPrefix_def query_sql_def next_fault_def fresh_db_def
        fixed_Env_def issued_def)
  have "key_ID ?new \<noteq> 1" by (rule Revoke_final [OF inv rv _ val]) simp
  with rv val show ?thesis by blast
qed

end
