(* ===== verification/Rate_Window.thy ===== *)
theory Rate_Window
  imports Rate
begin

text \<open>
  The limiter over time: requests and the passing of time interleave arbitrarily, the counters live in
  Redis as its documentation describes it. A window starts with the first request and ends when the
  counter expires.
\<close>

section \<open>Serving a sequence of events\<close>

datatype event = Request string | Tick nat

text \<open>The log has an entry (time, key, allowed) for every request the limiter answered.\<close>

fun serve :: "int \<Rightarrow> int \<Rightarrow> event list \<Rightarrow> redis \<Rightarrow> (time \<times> string \<times> bool) list" where
  "serve limit window [] s = []"
| "serve limit window (Tick n # es) s = serve limit window es (s\<lparr>rs_now := rs_now s + int n\<rparr>)"
| "serve limit window (Request key # es) s =
     (case Allow (rate_NewRedis ref_client limit window) key s of
        (Inl e, s) \<Rightarrow> serve limit window es s
      | (Inr ok, s) \<Rightarrow> (rs_now s, key, ok) # serve limit window es s)"

abbreviation rkey :: "string \<Rightarrow> string" where "rkey key \<equiv> ''fda:rl:'' @ key"

text \<open>No pending faults, and under the key nothing or a positive number that expires.\<close>

definition wf_counter :: "string \<Rightarrow> redis \<Rightarrow> bool" where
  "wf_counter key s \<longleftrightarrow> rs_faults s = [] \<and>
     (case live s (rkey key) of None \<Rightarrow> True | Some (v, ex) \<Rightarrow> ex \<noteq> None \<and> (\<exists>n. Atoi v = Some n \<and> 1 \<le> n))"

lemma Allow_fresh:
  assumes "rs_faults s = []" "live s (rkey key) = None" "0 < window"
  shows "\<exists>s'. Allow (rate_NewRedis ref_client limit window) key s = (Inr (1 \<le> limit), s') \<and>
    live s' = (live s)(rkey key \<mapsto> (show_int 1, Some (rs_now s + window))) \<and> rs_now s' = rs_now s \<and> rs_faults s' = []"
  using assms
  by (auto simp: Allow_def rate_NewRedis_def ref_client_def command_def ref_Incr_def ref_Expire_def live_upd Let_def)

lemma Allow_live:
  assumes "rs_faults s = []" "live s (rkey key) = Some (v, ex)" "Atoi v = Some n" "1 \<le> n" "n < max_int"
  shows "\<exists>s'. Allow (rate_NewRedis ref_client limit window) key s = (Inr (n < limit), s') \<and>
    live s' = (live s)(rkey key \<mapsto> (show_int (n + 1), ex)) \<and> rs_now s' = rs_now s \<and> rs_faults s' = []"
  using assms live_alive [OF assms(2)]
  by (auto simp: Allow_def rate_NewRedis_def ref_client_def command_def ref_Incr_def live_upd Let_def)

lemma Allow_overflow:
  assumes "rs_faults s = []" "live s (rkey key) = Some (v, ex)" "Atoi v = Some n" "\<not> n < max_int"
  shows "\<exists>e. Allow (rate_NewRedis ref_client limit window) key s = (Inl e, s)"
  using assms by (simp add: Allow_def rate_NewRedis_def ref_client_def command_def ref_Incr_def Let_def)

lemma command_live:
  assumes "\<And>t. live (snd (cmd t)) x = live t x \<and> rs_now (snd (cmd t)) = rs_now t"
  shows "live (snd (command cmd t)) x = live t x \<and> rs_now (snd (command cmd t)) = rs_now t"
  by (cases rule: command_cases [of cmd t]) (simp_all add: assms)

lemma Allow_other_any:
  assumes "k \<noteq> key" "Allow (rate_NewRedis ref_client limit window) k s = (r, s')"
  shows "live s' (rkey key) = live s (rkey key) \<and> rs_now s' = rs_now s"
proof -
  have l: "live (t\<lparr>rs_data := (rs_data t)(rkey k := x)\<rparr>) (rkey key) = live t (rkey key)" for t :: redis and x
    using assms(1) by (auto simp: live_def split: option.splits)
  have i: "live (snd (ref_Incr (rkey k) t)) (rkey key) = live t (rkey key) \<and> rs_now (snd (ref_Incr (rkey k) t)) = rs_now t" for t
    using l by (auto simp: ref_Incr_def split: option.splits prod.splits)
  have e: "live (snd (ref_Expire (rkey k) window t)) (rkey key) = live t (rkey key) \<and>
      rs_now (snd (ref_Expire (rkey k) window t)) = rs_now t" for t
    using l by (auto simp: ref_Expire_def split: option.splits prod.splits)
  have "s' = snd (command (ref_Incr (rkey k)) s) \<or>
      s' = snd (command (ref_Expire (rkey k) window) (snd (command (ref_Incr (rkey k)) s)))"
    using assms(2) by (auto simp: Allow_def rate_NewRedis_def ref_client_def Let_def split: sum.splits prod.splits if_splits)
  with command_live [of "ref_Incr (rkey k)", OF i] command_live [of "ref_Expire (rkey k) window", OF e] show ?thesis by auto
qed

lemma ref_faults:
  "rs_faults (snd (ref_Incr k s)) = rs_faults s" "rs_faults (snd (ref_Expire k window s)) = rs_faults s"
  by (auto simp: ref_Incr_def ref_Expire_def split: option.splits prod.splits)

lemma Allow_no_faults:
  assumes "rs_faults s = []" "Allow (rate_NewRedis ref_client limit window) k s = (r, s')"
  shows "rs_faults s' = []"
proof -
  have "rs_faults (snd (command cmd s)) = []" if "\<And>s. rs_faults (snd (cmd s)) = rs_faults s" "rs_faults s = []"
    for cmd :: "redis \<Rightarrow> 'b ret \<times> redis" and s
    using that by (simp add: command_def)
  note step = this [of "ref_Incr (rkey k)", OF ref_faults(1)] this [of "ref_Expire (rkey k) window", OF ref_faults(2)]
  have "s' = snd (command (ref_Incr (rkey k)) s) \<or>
      s' = snd (command (ref_Expire (rkey k) window) (snd (command (ref_Incr (rkey k)) s)))"
    using assms(2) by (auto simp: Allow_def rate_NewRedis_def ref_client_def Let_def split: sum.splits prod.splits if_splits)
  with step assms(1) show ?thesis by auto
qed

lemma Allow_other:
  assumes "rs_faults s = []" "k \<noteq> key" "Allow (rate_NewRedis ref_client limit window) k s = (r, s')"
  shows "live s' (rkey key) = live s (rkey key) \<and> rs_now s' = rs_now s \<and> rs_faults s' = []"
  using Allow_other_any [OF assms(2,3)] Allow_no_faults [OF assms(1,3)] by simp

section \<open>How much a window admits\<close>

definition admitted :: "int \<Rightarrow> time \<Rightarrow> string \<Rightarrow> (time \<times> string \<times> bool) list \<Rightarrow> int" where
  "admitted window a key lg = int (length (filter (\<lambda>(t, k, ok). k = key \<and> ok \<and> a \<le> t \<and> t < a + window) lg))"

text \<open>
  What can still be admitted between \<open>a\<close> and \<open>a + window\<close>: the rest of the current window, and a second
  window if the current one ends inside the interval.
\<close>

definition budget :: "int \<Rightarrow> int \<Rightarrow> time \<Rightarrow> string \<Rightarrow> redis \<Rightarrow> int" where
  "budget limit window a key s =
     (if a + window \<le> rs_now s then 0
      else case live s (rkey key) of
        None \<Rightarrow> if a \<le> rs_now s then limit else 2 * limit
      | Some (v, ex) \<Rightarrow>
          let rest = max 0 (limit - the (Atoi v)); e = the ex
          in if e \<le> a then 2 * limit else if e < a + window then rest + limit else rest)"

lemma admitted_simps [simp]:
  "admitted window a key [] = 0"
  "admitted window a key ((t, k, ok) # lg) =
     (if k = key \<and> ok \<and> a \<le> t \<and> t < a + window then 1 else 0) + admitted window a key lg"
  by (simp_all add: admitted_def)

lemma live_tick: "0 \<le> n \<Longrightarrow> live (s\<lparr>rs_now := rs_now s + n\<rparr>) k =
    (case live s k of None \<Rightarrow> None | Some (v, ex) \<Rightarrow> if alive (rs_now s + n) ex then Some (v, ex) else None)"
proof -
  have "alive (rs_now s + n) ex \<Longrightarrow> 0 \<le> n \<Longrightarrow> alive (rs_now s) ex" for ex by (cases ex) auto
  then show "0 \<le> n \<Longrightarrow> ?thesis" by (auto simp: live_def split: option.splits)
qed

lemma budget_tick:
  assumes "wf_counter key s" "0 < window" "0 \<le> limit"
  shows "budget limit window a key (s\<lparr>rs_now := rs_now s + int n\<rparr>) \<le> budget limit window a key s \<and>
    wf_counter key (s\<lparr>rs_now := rs_now s + int n\<rparr>)"
proof (cases "live s (rkey key)")
  case None
  with assms live_tick [of "int n" s "rkey key"] show ?thesis
    by (auto simp: budget_def wf_counter_def)
next
  case (Some p)
  then obtain v e m where p: "live s (rkey key) = Some (v, Some e)" "Atoi v = Some m" "1 \<le> m"
    using assms(1) by (cases p) (auto simp: wf_counter_def)
  with assms live_tick [of "int n" s "rkey key"] live_alive [OF p(1)] show ?thesis
    by (auto simp: budget_def wf_counter_def Let_def)
qed

lemma serve_budget:
  assumes "wf_counter key s" "0 < window" "0 \<le> limit"
  shows "admitted window a key (serve limit window es s) \<le> budget limit window a key s"
  using assms(1)
proof (induction es arbitrary: s)
  case Nil
  have "0 \<le> budget limit window a key s"
    using assms(3) by (auto simp: budget_def Let_def split: option.splits)
  then show ?case by simp
next
  case (Cons ev es)
  show ?case
  proof (cases ev)
    case (Tick n)
    from budget_tick [OF Cons.prems assms(2,3)] have
      b: "budget limit window a key (s\<lparr>rs_now := rs_now s + int n\<rparr>) \<le> budget limit window a key s"
      and w: "wf_counter key (s\<lparr>rs_now := rs_now s + int n\<rparr>)" by blast+
    from Cons.IH [OF w] b Tick show ?thesis by simp
  next
    case (Request k)
    obtain r s1 where al: "Allow (rate_NewRedis ref_client limit window) k s = (r, s1)" by force
    have f: "rs_faults s = []" using Cons.prems by (simp add: wf_counter_def)
    show ?thesis
    proof (cases "k = key")
      case False
      from Allow_other [OF f False al] have "wf_counter key s1" "budget limit window a key s1 = budget limit window a key s"
        using Cons.prems by (auto simp: wf_counter_def budget_def)
      with Cons.IH [of s1] Request al False show ?thesis by (simp split: sum.splits)
    next
      case k: True
      show ?thesis
      proof (cases "live s (rkey key)")
        case None
        from Allow_fresh [OF f None assms(2), of limit] al k have r: "r = Inr (1 \<le> limit)"
          "live s1 (rkey key) = Some (show_int 1, Some (rs_now s + window))" "rs_now s1 = rs_now s" "rs_faults s1 = []" by auto
        have a1: "Atoi (show_int 1) = Some 1" by (rule Atoi_show_int) (simp_all add: max_int_def)
        with r have w1: "wf_counter key s1" by (simp add: wf_counter_def)
        from Cons.IH [OF w1] r a1 k al Request None assms(2,3) show ?thesis
          by (auto simp: budget_def Let_def split: if_splits)
      next
        case (Some p)
        then obtain v e m where p: "live s (rkey key) = Some (v, Some e)" "Atoi v = Some m" "1 \<le> m"
          using Cons.prems by (cases p) (auto simp: wf_counter_def)
        show ?thesis
        proof (cases "m < max_int")
          case True
          from Allow_live [OF f p True, of limit window] al k have r: "r = Inr (m < limit)"
            "live s1 (rkey key) = Some (show_int (m + 1), Some e)" "rs_now s1 = rs_now s" "rs_faults s1 = []" by auto
          have a1: "Atoi (show_int (m + 1)) = Some (m + 1)"
            using p(3) True by (intro Atoi_show_int) (simp_all add: max_int_def)
          with r p(3) have w1: "wf_counter key s1" by (simp add: wf_counter_def)
          from Cons.IH [OF w1] r a1 k al Request p live_alive [OF p(1)] assms(2,3) show ?thesis
            by (auto simp: budget_def Let_def split: if_splits)
        next
          case False
          from Allow_overflow [OF f p(1,2) False, of limit window] al k Cons.IH [OF Cons.prems] Request show ?thesis
            by auto
        qed
      qed
    qed
  qed
qed

section \<open>The answers of one window\<close>

text \<open>The state after a sequence of events, the time that passes in it, how often a key asks, and what it is answered.\<close>

fun after :: "int \<Rightarrow> int \<Rightarrow> event list \<Rightarrow> redis \<Rightarrow> redis" where
  "after limit window [] s = s"
| "after limit window (Tick n # es) s = after limit window es (s\<lparr>rs_now := rs_now s + int n\<rparr>)"
| "after limit window (Request key # es) s = after limit window es (snd (Allow (rate_NewRedis ref_client limit window) key s))"

fun elapsed :: "event list \<Rightarrow> int" where
  "elapsed [] = 0"
| "elapsed (Tick n # es) = int n + elapsed es"
| "elapsed (Request key # es) = elapsed es"

fun asked :: "string \<Rightarrow> event list \<Rightarrow> nat" where
  "asked key [] = 0"
| "asked key (Tick n # es) = asked key es"
| "asked key (Request k # es) = (if k = key then Suc (asked key es) else asked key es)"

definition answers :: "string \<Rightarrow> (time \<times> string \<times> bool) list \<Rightarrow> bool list" where
  "answers key lg = map (snd \<circ> snd) (filter (\<lambda>(t, k, ok). k = key) lg)"

lemma answers_simps [simp]:
  "answers key [] = []"
  "answers key ((t, k, ok) # lg) = (if k = key then ok # answers key lg else answers key lg)"
  by (simp_all add: answers_def)

lemma elapsed_nonneg: "0 \<le> elapsed es"
  by (induction es rule: elapsed.induct) auto

lemma after_append: "after limit window (es1 @ es2) s = after limit window es2 (after limit window es1 s)"
  by (induction limit window es1 s rule: after.induct) auto

lemma after_no_faults: "rs_faults s = [] \<Longrightarrow> rs_faults (after limit window es s) = []"
proof (induction limit window es s rule: after.induct)
  case (3 limit window key es s)
  obtain r s1 where "Allow (rate_NewRedis ref_client limit window) key s = (r, s1)" by force
  with 3 Allow_no_faults show ?case by fastforce
qed auto

lemma countdown_Suc: "map (\<lambda>i. n + int i < limit) [0..<Suc k] = (n < limit) # map (\<lambda>i. (n + 1) + int i < limit) [0..<k]"
  by (rule nth_equalityI) (auto simp: nth_Cons' of_nat_diff simp del: upt_Suc)

text \<open>While a counter is there, the requests of its key are answered by counting on, the others do not matter.\<close>

lemma serve_counts:
  assumes "rs_faults s = []" "live s (rkey key) = Some (v, ex)" "Atoi v = Some n" "1 \<le> n"
    and "n + int (asked key es) \<le> max_int" "alive (rs_now s + elapsed es) ex"
  shows "answers key (serve limit window es s) = map (\<lambda>i. n + int i < limit) [0..<asked key es] \<and>
    rs_now (after limit window es s) = rs_now s + elapsed es \<and>
    (\<exists>v'. live (after limit window es s) (rkey key) = Some (v', ex))"
  using assms
proof (induction es arbitrary: s v n)
  case (Cons ev es)
  have later: "alive (rs_now s + elapsed es) ex" if "ev = Tick m" "alive (rs_now s + elapsed (ev # es)) ex" for m
    using that by (cases ex) auto
  show ?case
  proof (cases ev)
    case (Tick m)
    have "alive (rs_now s + int m) ex" using Cons.prems(6) Tick elapsed_nonneg [of es] by (cases ex) auto
    then have "live (s\<lparr>rs_now := rs_now s + int m\<rparr>) (rkey key) = Some (v, ex)"
      using Cons.prems(2) live_tick [of "int m" s "rkey key"] by simp
    with Cons.IH [of "s\<lparr>rs_now := rs_now s + int m\<rparr>" v n] Cons.prems Tick show ?thesis by (simp add: add.assoc)
  next
    case (Request k)
    obtain r s1 where al: "Allow (rate_NewRedis ref_client limit window) k s = (r, s1)" by force
    show ?thesis
    proof (cases "k = key")
      case False
      from Allow_other [OF Cons.prems(1) False al] Cons.prems Cons.IH [of s1 v n] Request al False
      show ?thesis by (auto split: sum.splits)
    next
      case True
      with Cons.prems(5) Request have m: "n < max_int" by simp
      from Allow_live [OF Cons.prems(1-4) m, of limit window] al True have r: "r = Inr (n < limit)"
        "live s1 (rkey key) = Some (show_int (n + 1), ex)" "rs_now s1 = rs_now s" "rs_faults s1 = []" by auto
      have "Atoi (show_int (n + 1)) = Some (n + 1)"
        using Cons.prems(4) m by (intro Atoi_show_int) (simp_all add: max_int_def)
      from Cons.IH [OF r(4,2) this] Cons.prems(4-6) r al True Request show ?thesis
        by (simp add: countdown_Suc del: upt_Suc)
    qed
  qed
qed auto

section \<open>Properties\<close>

text \<open>
  C20. The rate limit holds over time while Redis works, however requests of any keys and the passing of time
  interleave. Whenever a request of a key finds no counter it opens a window; of the requests the key
  makes until \<open>window\<close> has passed since then, exactly the first \<open>limit\<close> are admitted and all others are
  refused (fewer than \<open>2^63\<close> requests), and when that time has passed the counter is gone, so that the next
  request opens a window again. An arbitrary interval as long as a window meets at most two windows and
  so admits at most \<open>2 * limit\<close> requests of a key.
\<close>
theorem window_limit:
  assumes "rs_faults s = []" "live s (rkey key) = None" "0 < window" "0 \<le> limit"
  shows "(\<forall>es1 es2. live (after limit window es1 s) (rkey key) = None \<and> elapsed es2 < window \<and> int (asked key es2) < max_int \<longrightarrow>
      answers key (serve limit window (Request key # es2) (after limit window es1 s)) =
        map (\<lambda>i. int i < limit) [0..<Suc (asked key es2)] \<and>
      (\<forall>n. window \<le> elapsed es2 + int n \<longrightarrow>
        live (after limit window (es1 @ Request key # es2 @ [Tick n]) s) (rkey key) = None)) \<and>
    admitted window a key (serve limit window es s) \<le> 2 * limit"
proof (intro conjI allI impI)
  fix es1 es2 n
  assume h: "live (after limit window es1 s) (rkey key) = None \<and> elapsed es2 < window \<and> int (asked key es2) < max_int"
  let ?s = "after limit window es1 s"
  have f: "rs_faults ?s = []" by (rule after_no_faults [OF assms(1)])
  from Allow_fresh [OF f _ assms(3), of key limit] h obtain s1 where
    s1: "Allow (rate_NewRedis ref_client limit window) key ?s = (Inr (1 \<le> limit), s1)"
      "live s1 (rkey key) = Some (show_int 1, Some (rs_now ?s + window))" "rs_now s1 = rs_now ?s" "rs_faults s1 = []" by auto
  have "Atoi (show_int 1) = Some 1" by (rule Atoi_show_int) (simp_all add: max_int_def)
  from serve_counts [OF s1(4,2) this, of es2 limit window] h s1(3)
  have c: "answers key (serve limit window es2 s1) = map (\<lambda>i. 1 + int i < limit) [0..<asked key es2]"
    "rs_now (after limit window es2 s1) = rs_now ?s + elapsed es2"
    "\<exists>v. live (after limit window es2 s1) (rkey key) = Some (v, Some (rs_now ?s + window))" by auto
  show "answers key (serve limit window (Request key # es2) ?s) = map (\<lambda>i. int i < limit) [0..<Suc (asked key es2)]"
    using c(1) s1(1) countdown_Suc [of 0 limit "asked key es2"] by auto
  assume "window \<le> elapsed es2 + int n"
  with c(2,3) s1(1) live_tick [of "int n" "after limit window es2 s1" "rkey key"]
  show "live (after limit window (es1 @ Request key # es2 @ [Tick n]) s) (rkey key) = None"
    by (auto simp: after_append)
next
  have "wf_counter key s" using assms by (simp add: wf_counter_def)
  from serve_budget [OF this assms(3,4), of a es] show "admitted window a key (serve limit window es s) \<le> 2 * limit"
    using assms by (auto simp: budget_def split: if_splits)
qed

definition quiet_redis :: redis where
  "quiet_redis = \<lparr>rs_data = (\<lambda>_. None), rs_now = 0, rs_faults = []\<rparr>"

theorem window_limit_witness:
  "answers ''key:1'' (serve 2 60 [Request ''key:1'', Tick 59, Request ''key:1'', Request ''key:2'', Request ''key:1''] quiet_redis) =
     [True, True, False] \<and>
   live (after 2 60 [Request ''key:1'', Tick 59, Tick 1] quiet_redis) (rkey ''key:1'') = None \<and>
   admitted 60 30 ''key:1'' (serve 2 60 [Request ''key:1'', Tick 59, Request ''key:1'', Tick 1, Request ''key:1''] quiet_redis) \<le> 4"
proof -
  let ?q = "[Tick 59, Request ''key:1'', Request ''key:2'', Request ''key:1'']"
  let ?es = "[Request ''key:1'', Tick 59, Request ''key:1'', Tick 1, Request ''key:1'']"
  have q: "rs_faults quiet_redis = []" "live quiet_redis (rkey ''key:1'') = None"
    by (simp_all add: quiet_redis_def live_def)
  have w: "(\<forall>es1 es2. live (after 2 60 es1 quiet_redis) (rkey ''key:1'') = None \<and> elapsed es2 < 60 \<and> int (asked ''key:1'' es2) < max_int \<longrightarrow>
      answers ''key:1'' (serve 2 60 (Request ''key:1'' # es2) (after 2 60 es1 quiet_redis)) =
        map (\<lambda>i. int i < 2) [0..<Suc (asked ''key:1'' es2)] \<and>
      (\<forall>n. 60 \<le> elapsed es2 + int n \<longrightarrow>
        live (after 2 60 (es1 @ Request ''key:1'' # es2 @ [Tick n]) quiet_redis) (rkey ''key:1'') = None)) \<and>
    admitted 60 30 ''key:1'' (serve 2 60 ?es quiet_redis) \<le> 2 * 2"
    by (rule window_limit [OF q]) simp_all
  note w1 = w [THEN conjunct1, THEN spec, THEN spec, THEN mp]
  have "answers ''key:1'' (serve 2 60 (Request ''key:1'' # ?q) (after 2 60 [] quiet_redis)) =
      map (\<lambda>i. int i < 2) [0..<Suc (asked ''key:1'' ?q)]"
    by (rule w1 [THEN conjunct1]) (simp add: q [simplified] max_int_def)
  moreover have "[0..<Suc (asked ''key:1'' ?q)] = [0, 1, 2]" by (simp add: upt_rec)
  moreover have "live (after 2 60 ([] @ Request ''key:1'' # [Tick 59] @ [Tick 1]) quiet_redis) (rkey ''key:1'') = None"
    by (rule w1 [THEN conjunct2, THEN spec, THEN mp]) (simp_all add: q [simplified] max_int_def)
  ultimately show ?thesis using w [THEN conjunct2] by (simp del: serve.simps)
qed

text \<open>A counter without expiry never goes away, whatever fails: it only grows.\<close>

lemma Allow_stuck:
  assumes "live s (rkey key) = Some (v, None)" "Atoi v = Some n" "1 \<le> n"
    and "Allow (rate_NewRedis ref_client limit window) key s = (r, s')"
  shows "\<exists>v' n'. live s' (rkey key) = Some (v', None) \<and> Atoi v' = Some n' \<and> n \<le> n' \<and> (r = Inr True \<longrightarrow> n < limit \<and> n' = n + 1)"
proof -
  have inc: "live (snd (ref_Incr (rkey key) t)) (rkey key) = Some (if n < max_int then show_int (n + 1) else v, None)"
    "fst (ref_Incr (rkey key) t) = Inr m \<Longrightarrow> n < max_int \<and> m = n + 1" if "live t = live s" for t m
    using that assms by (auto simp: ref_Incr_def live_upd split: if_splits)
  have a: "n < max_int \<Longrightarrow> Atoi (show_int (n + 1)) = Some (n + 1)"
    using assms(3) by (intro Atoi_show_int) (simp_all add: max_int_def)
  show ?thesis
  proof (cases rule: command_cases [of "ref_Incr (rkey key)" s])
    case (ok fs)
    obtain q t where q: "ref_Incr (rkey key) (s\<lparr>rs_faults := fs\<rparr>) = (q, t)" by force
    with ok assms(3,4) inc(2) [of "s\<lparr>rs_faults := fs\<rparr>"] have "s' = t \<and> (r = Inr True \<longrightarrow> n < limit \<and> n < max_int)"
      by (auto simp: Allow_def rate_NewRedis_def ref_client_def Let_def split: sum.splits if_splits)
    with inc(1) [of "s\<lparr>rs_faults := fs\<rparr>"] q a assms(2,3) show ?thesis by (auto split: if_splits)
  next
    case (refused e fs)
    with assms show ?thesis by (auto simp: Allow_def rate_NewRedis_def ref_client_def Let_def)
  next
    case (lost e fs)
    with assms(4) have "r = Inl (Foreign e)" "s' = snd (ref_Incr (rkey key) (s\<lparr>rs_faults := fs\<rparr>))"
      by (auto simp: Allow_def rate_NewRedis_def ref_client_def Let_def)
    with inc(1) [of "s\<lparr>rs_faults := fs\<rparr>"] a assms(2,3) show ?thesis by (auto split: if_splits)
  qed
qed

definition granted :: "string \<Rightarrow> (time \<times> string \<times> bool) list \<Rightarrow> int" where
  "granted key lg = int (length (filter id (answers key lg)))"

lemma serve_stuck:
  assumes "live s (rkey key) = Some (v, None)" "Atoi v = Some n" "1 \<le> n"
  shows "granted key (serve limit window es s) \<le> max 0 (limit - n)"
  using assms
proof (induction es arbitrary: s v n)
  case (Cons ev es)
  show ?case
  proof (cases ev)
    case (Tick m)
    have "live (s\<lparr>rs_now := rs_now s + int m\<rparr>) (rkey key) = Some (v, None)"
      using Cons.prems(1) live_tick [of "int m" s "rkey key"] by simp
    with Cons.IH [of "s\<lparr>rs_now := rs_now s + int m\<rparr>" v n] Cons.prems Tick show ?thesis by simp
  next
    case (Request k)
    obtain r s1 where al: "Allow (rate_NewRedis ref_client limit window) k s = (r, s1)" by force
    show ?thesis
    proof (cases "k = key")
      case False
      from Allow_other_any [OF False al] Cons.prems Cons.IH [of s1 v n] Request al False
      show ?thesis by (auto simp: granted_def split: sum.splits)
    next
      case True
      from Allow_stuck [OF Cons.prems al [unfolded True]] obtain v' n' where
        n: "live s1 (rkey key) = Some (v', None)" "Atoi v' = Some n'" "n \<le> n'" "r = Inr True \<longrightarrow> n < limit \<and> n' = n + 1" by blast
      with Cons.prems(3) Cons.IH [OF n(1,2)] have "granted key (serve limit window es s1) \<le> max 0 (limit - n')" by simp
      with n al Request True show ?thesis
        by (cases r; cases "r = Inr True") (auto simp: granted_def max_def split: if_splits)
    qed
  qed
qed (simp add: granted_def)

text \<open>
  C38. If EXPIRE is refused after the first INCR, the counter has no time to live and the limit of one window
  becomes the limit for all time: whatever the limit, whatever time passes and whatever else fails
  later, the limiter grants at most \<open>limit - 1\<close> further requests of the key, ever (a call that fails grants nothing
  itself). If nothing fails any more these are exactly the next ones, and all after them are refused.
\<close>
theorem expire_failure_locks_out:
  assumes "live s (rkey key) = None" "rs_faults s = None # Some (RRefused e) # fs"
    and "Allow (rate_NewRedis ref_client limit window) key s = (r, s1)"
  shows "r = Inr (1 \<le> limit) \<and> granted key (serve limit window es s1) \<le> max 0 (limit - 1) \<and>
    (fs = [] \<and> int (asked key es) < max_int \<longrightarrow>
      answers key (serve limit window es s1) = map (\<lambda>i. int i + 1 < limit) [0..<asked key es])"
proof -
  have r: "r = Inr (1 \<le> limit)" "rs_faults s1 = fs" "live s1 (rkey key) = Some (show_int 1, None)"
    using assms by (auto simp: Allow_def rate_NewRedis_def ref_client_def command_def ref_Incr_def live_upd Let_def)
  have a: "Atoi (show_int 1) = Some 1" by (rule Atoi_show_int) (simp_all add: max_int_def)
  show ?thesis
    using serve_stuck [OF r(3) a, of limit window es] serve_counts [OF _ r(3) a, of es limit window] r
    by (auto simp: add.commute)
qed

theorem expire_failure_locks_out_witness:
  "\<exists>s1. Allow (rate_NewRedis ref_client 2 60) ''key:1'' (quiet_redis\<lparr>rs_faults := [None, Some (RRefused ''timeout'')]\<rparr>) =
     (Inr True, s1) \<and> answers ''key:1'' (serve 2 60 [Request ''key:1'', Tick 3600, Request ''key:1''] s1) = [True, False]"
proof -
  let ?s = "quiet_redis\<lparr>rs_faults := [None, Some (RRefused ''timeout'')]\<rparr>" and ?es = "[Request ''key:1'', Tick 3600, Request ''key:1'']"
  obtain r s1 where a: "Allow (rate_NewRedis ref_client 2 60) ''key:1'' ?s = (r, s1)" by force
  have "live ?s (rkey ''key:1'') = None" by (simp add: quiet_redis_def live_def)
  from expire_failure_locks_out [OF this _ a, of "''timeout''" "[]" ?es]
  have "r = Inr True" "answers ''key:1'' (serve 2 60 ?es s1) = map (\<lambda>i. int i + 1 < 2) [0..<asked ''key:1'' ?es]"
    by (auto simp: max_int_def simp del: serve.simps upt_Suc)
  moreover have "[0..<asked ''key:1'' ?es] = [0, 1]" by (simp add: upt_rec)
  ultimately show ?thesis using a by (simp del: serve.simps)
qed

end
