(* ===== verification/System.thy ===== *)
theory System
  imports Key_Lifecycle Rate_Window Result_Codec
begin

text \<open>
  The running system: one world holds the database and the Redis server, the repository and the Redis
  client act on their halves of it, and the services are wired as \<^verbatim>\<open>cmd/api/main.go\<close> and
  \<^verbatim>\<open>cmd/ingest/main.go\<close> wire them. The contracts of the store and of the cache meet here: the API
  refines a specification that reads the database alone.
\<close>

section \<open>The world\<close>

record world =
  w_db :: db
  w_redis :: redis

definition on_db :: "(db, 'a) call \<Rightarrow> (world, 'a) call" where
  "on_db f w = (let (r, d) = f (w_db w) in (r, w\<lparr>w_db := d\<rparr>))"

definition on_redis :: "(redis, 'a) call \<Rightarrow> (world, 'a) call" where
  "on_redis f w = (let (r, s) = f (w_redis w) in (r, w\<lparr>w_redis := s\<rparr>))"

definition world_QueryStore :: "db QueryStore \<Rightarrow> world QueryStore" where
  "world_QueryStore st = \<lparr>qs_GetCompany = (\<lambda>s. on_db (qs_GetCompany st s)), qs_ListCompanies = on_db (qs_ListCompanies st),
     qs_GetPriceHistory = (\<lambda>s n. on_db (qs_GetPriceHistory st s n)), qs_GetLatestPrice = (\<lambda>s. on_db (qs_GetLatestPrice st s)),
     qs_GetIncomeStatements = (\<lambda>s p. on_db (qs_GetIncomeStatements st s p)),
     qs_GetBalanceSheets = (\<lambda>s p. on_db (qs_GetBalanceSheets st s p)),
     qs_GetCashFlows = (\<lambda>s p. on_db (qs_GetCashFlows st s p)), qs_Screener = (\<lambda>f. on_db (qs_Screener st f))\<rparr>"

definition world_DataStore :: "db DataStore \<Rightarrow> world DataStore" where
  "world_DataStore st = \<lparr>UpsertCompany = (\<lambda>c. on_db (UpsertCompany st c)), InsertPrices = (\<lambda>i xs. on_db (InsertPrices st i xs)),
     InsertIncomeStatements = (\<lambda>i xs. on_db (InsertIncomeStatements st i xs)),
     InsertBalanceSheets = (\<lambda>i xs. on_db (InsertBalanceSheets st i xs)),
     InsertCashFlows = (\<lambda>i xs. on_db (InsertCashFlows st i xs)), RecordRun = (\<lambda>run. on_db (RecordRun st run))\<rparr>"

definition world_client :: "world Redis_client" where
  "world_client = \<lparr>rdb_Get = (\<lambda>k. on_redis (rdb_Get ref_client k)), rdb_Set = (\<lambda>k v ttl. on_redis (rdb_Set ref_client k v ttl)),
     rdb_Del = (\<lambda>ks. on_redis (rdb_Del ref_client ks)), rdb_Incr = (\<lambda>k. on_redis (rdb_Incr ref_client k)),
     rdb_Expire = (\<lambda>k ttl. on_redis (rdb_Expire ref_client k ttl))\<rparr>"

lemma on_db_eq: "on_db f w = (r, w') \<longleftrightarrow> (\<exists>d. f (w_db w) = (r, d) \<and> w' = w\<lparr>w_db := d\<rparr>)"
  by (auto simp: on_db_def split: prod.splits)

lemma on_redis_eq: "on_redis f w = (r, w') \<longleftrightarrow> (\<exists>s. f (w_redis w) = (r, s) \<and> w' = w\<lparr>w_redis := s\<rparr>)"
  by (auto simp: on_redis_def split: prod.splits)

lemma world_client_cache:
  "cache_Get (client_cache world_client ttl) k = on_redis (cache_Get (client_cache ref_client ttl) k)"
  "cache_Set (client_cache world_client ttl) k v = on_redis (cache_Set (client_cache ref_client ttl) k v)"
  "cache_Del (client_cache world_client ttl) ks = on_redis (cache_Del (client_cache ref_client ttl) ks)"
  by (auto simp: client_cache_def world_client_def on_redis_def fun_eq_iff split: prod.splits sum.splits)

interpretation world_redis: redis_cache world_client ttl "\<lambda>w. ref_entries (w_redis w)" for ttl
proof (unfold_locales, unfold world_client_cache)
  fix w w' :: world and k v :: string and ks :: "string list" and r :: "string ret" and ru :: "unit ret"
  show "on_redis (cache_Get (client_cache ref_client ttl) k) w = (r, w') \<Longrightarrow> ref_entries (w_redis w') \<subseteq>\<^sub>m ref_entries (w_redis w)"
    using ref_cache.raw.get_sub by (auto simp: on_redis_eq)
  show "on_redis (cache_Get (client_cache ref_client ttl) k) w = (Inr v, w') \<Longrightarrow> ref_entries (w_redis w) k = Some v"
    using ref_cache.raw.get_hit by (auto simp: on_redis_eq)
  show "on_redis (cache_Set (client_cache ref_client ttl) k v) w = (ru, w') \<Longrightarrow>
      ref_entries (w_redis w') \<subseteq>\<^sub>m (ref_entries (w_redis w))(k \<mapsto> v) \<or> ref_entries (w_redis w') \<subseteq>\<^sub>m ref_entries (w_redis w)"
    using ref_cache.raw.set_sub [of ttl k v "w_redis w" ru "w_redis w'"] by (auto simp: on_redis_eq)
  show "on_redis (cache_Del (client_cache ref_client ttl) ks) w = (ru, w') \<Longrightarrow> ref_entries (w_redis w') \<subseteq>\<^sub>m ref_entries (w_redis w)"
    using ref_cache.raw.del_sub by (auto simp: on_redis_eq)
  show "on_redis (cache_Del (client_cache ref_client ttl) ks) w = (Inr (), w') \<Longrightarrow> k \<in> set ks \<Longrightarrow> ref_entries (w_redis w') k = None"
    using ref_cache.raw.del_gone by (auto simp: on_redis_eq)
qed

section \<open>Wiring\<close>

text \<open>The cache of the API keeps results for 15 minutes; the ingestion command is built without a cache.\<close>

definition cache_ttl :: int where "cache_ttl = 15 * 60 * 10 ^ 9"

definition api_cache :: "world Cache" where
  "api_cache = Redis_Cache (cache_NewRedis world_client cache_ttl)"

definition api_QueryService :: "db QueryStore \<Rightarrow> world QueryService" where
  "api_QueryService repo = NewQueryService (world_QueryStore repo) [api_cache]"

definition cmd_IngestionService ::
    "(string \<Rightarrow> (world, CompanySnapshot) call) \<Rightarrow> Pg \<Rightarrow> world IngestionService" where
  "cmd_IngestionService provider pg = NewIngestionService provider (world_DataStore (repo_DataStore pg)) []"

definition cached :: "world \<Rightarrow> string \<Rightarrow> string option" where
  "cached w k = ref_entries (w_redis w) (''fda:'' @ k)"

interpretation sys: cached_query "world_QueryStore (repo_QueryStore pg scr)" "\<lambda>w. db_view (w_db w)" view_company price_rows
  view_income view_balance api_cache cached analytics_codec technical_codec for pg scr
proof unfold_locales
  fix w w' :: world and s k v d p :: string and n :: int
  note view = repo_query.company [of pg scr] repo_query.history [of pg scr] repo_query.latest [of pg scr]
    repo_query.income [of pg scr] repo_query.balance [of pg scr]
  note calls = world_QueryStore_def on_db_eq
  show "qs_GetCompany (world_QueryStore (repo_QueryStore pg scr)) s w = (rc, w') \<Longrightarrow> db_view (w_db w') = db_view (w_db w) \<and>
      (case rc of Inr x \<Rightarrow> view_company (db_view (w_db w)) s = Some x
       | Inl e \<Rightarrow> plain_error e \<and> (errors_Is e sql_ErrNoRows \<longrightarrow> view_company (db_view (w_db w)) s = None))" for rc
    using view(1) [of s "w_db w" rc "w_db w'"] by (auto simp: calls)
  show "qs_GetPriceHistory (world_QueryStore (repo_QueryStore pg scr)) s 0 w = (rh, w') \<Longrightarrow> db_view (w_db w') = db_view (w_db w) \<and>
      (case rh of Inr xs \<Rightarrow> xs = price_rows (db_view (w_db w)) s \<and> xs \<noteq> []
       | Inl e \<Rightarrow> plain_error e \<and> (errors_Is e sql_ErrNoRows \<longrightarrow> price_rows (db_view (w_db w)) s = []))" for rh
    using view(2) [of s "w_db w" rh "w_db w'"] by (auto simp: calls)
  show "qs_GetLatestPrice (world_QueryStore (repo_QueryStore pg scr)) s w = (rl, w') \<Longrightarrow> db_view (w_db w') = db_view (w_db w) \<and>
      (case rl of Inr p \<Rightarrow> price_rows (db_view (w_db w)) s \<noteq> [] \<and> p = last (price_rows (db_view (w_db w)) s)
       | Inl e \<Rightarrow> plain_error e \<and> (errors_Is e sql_ErrNoRows \<longrightarrow> price_rows (db_view (w_db w)) s = []))" for rl
    using view(3) [of s "w_db w" rl "w_db w'"] by (auto simp: calls)
  show "qs_GetIncomeStatements (world_QueryStore (repo_QueryStore pg scr)) s p w = (ri, w') \<Longrightarrow> db_view (w_db w') = db_view (w_db w) \<and>
      (case ri of Inr xs \<Rightarrow> xs = view_income (db_view (w_db w)) s p \<and> xs \<noteq> []
       | Inl e \<Rightarrow> plain_error e \<and> (errors_Is e sql_ErrNoRows \<longrightarrow> view_income (db_view (w_db w)) s p = []))" for ri
    using view(4) [of s p "w_db w" ri "w_db w'"] by (auto simp: calls)
  show "qs_GetBalanceSheets (world_QueryStore (repo_QueryStore pg scr)) s p w = (rb, w') \<Longrightarrow> db_view (w_db w') = db_view (w_db w) \<and>
      (case rb of Inr xs \<Rightarrow> xs = view_balance (db_view (w_db w)) s p \<and> xs \<noteq> []
       | Inl e \<Rightarrow> plain_error e \<and> (errors_Is e sql_ErrNoRows \<longrightarrow> view_balance (db_view (w_db w)) s p = []))" for rb
    using view(5) [of s p "w_db w" rb "w_db w'"] by (auto simp: calls)
  show "cache_Get api_cache k w = (r, w') \<Longrightarrow> cached w' \<subseteq>\<^sub>m cached w" for r
    using world_redis.wrapped.get_sub [of cache_ttl k w r w'] by (simp add: api_cache_def cached_def [abs_def])
  show "cache_Get api_cache k w = (Inr v, w') \<Longrightarrow> cached w k = Some v"
    using world_redis.wrapped.get_hit [of cache_ttl k w v w'] by (simp add: api_cache_def cached_def)
  show "cache_Set api_cache k v w = (ru, w') \<Longrightarrow> cached w' \<subseteq>\<^sub>m (cached w)(k \<mapsto> v) \<or> cached w' \<subseteq>\<^sub>m cached w" for ru
    using world_redis.wrapped.set_sub [of cache_ttl k v w ru w'] by (simp add: api_cache_def cached_def [abs_def])
  show "cache_Del api_cache ks w = (ru, w') \<Longrightarrow> cached w' \<subseteq>\<^sub>m cached w" for ks ru
    using world_redis.wrapped.del_sub [of cache_ttl ks w ru w'] by (simp add: api_cache_def cached_def [abs_def])
  show "cache_Del api_cache ks w = (Inr (), w') \<Longrightarrow> k \<in> set ks \<Longrightarrow> cached w' k = None" for ks
    using world_redis.wrapped.del_gone [of cache_ttl ks w w' k] by (simp add: api_cache_def cached_def)
  show "IsValidSymbol (ar_Symbol x) \<Longrightarrow> Marshal analytics_codec x = Inr d \<Longrightarrow> Unmarshal analytics_codec d = Inr x" for x
    by (intro analytics_roundtrip valid_symbol_ascii)
  show "IsValidSymbol (tr_Symbol y) \<Longrightarrow> Marshal technical_codec y = Inr d \<Longrightarrow> Unmarshal technical_codec d = Inr y" for y
    by (intro technical_roundtrip valid_symbol_ascii)
  show "cache_Get api_cache k w = (rg, w') \<Longrightarrow> db_view (w_db w') = db_view (w_db w)" for rg
    by (auto simp: api_cache_def Redis_Cache_calls world_client_cache on_redis_eq)
  show "cache_Set api_cache k d w = (ru, w') \<Longrightarrow> db_view (w_db w') = db_view (w_db w)" for ru
    by (auto simp: api_cache_def Redis_Cache_calls world_client_cache on_redis_eq)
qed (auto simp: world_QueryStore_def on_db_eq cached_def [abs_def])

end
