(* ===== verification/Freshness.thy ===== *)
theory Freshness
  imports System
begin

text \<open>
  What the computed endpoints promise of the running system: with a coherent cache they answer exactly
  what the database says, coherence is an invariant of everything the API process does, and it is the
  ingestion command, which runs without the cache, that breaks it until the entries expire.
\<close>

section \<open>The specification over the database\<close>

definition db_analytics :: "db \<Rightarrow> string \<Rightarrow> AnalyticsResult res" where
  "db_analytics d nsym = analytics_spec nsym (view_company d nsym) (view_income d nsym ''annual'')
     (view_balance d nsym ''annual'') (price_rows d nsym)"

definition db_technical :: "db \<Rightarrow> string \<Rightarrow> TechnicalResult res" where
  "db_technical d nsym = technical_spec nsym (view_company d nsym) (price_rows d nsym)"

text \<open>Every cached result that decodes is the one the database specifies.\<close>

definition cache_coherent :: "world \<Rightarrow> bool" where
  "cache_coherent w \<longleftrightarrow>
     (\<forall>nsym d x. cached w (''analytics:'' @ nsym) = Some d \<longrightarrow> Unmarshal analytics_codec d = Inr x \<longrightarrow>
        db_analytics (w_db w) nsym = Ok x) \<and>
     (\<forall>nsym d x. cached w (''technical:'' @ nsym) = Some d \<longrightarrow> Unmarshal technical_codec d = Inr x \<longrightarrow>
        db_technical (w_db w) nsym = Ok x)"

lemma view_company_view [simp]: "view_company (db_view d) s = view_company d s"
  by (simp add: view_company_def)

lemma db_spec_view: "db_analytics (db_view d) = db_analytics d" "db_technical (db_view d) = db_technical d"
  by (simp_all add: db_analytics_def db_technical_def fun_eq_iff)

lemma db_spec_cong: "db_view d' = db_view d \<Longrightarrow> db_analytics d' = db_analytics d \<and> db_technical d' = db_technical d"
  by (metis db_spec_view)

lemma coherent_eq: "sys.coherent w = cache_coherent w"
  unfolding sys.coherent_def cache_coherent_def db_analytics_def db_technical_def by simp

lemma api_service [simp]:
  "q_store (api_QueryService repo) = world_QueryStore repo" "q_cache (api_QueryService repo) = Some api_cache"
  by (simp_all add: api_QueryService_def NewQueryService_def len_def)

section \<open>The endpoints refine the specification\<close>

abbreviation the_repo :: "Pg \<Rightarrow> (ScreenerFilter \<Rightarrow> (db, ScreenerResult list) call) \<Rightarrow> world QueryService" where
  "the_repo pg scr \<equiv> api_QueryService (repo_QueryStore pg scr)"

lemma analytics_refines:
  assumes "cache_coherent w" "normalizeSymbol symbol = Inr nsym" "GetAnalytics analytics_codec (the_repo pg scr) symbol w = (r, w')"
  shows "cache_coherent w' \<and> db_view (w_db w') = db_view (w_db w) \<and> agrees r (db_analytics (w_db w) nsym)"
  using sys.GetAnalytics_agrees [of "the_repo pg scr" pg scr w symbol nsym r w'] assms
  unfolding coherent_eq db_analytics_def by simp

lemma technical_refines:
  assumes "cache_coherent w" "normalizeSymbol symbol = Inr nsym" "GetTechnical technical_codec (the_repo pg scr) symbol w = (r, w')"
  shows "cache_coherent w' \<and> db_view (w_db w') = db_view (w_db w) \<and> agrees r (db_technical (w_db w) nsym)"
  using sys.GetTechnical_agrees [of "the_repo pg scr" pg scr w symbol nsym r w'] assms
  unfolding coherent_eq db_technical_def by simp

text \<open>
  Whether or not the cache is coherent: an answer is what the cache holds under the symbol's key, or what
  the tables specify.
\<close>

lemma read_through_sources:
  assumes "read_through json (Some api_cache) k compute w = (r, w')"
    and "\<And>w1 q w2. compute w1 = (q, w2) \<Longrightarrow> db_view (w_db w1) = db_view (w_db w) \<Longrightarrow> agrees q spec"
  shows "(\<exists>d x. cached w k = Some d \<and> Unmarshal json d = Inr x \<and> r = Ok x) \<or> agrees r spec"
proof -
  obtain h w1 where 1: "cachedResult json api_cache k w = (h, w1)" by force
  from sys.cachedResult_laws [OF 1] have l: "db_view (w_db w1) = db_view (w_db w)"
    "\<And>x. h = Some x \<Longrightarrow> \<exists>d. cached w k = Some d \<and> Unmarshal json d = Inr x" by blast+
  obtain q w2 where 2: "compute w1 = (q, w2)" by force
  show ?thesis
  proof (cases h)
    case (Some x)
    with assms(1) 1 have "r = Ok x" by (simp add: read_through_def)
    with l(2) [OF Some] show ?thesis by blast
  next
    case None
    with assms(1) 1 2 have "r = q" by (auto simp: read_through_def split: outcome.splits)
    with assms(2) [OF 2 l(1)] show ?thesis by blast
  qed
qed

lemma analytics_sources:
  assumes "normalizeSymbol symbol = Inr nsym" "GetAnalytics analytics_codec (the_repo pg scr) symbol w = (r, w')"
  shows "(\<exists>d x. cached w (''analytics:'' @ nsym) = Some d \<and> Unmarshal analytics_codec d = Inr x \<and> r = Ok x) \<or>
    agrees r (db_analytics (w_db w) nsym)"
proof (rule read_through_sources)
  show "read_through analytics_codec (Some api_cache) (''analytics:'' @ nsym) (analytics_read (the_repo pg scr) nsym) w = (r, w')"
    using assms by (simp add: GetAnalytics_def)
  show "agrees q (db_analytics (w_db w) nsym)"
    if "analytics_read (the_repo pg scr) nsym w1 = (q, w2)" "db_view (w_db w1) = db_view (w_db w)" for w1 q w2
  proof -
    have "agrees q (db_analytics (w_db w1) nsym)"
      using sys.analytics_read_agrees [OF api_service(1) that(1)] by (simp add: db_analytics_def)
    with db_spec_cong [OF that(2)] show ?thesis by simp
  qed
qed

lemma technical_sources:
  assumes "normalizeSymbol symbol = Inr nsym" "GetTechnical technical_codec (the_repo pg scr) symbol w = (r, w')"
  shows "(\<exists>d x. cached w (''technical:'' @ nsym) = Some d \<and> Unmarshal technical_codec d = Inr x \<and> r = Ok x) \<or>
    agrees r (db_technical (w_db w) nsym)"
proof (rule read_through_sources)
  show "read_through technical_codec (Some api_cache) (''technical:'' @ nsym) (technical_read (the_repo pg scr) nsym) w = (r, w')"
    using assms by (simp add: GetTechnical_def)
  show "agrees q (db_technical (w_db w) nsym)"
    if "technical_read (the_repo pg scr) nsym w1 = (q, w2)" "db_view (w_db w1) = db_view (w_db w)" for w1 q w2
  proof -
    have "agrees q (db_technical (w_db w1) nsym)"
      using sys.technical_read_agrees [OF api_service(1) that(1)] by (simp add: db_technical_def)
    with db_spec_cong [OF that(2)] show ?thesis by simp
  qed
qed

definition blank_db :: db where
  "blank_db = \<lparr>t_companies = [], t_prices = [], t_income = [], t_balance = [], t_cash = [], t_runs = [], t_keys = [],
     seq_companies = 1, seq_keys = 1, db_now = 0, db_faults = []\<rparr>"

definition blank_world :: world where
  "blank_world = \<lparr>w_db = blank_db, w_redis = \<lparr>rs_data = Map.empty, rs_now = 0, rs_faults = []\<rparr>\<rparr>"

definition plain_pg :: Pg where
  "plain_pg = \<lparr>num18_4 = (\<lambda>x. x), num20_2 = (\<lambda>x. x), collate = (\<lambda>a b. True)\<rparr>"

lemma blank_coherent: "cache_coherent blank_world"
  by (simp add: cache_coherent_def cached_def blank_world_def ref_entries_def live_def)

lemma Compare_refines:
  assumes "cache_coherent w"
  shows "case Compare analytics_codec (api_QueryService (repo_QueryStore pg scr)) raw mx w of (r, w') \<Rightarrow>
     cache_coherent w' \<and> db_view (w_db w') = db_view (w_db w) \<and>
     (case r of
        Ok res \<Rightarrow> res \<noteq> [] \<and> (\<exists>ns. map normalizeSymbol raw = map Inr ns \<and> distinct ns \<and> len ns \<le> mx \<and>
                    map (db_analytics (w_db w)) ns = map Ok res)
      | Err e \<Rightarrow> errors_Is e ErrInvalidSymbol \<or>
                (\<exists>item \<in> set raw. \<exists>n. normalizeSymbol item = Inr n \<and> agrees (Err e) (db_analytics (w_db w) n))
      | Panic \<Rightarrow> False)"
proof (cases "compare_symbols mx raw [] {}")
  case (Inl e)
  from compare_symbols_Inl [OF this] Inl assms show ?thesis by (simp add: Compare_def)
next
  case (Inr ns)
  show ?thesis
  proof (cases "ns = []")
    case True
    with Inr assms show ?thesis by (simp add: Compare_def len_def)
  next
    case False
    have raw: "raw \<noteq> []" using Inr False by auto
    from compare_symbols_Inr [OF Inr] have ns: "map normalizeSymbol raw = map Inr ns" "distinct ns" "len ns \<le> mx"
      using raw by auto
    have valid: "\<forall>n \<in> set ns. IsValidSymbol n \<and> (\<exists>item \<in> set raw. normalizeSymbol item = Inr n)"
    proof
      fix n
      assume "n \<in> set ns"
      then have "(Inr n :: string ret) \<in> set (map normalizeSymbol raw)" unfolding ns(1) by simp
      then obtain item where "item \<in> set raw" "normalizeSymbol item = Inr n" by (auto simp: eq_commute)
      then show "IsValidSymbol n \<and> (\<exists>item \<in> set raw. normalizeSymbol item = Inr n)" by (metis normalizeSymbol_Inr)
    qed
    obtain r w' where r: "compare_results analytics_codec (the_repo pg scr) ns [] w = (r, w')" by force
    have "cache_coherent w' \<and> db_view (w_db w') = db_view (w_db w) \<and>
      (case r of Ok res \<Rightarrow> map (db_analytics (w_db w)) ns = map Ok res
       | Err e \<Rightarrow> \<exists>n \<in> set ns. agrees (Err e) (db_analytics (w_db w) n) | Panic \<Rightarrow> False)"
      using sys.compare_results_agrees [of "the_repo pg scr" pg scr w ns "[]" r w'] assms valid r
      unfolding coherent_eq db_analytics_def by (simp split: outcome.splits)
    with Inr False ns valid r show ?thesis
      by (auto simp: Compare_def len_def split: outcome.splits)
  qed
qed

section \<open>A database that answers\<close>

text \<open>With a database that answers, the only errors of the reads are \<^verbatim>\<open>sql.ErrNoRows\<close>, and no fault appears.\<close>

lemma query_ok: "db_faults d = [] \<Longrightarrow> query_sql q d = (Inr (q d, None), d)"
  by (simp add: query_sql_def next_fault_def)

lemma reads_ok:
  assumes "db_faults d = []"
  shows "\<exists>r. repo_GetCompany s d = (r, d) \<and> (\<forall>e. r = Inl e \<longrightarrow> errors_Is e sql_ErrNoRows)"
    and "\<exists>r. repo_GetPriceHistory s n d = (r, d) \<and> (\<forall>e. r = Inl e \<longrightarrow> errors_Is e sql_ErrNoRows)"
    and "\<exists>r. repo_GetLatestPrice s d = (r, d) \<and> (\<forall>e. r = Inl e \<longrightarrow> errors_Is e sql_ErrNoRows)"
    and "\<exists>r. queryStatements per date table s p d = (r, d) \<and> (\<forall>e. r = Inl e \<longrightarrow> errors_Is e sql_ErrNoRows)"
  by (auto simp: repo_GetCompany_def repo_GetPriceHistory_def repo_GetLatestPrice_def queryStatements_def query_row_def
      query_ok [OF assms] Let_def wrap_text_def split: list.splits)

definition explained :: "'a res \<Rightarrow> bool" where
  "explained r \<longleftrightarrow> (\<forall>e. r = Err e \<longrightarrow> errors_Is e ErrNotFound \<or> errors_Is e ErrInsufficientData)"

lemma explained_absent:
  "errors_Is e sql_ErrNoRows \<Longrightarrow> explained (Err (if errors_Is e sql_ErrNoRows then wrapNotFound e else e))"
  "errors_Is e sql_ErrNoRows \<Longrightarrow> explained (Err (insufficientErr e))"
  by (simp_all add: explained_def wrapNotFound_def insufficientErr_def wrap_sentinel_def)

lemma compute_explained:
  "incomes \<noteq> [] \<Longrightarrow> balances \<noteq> [] \<Longrightarrow> explained (analytics_compute nsym incomes balances latest)"
  "prices \<noteq> [] \<Longrightarrow> explained (technical_compute nsym prices)"
  using analytics_compute_total [of incomes balances nsym latest] technical_compute_total [of prices nsym] by (auto simp: explained_def)

lemma rows_ok:
  assumes "db_faults d = []"
  shows "repo_GetIncomeStatements s p d = (Inr xs, d') \<Longrightarrow> xs \<noteq> []" "repo_GetBalanceSheets s p d = (Inr ys, d') \<Longrightarrow> ys \<noteq> []"
    "repo_GetPriceHistory s n d = (Inr zs, d') \<Longrightarrow> zs \<noteq> []"
  by (auto simp: repo_GetIncomeStatements_def repo_GetBalanceSheets_def queryStatements_def repo_GetPriceHistory_def
      query_ok [OF assms] Let_def len_def split: if_splits)

lemma reads_explained:
  assumes s: "q_store s = world_QueryStore (repo_QueryStore pg scr)" and f: "db_faults (w_db w) = []"
  shows "explained (fst (analytics_read s nsym w))" "explained (fst (technical_read s nsym w))"
proof -
  from reads_ok(1) [OF f, of nsym] obtain rc where
    c: "repo_GetCompany nsym (w_db w) = (rc, w_db w)" "\<And>e. rc = Inl e \<Longrightarrow> errors_Is e sql_ErrNoRows" by blast
  from reads_ok(4) [OF f, of inc_Period inc_FiscalDate t_income nsym "''annual''"] obtain ri where
    i: "repo_GetIncomeStatements nsym ''annual'' (w_db w) = (ri, w_db w)" "\<And>e. ri = Inl e \<Longrightarrow> errors_Is e sql_ErrNoRows"
    unfolding repo_GetIncomeStatements_def by blast
  from reads_ok(4) [OF f, of bal_Period bal_FiscalDate t_balance nsym "''annual''"] obtain rb where
    b: "repo_GetBalanceSheets nsym ''annual'' (w_db w) = (rb, w_db w)" "\<And>e. rb = Inl e \<Longrightarrow> errors_Is e sql_ErrNoRows"
    unfolding repo_GetBalanceSheets_def by blast
  from reads_ok(3) [OF f, of nsym] obtain rl where
    l: "repo_GetLatestPrice nsym (w_db w) = (rl, w_db w)" "\<And>e. rl = Inl e \<Longrightarrow> errors_Is e sql_ErrNoRows" by blast
  from reads_ok(2) [OF f, of nsym 0] obtain rh where
    h: "repo_GetPriceHistory nsym 0 (w_db w) = (rh, w_db w)" "\<And>e. rh = Inl e \<Longrightarrow> errors_Is e sql_ErrNoRows" by blast
  note store = s world_QueryStore_def repo_QueryStore_def on_db_def c(1) i(1) b(1) l(1) h(1)
  note absent = explained_absent [OF c(2)] explained_absent [OF i(2)] explained_absent [OF b(2)]
    explained_absent [OF l(2)] explained_absent [OF h(2)]
  have "explained (analytics_compute nsym is' bs p)" if "ri = Inr is'" "rb = Inr bs" for is' bs p
    by (rule compute_explained(1) [OF rows_ok(1) [OF f] rows_ok(2) [OF f]]) (use i(1) b(1) that in simp_all)
  then show "explained (fst (analytics_read s nsym w))"
    using absent by (cases rc; cases ri; cases rb; cases rl) (simp_all add: analytics_read_def store)
  have "explained (technical_compute nsym ps)" if "rh = Inr ps" for ps
    by (rule compute_explained(2) [OF rows_ok(3) [OF f]]) (use h(1) that in simp)
  then show "explained (fst (technical_read s nsym w))"
    using absent by (cases rc; cases rh) (simp_all add: technical_read_def store)
qed

lemma read_through_explained:
  assumes "\<And>w. db_faults (w_db w) = [] \<Longrightarrow> explained (fst (compute w))" "db_faults (w_db w) = []"
  shows "explained (fst (read_through json (Some api_cache) k compute w))"
proof -
  have "w_db (snd (cachedResult json api_cache k w)) = w_db w"
    by (auto simp: cachedResult_def api_cache_def Redis_Cache_calls world_client_cache on_redis_def split: prod.splits sum.splits)
  with assms show ?thesis
    by (auto simp: read_through_def explained_def split: prod.splits option.splits outcome.splits) (metis fst_conv)+
qed

lemma reads_calm:
  assumes s: "q_store s = world_QueryStore (repo_QueryStore pg scr)" and f: "db_faults (w_db w) = []"
  shows "snd (analytics_read s nsym w) = w"
proof -
  obtain rc ri rb rl where "repo_GetCompany nsym (w_db w) = (rc, w_db w)" "repo_GetIncomeStatements nsym ''annual'' (w_db w) = (ri, w_db w)"
    "repo_GetBalanceSheets nsym ''annual'' (w_db w) = (rb, w_db w)" "repo_GetLatestPrice nsym (w_db w) = (rl, w_db w)"
    using reads_ok [OF f] unfolding repo_GetIncomeStatements_def repo_GetBalanceSheets_def by metis
  then show ?thesis
    by (cases rc; cases ri; cases rb; cases rl) (simp_all add: analytics_read_def s world_QueryStore_def repo_QueryStore_def on_db_def)
qed

lemma db_analytics_cases:
  obtains x where "db_analytics d n = Ok x" | "db_analytics d n = Err ErrNotFound" | "db_analytics d n = Err ErrInsufficientData"
  unfolding db_analytics_def analytics_spec_def using analytics_compute_total by (metis (full_types))

text \<open>With a coherent cache and a database that answers, the result of one symbol is determined by the tables.\<close>

lemma analytics_calm:
  assumes "cache_coherent w" "db_faults (w_db w) = []" "IsValidSymbol n" "GetAnalytics analytics_codec (the_repo pg scr) n w = (r, w1)"
  shows "cache_coherent w1 \<and> w_db w1 = w_db w \<and>
    (case db_analytics (w_db w) n of Ok x \<Rightarrow> r = Ok x | Err s \<Rightarrow> \<exists>e. r = Err e \<and> errors_Is e s | Panic \<Rightarrow> False)"
proof -
  have n: "normalizeSymbol n = Inr n" by (rule normalizeSymbol_fixed [OF assms(3)])
  from analytics_refines [OF assms(1) n assms(4)] have c: "cache_coherent w1" and a: "agrees r (db_analytics (w_db w) n)" by auto
  have e: "explained r"
  proof -
    have "explained (fst (read_through analytics_codec (Some api_cache) (''analytics:'' @ n) (analytics_read (the_repo pg scr) n) w))"
      by (rule read_through_explained [OF _ assms(2)]) (rule reads_explained(1) [OF api_service(1)])
    with assms(4) n show ?thesis by (simp add: GetAnalytics_def)
  qed
  have "w_db w1 = w_db w"
  proof -
    have h: "w_db (snd (cachedResult analytics_codec api_cache k w)) = w_db w" for k
      by (auto simp: cachedResult_def api_cache_def Redis_Cache_calls world_client_cache on_redis_def split: prod.splits sum.splits)
    have st: "w_db (storeResult analytics_codec api_cache k x v) = w_db v" for k x v
      by (auto simp: storeResult_def api_cache_def Redis_Cache_calls world_client_cache on_redis_def split: prod.splits sum.splits)
    let ?k = "''analytics:'' @ n"
    obtain hit w2 where 1: "cachedResult analytics_codec api_cache ?k w = (hit, w2)" by force
    have w2: "w_db w2 = w_db w" using h [of ?k] 1 by simp
    obtain q where 2: "analytics_read (the_repo pg scr) n w2 = (q, w2)"
      using reads_calm [OF api_service(1), where w = w2 and nsym = n and pg = pg and scr = scr] assms(2) w2 by (metis prod.collapse)
    show ?thesis using assms(4) n 1 2 w2 by (auto simp: GetAnalytics_def read_through_def st split: option.splits outcome.splits)
  qed
  with c a e show ?thesis
    by (cases rule: db_analytics_cases [of "w_db w" n]; cases r) (auto simp: agrees_def explained_def ErrNotFound_def ErrInsufficientData_def)
qed

lemma compare_results_calm:
  assumes "cache_coherent w" "db_faults (w_db w) = []" "\<forall>n \<in> set ns. IsValidSymbol n"
  shows "case find (\<lambda>n. \<forall>x. db_analytics (w_db w) n \<noteq> Ok x) ns of
      None \<Rightarrow> \<exists>new. fst (compare_results analytics_codec (the_repo pg scr) ns out w) = Ok (out @ new)
    | Some n \<Rightarrow> \<exists>e s. fst (compare_results analytics_codec (the_repo pg scr) ns out w) = Err e \<and>
        db_analytics (w_db w) n = Err s \<and> errors_Is e s"
  using assms
proof (induction ns arbitrary: out w)
  case (Cons n ns)
  obtain r w1 where 1: "GetAnalytics analytics_codec (the_repo pg scr) n w = (r, w1)" by force
  from analytics_calm [OF Cons.prems(1,2) _ 1] Cons.prems(3) have w1: "cache_coherent w1" "w_db w1 = w_db w"
    and r: "case db_analytics (w_db w) n of Ok x \<Rightarrow> r = Ok x | Err s \<Rightarrow> \<exists>e. r = Err e \<and> errors_Is e s | Panic \<Rightarrow> False" by auto
  show ?case
  proof (cases "db_analytics (w_db w) n")
    case (Ok x)
    with r have "r = Ok x" by simp
    moreover from Cons.IH [OF w1(1), of "out @ [x]", unfolded w1(2)] Cons.prems
    have "case find (\<lambda>n. \<forall>x. db_analytics (w_db w) n \<noteq> Ok x) ns of
        None \<Rightarrow> \<exists>new. fst (compare_results analytics_codec (the_repo pg scr) ns (out @ [x]) w1) = Ok ((out @ [x]) @ new)
      | Some n \<Rightarrow> \<exists>e s. fst (compare_results analytics_codec (the_repo pg scr) ns (out @ [x]) w1) = Err e \<and>
          db_analytics (w_db w) n = Err s \<and> errors_Is e s" by simp
    ultimately show ?thesis using Ok 1 by (auto split: option.splits)
  qed (use r 1 in auto)
qed simp

text \<open>The lists that \<open>Compare\<close> accepts, with the symbols they stand for.\<close>

definition acceptable :: "int \<Rightarrow> string list \<Rightarrow> string list \<Rightarrow> bool" where
  "acceptable mx raw ns \<longleftrightarrow> raw \<noteq> [] \<and> map normalizeSymbol raw = map Inr ns \<and> distinct ns \<and> len ns \<le> mx"

text \<open>
  C23. Compare is all or nothing. With a coherent cache, and whatever fails in Redis or the database: a list that is not
  acceptable (empty, too long, with an invalid or a repeated symbol) is refused as \<open>ErrInvalidSymbol\<close> before
  anything is read. For an acceptable list, success means the specified analytics of every symbol in the
  order of the request, never a part of them; a failure is never \<open>ErrInvalidSymbol\<close>, and is \<open>ErrNotFound\<close> or
  \<open>ErrInsufficientData\<close> only when the tables say so of one of the symbols. As long as the database answers, the outcome
  is determined: success if the tables specify a result for every symbol, and otherwise the error they
  specify for the first symbol without one.
\<close>
theorem Compare_all_or_nothing:
  assumes "cache_coherent w" and "Compare analytics_codec (api_QueryService (repo_QueryStore pg scr)) raw mx w = (r, w')"
  shows "cache_coherent w' \<and> db_view (w_db w') = db_view (w_db w) \<and>
    ((\<nexists>ns. acceptable mx raw ns) \<longrightarrow> w' = w \<and> (\<exists>e. r = Err e \<and> errors_Is e ErrInvalidSymbol)) \<and>
    (\<forall>ns. acceptable mx raw ns \<longrightarrow>
      (case r of
         Ok res \<Rightarrow> map (db_analytics (w_db w)) ns = map Ok res
       | Err e \<Rightarrow> \<not> errors_Is e ErrInvalidSymbol \<and> (\<exists>n \<in> set ns. agrees (Err e) (db_analytics (w_db w) n))
       | Panic \<Rightarrow> False) \<and>
      (db_faults (w_db w) = [] \<longrightarrow>
        (case find (\<lambda>n. \<forall>x. db_analytics (w_db w) n \<noteq> Ok x) ns of
           None \<Rightarrow> \<exists>res. r = Ok res
         | Some n \<Rightarrow> \<exists>e s. r = Err e \<and> db_analytics (w_db w) n = Err s \<and> errors_Is e s)))"
proof (intro conjI impI allI)
  from Compare_refines [OF assms(1), where pg = pg and scr = scr and raw = raw and mx = mx] assms(2)
  show "cache_coherent w'" "db_view (w_db w') = db_view (w_db w)" by simp_all
  {
    assume n: "\<nexists>ns. acceptable mx raw ns"
    show "w' = w" "\<exists>e. r = Err e \<and> errors_Is e ErrInvalidSymbol"
    proof -
      have "(\<exists>e. compare_symbols mx raw [] {} = Inl e) \<or> compare_symbols mx raw [] {} = Inr []"
      proof (cases "compare_symbols mx raw [] {}")
        case (Inr ns)
        from compare_symbols_Inr [OF this] n Inr show ?thesis by (cases "raw = []") (auto simp: acceptable_def)
      qed simp
      with assms(2) compare_symbols_Inl show "w' = w" "\<exists>e. r = Err e \<and> errors_Is e ErrInvalidSymbol"
        by (auto simp: Compare_def len_def)
    qed
  }
  fix ns assume a: "acceptable mx raw ns"
  then have "compare_symbols mx raw [] {} = Inr ns" "ns \<noteq> []"
    using compare_symbols_complete [of raw ns "{}" "[]" mx] by (auto simp: acceptable_def)
  with assms(2) have c: "compare_results analytics_codec (the_repo pg scr) ns [] w = (r, w')" by (simp add: Compare_def len_def)
  have valid: "\<forall>n \<in> set ns. IsValidSymbol n"
  proof
    fix n assume "n \<in> set ns"
    then have "(Inr n :: string ret) \<in> set (map normalizeSymbol raw)" using a by (simp add: acceptable_def)
    then show "IsValidSymbol n" by (auto simp: normalizeSymbol_Inr eq_commute)
  qed
  show "case r of
         Ok res \<Rightarrow> map (db_analytics (w_db w)) ns = map Ok res
       | Err e \<Rightarrow> \<not> errors_Is e ErrInvalidSymbol \<and> (\<exists>n \<in> set ns. agrees (Err e) (db_analytics (w_db w) n))
       | Panic \<Rightarrow> False"
    using sys.compare_results_agrees [of "the_repo pg scr" pg scr w ns "[]" r w'] assms(1) valid c
    unfolding coherent_eq db_analytics_def by (auto simp: agrees_def split: outcome.splits)
  assume "db_faults (w_db w) = []"
  from compare_results_calm [OF assms(1) this valid, of pg scr "[]"] c
  show "case find (\<lambda>n. \<forall>x. db_analytics (w_db w) n \<noteq> Ok x) ns of
         None \<Rightarrow> \<exists>res. r = Ok res
       | Some n \<Rightarrow> \<exists>e s. r = Err e \<and> db_analytics (w_db w) n = Err s \<and> errors_Is e s"
    by (auto split: option.splits)
qed

definition stocked_world :: world where
  "stocked_world = blank_world\<lparr>w_db := blank_db\<lparr>seq_companies := 2,
     t_companies := [(1, \<lparr>co_Symbol = ''AAPL'', co_Name = [], co_Exchange = [], co_Sector = [], co_Industry = [], co_Currency = [], co_Description = []\<rparr>)],
     t_prices := [(1, \<lparr>dp_Date = 5, dp_Open = 1, dp_High = 1, dp_Low = 1, dp_Close = 1, dp_Volume = 10\<rparr>)],
     t_income := [(1, \<lparr>inc_Period = ''annual'', inc_FiscalDate = 5, inc_Revenue = 1, inc_GrossProfit = 1, inc_OperatingIncome = 1,
       inc_NetIncome = 1, inc_DilutedEPS = 1\<rparr>)],
     t_balance := [(1, \<lparr>bal_Period = ''annual'', bal_FiscalDate = 5, bal_TotalAssets = 1, bal_TotalLiabilities = 1, bal_TotalEquity = 1,
       bal_TotalDebt = 1, bal_CurrentAssets = 1, bal_CurrentLiabilities = 1, bal_SharesOutstanding = 1\<rparr>)]\<rparr>\<rparr>"

lemma stocked:
  "cache_coherent stocked_world" "db_faults (w_db stocked_world) = []"
  "\<exists>x. db_analytics (w_db stocked_world) ''AAPL'' = Ok x" "db_analytics (w_db stocked_world) ''MSFT'' = Err ErrNotFound"
proof -
  show "cache_coherent stocked_world" "db_faults (w_db stocked_world) = []"
    by (simp_all add: cache_coherent_def cached_def stocked_world_def blank_world_def blank_db_def ref_entries_def live_def)
  note defs = db_analytics_def analytics_spec_def view_company_def view_income_def view_balance_def statement_rows_def price_rows_def
    company_rows_def rows_of_def stocked_world_def blank_world_def blank_db_def
  show "\<exists>x. db_analytics (w_db stocked_world) ''AAPL'' = Ok x" by (simp add: defs analytics_compute_total)
  show "db_analytics (w_db stocked_world) ''MSFT'' = Err ErrNotFound" by (simp add: defs)
qed

theorem Compare_all_or_nothing_witness:
  "(\<exists>x. fst (Compare analytics_codec (api_QueryService (repo_QueryStore plain_pg (\<lambda>f d. (Inr [], d)))) [''AAPL''] 10 stocked_world) = Ok [x] \<and>
      db_analytics (w_db stocked_world) ''AAPL'' = Ok x) \<and>
   (\<exists>e. fst (Compare analytics_codec (api_QueryService (repo_QueryStore plain_pg (\<lambda>f d. (Inr [], d)))) [''AAPL'', ''MSFT''] 10 stocked_world) = Err e \<and>
      errors_Is e ErrNotFound)"
proof -
  let ?c = "\<lambda>raw. Compare analytics_codec (api_QueryService (repo_QueryStore plain_pg (\<lambda>f d. (Inr [], d)))) raw 10 stocked_world"
  have n: "normalizeSymbol ''AAPL'' = Inr ''AAPL''" "normalizeSymbol ''MSFT'' = Inr ''MSFT''"
    by (rule normalizeSymbol_fixed, code_simp)+
  have a: "acceptable 10 [''AAPL''] [''AAPL'']" "acceptable 10 [''AAPL'', ''MSFT''] [''AAPL'', ''MSFT'']"
    by (simp_all add: acceptable_def n len_def)
  note spec = Compare_all_or_nothing [OF stocked(1) prod.collapse [symmetric], THEN conjunct2, THEN conjunct2, THEN conjunct2, THEN spec, THEN mp]
  obtain x where x: "db_analytics (w_db stocked_world) ''AAPL'' = Ok x" using stocked(3) by blast
  have "fst (?c [''AAPL'']) = Ok [x]"
    using spec [OF a(1), of plain_pg "\<lambda>f d. (Inr [], d)"] stocked(2) x by (auto split: outcome.splits)
  moreover have "\<exists>e. fst (?c [''AAPL'', ''MSFT'']) = Err e \<and> errors_Is e ErrNotFound"
    using spec [OF a(2), of plain_pg "\<lambda>f d. (Inr [], d)"] stocked(2,4) x by auto
  ultimately show ?thesis using x by blast
qed

section \<open>Coherence is an invariant of the API\<close>

text \<open>
  Everything that happens to the world while the API runs and nobody ingests: requests for computed
  results, requests counted by a rate limiter (for any key and any limits), time passing, entries
  evicted, and any faults ahead.
\<close>

inductive api_step :: "db QueryStore \<Rightarrow> world \<Rightarrow> world \<Rightarrow> bool" for repo where
  analytics: "api_step repo w (snd (GetAnalytics analytics_codec (api_QueryService repo) symbol w))"
| technical: "api_step repo w (snd (GetTechnical technical_codec (api_QueryService repo) symbol w))"
| compare: "api_step repo w (snd (Compare analytics_codec (api_QueryService repo) raw mx w))"
| limit: "api_step repo w (snd (Allow (rate_NewRedis world_client lmt window) key w))"
| tick: "0 \<le> n \<Longrightarrow> api_step repo w (w\<lparr>w_redis := (w_redis w)\<lparr>rs_now := rs_now (w_redis w) + n\<rparr>\<rparr>)"
| evict: "data \<subseteq>\<^sub>m rs_data (w_redis w) \<Longrightarrow> api_step repo w (w\<lparr>w_redis := (w_redis w)\<lparr>rs_data := data\<rparr>\<rparr>)"
| faults: "api_step repo w (w\<lparr>w_redis := (w_redis w)\<lparr>rs_faults := fs\<rparr>, w_db := (w_db w)\<lparr>db_faults := gs\<rparr>\<rparr>)"

lemma cache_coherent_sub:
  assumes "cache_coherent w" "db_view (w_db w') = db_view (w_db w)"
    and "\<And>k d. cached w' k = Some d \<Longrightarrow> take 3 k \<noteq> ''rl:'' \<Longrightarrow> cached w k = Some d"
  shows "cache_coherent w'"
proof -
  have e: "db_analytics (w_db w') = db_analytics (w_db w)" "db_technical (w_db w') = db_technical (w_db w)"
    using db_spec_cong [OF assms(2)] by auto
  have "cached w' (''analytics:'' @ n) = Some d \<Longrightarrow> cached w (''analytics:'' @ n) = Some d"
    "cached w' (''technical:'' @ n) = Some d \<Longrightarrow> cached w (''technical:'' @ n) = Some d" for n d
    using assms(3) [of "''analytics:'' @ n" d] assms(3) [of "''technical:'' @ n" d] by simp_all
  then show ?thesis using assms(1) unfolding cache_coherent_def e by metis
qed

text \<open>A counter lives under its own prefix: INCR and EXPIRE leave every other key alone.\<close>

lemma live_other: "j \<noteq> k \<Longrightarrow> live (s\<lparr>rs_data := (rs_data s)(k := x)\<rparr>) j = live s j"
  by (auto simp: live_def split: option.splits)

lemma command_other:
  assumes "\<And>s. live (snd (cmd s)) j = live s j"
  shows "live (snd (command cmd s)) j = live s j"
  using assms by (cases rule: command_cases [of cmd s]) simp_all

lemma ref_Incr_other: "j \<noteq> k \<Longrightarrow> live (snd (ref_Incr k s)) j = live s j"
  by (auto simp: ref_Incr_def live_other split: option.splits)

lemma ref_Expire_other: "j \<noteq> k \<Longrightarrow> live (snd (ref_Expire k ttl s)) j = live s j"
  by (auto simp: ref_Expire_def live_other split: option.splits)

lemma limit_cached:
  assumes "take 3 k \<noteq> ''rl:''"
  shows "cached (snd (Allow (rate_NewRedis world_client lmt window) key w)) k = cached w k"
    and "w_db (snd (Allow (rate_NewRedis world_client lmt window) key w)) = w_db w"
proof -
  have j: "''fda:'' @ k \<noteq> rkey key" using assms by auto
  have o: "live (snd (command (ref_Incr (rkey key)) s)) (''fda:'' @ k) = live s (''fda:'' @ k)"
    "live (snd (command (ref_Expire (rkey key) window) s)) (''fda:'' @ k) = live s (''fda:'' @ k)" for s
    using command_other [OF ref_Incr_other [OF j]] command_other [OF ref_Expire_other [OF j]] by auto
  show "cached (snd (Allow (rate_NewRedis world_client lmt window) key w)) k = cached w k"
    using o(1) [of "w_redis w"] o(2)
    by (auto simp: Allow_def rate_NewRedis_def world_client_def ref_client_def on_redis_def cached_def ref_entries_def Let_def
        split: prod.splits sum.splits) (metis snd_conv)+
  show "w_db (snd (Allow (rate_NewRedis world_client lmt window) key w)) = w_db w"
    by (auto simp: Allow_def rate_NewRedis_def world_client_def on_redis_def Let_def split: prod.splits sum.splits)
qed

lemma cached_time:
  "0 \<le> n \<Longrightarrow> cached (w\<lparr>w_redis := (w_redis w)\<lparr>rs_now := rs_now (w_redis w) + n\<rparr>\<rparr>) k = Some d \<Longrightarrow> cached w k = Some d"
  by (cases "rs_data (w_redis w) (''fda:'' @ k)")
    (auto simp: cached_def ref_entries_def live_def split: if_splits option.splits, (case_tac b; simp)+)

lemma cached_evict:
  "data \<subseteq>\<^sub>m rs_data (w_redis w) \<Longrightarrow> cached (w\<lparr>w_redis := (w_redis w)\<lparr>rs_data := data\<rparr>\<rparr>) k = Some d \<Longrightarrow> cached w k = Some d"
  by (auto simp: cached_def ref_entries_def live_def map_le_def dom_def split: option.splits if_splits)

lemma api_step_coherent:
  assumes "api_step (repo_QueryStore pg scr) w w'" "cache_coherent w"
  shows "cache_coherent w' \<and> db_view (w_db w') = db_view (w_db w)"
  using assms
proof cases
  case (analytics symbol)
  show ?thesis
  proof (cases "normalizeSymbol symbol")
    case (Inl e)
    with analytics assms(2) show ?thesis by (simp add: GetAnalytics_def)
  next
    case (Inr nsym)
    from analytics_refines [OF assms(2) this surjective_pairing] analytics show ?thesis by simp
  qed
next
  case (technical symbol)
  show ?thesis
  proof (cases "normalizeSymbol symbol")
    case (Inl e)
    with technical assms(2) show ?thesis by (simp add: GetTechnical_def)
  next
    case (Inr nsym)
    from technical_refines [OF assms(2) this surjective_pairing] technical show ?thesis by simp
  qed
next
  case (compare raw mx)
  from Compare_refines [OF assms(2), where raw = raw and mx = mx and pg = pg and scr = scr] compare show ?thesis
    unfolding case_prod_beta by simp
next
  case (limit lmt window key)
  have db: "w_db w' = w_db w" using limit by (simp add: limit_cached(2) [of "[]"])
  moreover have "cached w k = Some d" if "cached w' k = Some d" "take 3 k \<noteq> ''rl:''" for k d
    using limit_cached(1) [OF that(2)] that(1) limit by simp
  ultimately show ?thesis using cache_coherent_sub [OF assms(2), of w'] by simp
next
  case (tick n)
  have "cached w k = Some d" if "cached w' k = Some d" for k d
    using cached_time [of n w k d] that tick by simp
  then show ?thesis using cache_coherent_sub [OF assms(2), of w'] tick(1) by simp
next
  case (evict data)
  have "cached w k = Some d" if "cached w' k = Some d" for k d
    using cached_evict [of data w k d] that evict by simp
  then show ?thesis using cache_coherent_sub [OF assms(2), of w'] evict(1) by simp
next
  case (faults fs gs)
  then show ?thesis using cache_coherent_sub [OF assms(2), of w'] by (simp add: cached_def ref_entries_def)
qed

text \<open>
  C12. The API keeps its cache coherent as long as nobody ingests. In every state that the running API reaches from a coherent one, by any
  sequence of requests, rate-limit checks, passing time, evictions and failures, every cached result that
  decodes is still exactly what the database specifies; in particular the counters of the rate limiters,
  which share the server, never turn up as cached results.
\<close>
theorem api_keeps_cache_coherent:
  assumes "(api_step (repo_QueryStore pg scr))\<^sup>*\<^sup>* w w'" and "cache_coherent w"
  shows "cache_coherent w' \<and> db_view (w_db w') = db_view (w_db w)"
  using assms
proof (induction rule: rtranclp_induct)
  case (step w1 w2)
  with api_step_coherent [OF step.hyps(2)] show ?case by simp
qed simp

theorem api_keeps_cache_coherent_witness:
  "cache_coherent (snd (Allow (rate_NewRedis world_client 100 60) ''key:1''
     (snd (GetTechnical technical_codec (api_QueryService (repo_QueryStore plain_pg (\<lambda>f d. (Inr [], d)))) ''AAPL'' blank_world))))"
proof -
  let ?q = "repo_QueryStore plain_pg (\<lambda>f d. (Inr [], d))"
  have "(api_step ?q)\<^sup>*\<^sup>* blank_world (snd (Allow (rate_NewRedis world_client 100 60) ''key:1''
     (snd (GetTechnical technical_codec (api_QueryService ?q) ''AAPL'' blank_world))))"
    by (rule rtranclp.rtrancl_into_rtrancl [OF r_into_rtranclp], rule api_step.technical, rule api_step.limit)
  from api_keeps_cache_coherent [OF this blank_coherent] show ?thesis by simp
qed

section \<open>Ingestion and staleness\<close>

text \<open>
  The ingestion command is built without a cache, so none of its steps touches Redis: every step is one of
  the world's database calls, the clock or the provider.
\<close>

lemma on_db_redis: "w_redis (snd (on_db f w)) = w_redis w"
  by (simp add: on_db_def split: prod.splits)

lemma world_DataStore_redis:
  "UpsertCompany (world_DataStore st) c w = (ri, w') \<Longrightarrow> w_redis w' = w_redis w"
  "InsertPrices (world_DataStore st) i ps w = (ri, w') \<Longrightarrow> w_redis w' = w_redis w"
  "InsertIncomeStatements (world_DataStore st) i xs w = (ri, w') \<Longrightarrow> w_redis w' = w_redis w"
  "InsertBalanceSheets (world_DataStore st) i bs w = (ri, w') \<Longrightarrow> w_redis w' = w_redis w"
  "InsertCashFlows (world_DataStore st) i fs w = (ri, w') \<Longrightarrow> w_redis w' = w_redis w"
  "RecordRun (world_DataStore st) run w = (ru, w') \<Longrightarrow> w_redis w' = w_redis w"
  by (auto simp: world_DataStore_def on_db_eq)

lemma ingest_keeps_redis:
  assumes "w_redis w = R" and "\<And>w. w_redis (snd (Now env w)) = w_redis w"
    and "\<And>s w. w_redis (snd (provider s w)) = w_redis w"
  shows "w_redis (snd (Ingest env (cmd_IngestionService provider pg) symbol w)) = R"
proof (cases "normalizeSymbol symbol")
  case (Inl e)
  then show ?thesis using assms(1) by (simp add: Ingest_def)
next
  case (Inr nsym)
  let ?s = "cmd_IngestionService provider pg"
  have s: "ing_store ?s = world_DataStore (repo_DataStore pg)" "ing_cache ?s = None" "ing_provider ?s = provider"
    by (simp_all add: cmd_IngestionService_def NewIngestionService_def len_def)
  have now: "w_redis w' = w_redis w" if "Now env w = (t, w')" for w t w' using assms(2) [of w] that by simp
  have fetch: "w_redis w' = w_redis w" if "provider n w = (r, w')" for n w r w' using assms(3) [of n w] that by simp
  have "\<exists>run' w1. w_redis w1 = R \<and> run_Symbol run' = nsym \<and> run_ErrorMessage run' = [] \<and>
    (Ingest env ?s symbol w = ingest_finish env ?s nsym run' w1 \<or>
     (\<exists>e. Ingest env ?s symbol w = ingest_fail env (ing_store ?s) run' ''failure'' (Some e) w1))"
    using assms(1) Inr now fetch
    by (intro Ingest_outcome [where P = "\<lambda>w. w_redis w = R"]) (auto simp: s dest: world_DataStore_redis)
  then obtain run' w1 where w1: "w_redis w1 = R"
    and c: "Ingest env ?s symbol w = ingest_finish env ?s nsym run' w1 \<or>
      (\<exists>e. Ingest env ?s symbol w = ingest_fail env (world_DataStore (repo_DataStore pg)) run' ''failure'' (Some e) w1)"
    unfolding s by blast
  have "w_redis (snd (ingest_finish env ?s nsym run' w1)) = R"
    using w1 now world_DataStore_redis(6)
    by (auto simp: ingest_finish_def s invalidate_def Let_def split: prod.splits sum.splits)
  moreover have "w_redis (snd (ingest_fail env (world_DataStore (repo_DataStore pg)) run' k (Some e) w1)) = R" for k e
    using w1 now world_DataStore_redis(6) by (auto simp: ingest_fail_def Let_def split: prod.splits)
  ultimately show ?thesis using c by auto
qed

text \<open>A hit: a live, decodable entry is returned as it is.\<close>

lemma GetAnalytics_hit:
  assumes "normalizeSymbol symbol = Inr nsym" "cached w (''analytics:'' @ nsym) = Some d" "d \<noteq> []"
    "Unmarshal analytics_codec d = Inr x" "rs_faults (w_redis w) = []"
  shows "GetAnalytics analytics_codec (api_QueryService repo) symbol w = (Ok x, w)"
proof -
  obtain ex where "live (w_redis w) (''fda:analytics:'' @ nsym) = Some (d, ex)"
    using assms(2) by (auto simp: cached_def ref_entries_def)
  then have "cache_Get api_cache (''analytics:'' @ nsym) w = (Inr d, w)"
    using assms(5) by (simp add: api_cache_def Redis_Cache_calls on_redis_def client_cache_def world_client_def
        ref_client_def command_def ref_Get_def)
  then show ?thesis using assms by (simp add: GetAnalytics_def read_through_def cachedResult_def len_def)
qed

text \<open>
  C39. Ingestion does not refresh the API. Whatever the ingestion command stores for a symbol, successfully or
  not, a result that was cached before it is still what the API answers afterwards, as long as the entry
  lives: the command is wired without the cache, so nothing is purged.
\<close>
theorem ingest_command_leaves_stale_results:
  assumes "normalizeSymbol symbol = Inr nsym" and "cached w (''analytics:'' @ nsym) = Some d" and "d \<noteq> []"
    and "Unmarshal analytics_codec d = Inr x" and "rs_faults (w_redis w) = []"
    and "\<And>w. w_redis (snd (Now env w)) = w_redis w" and "\<And>s w. w_redis (snd (provider s w)) = w_redis w"
    and "Ingest env (cmd_IngestionService provider pg) item w = (run, w')"
  shows "fst (GetAnalytics analytics_codec (api_QueryService repo) symbol w') = Ok x"
proof -
  have "w_redis (snd (Ingest env (cmd_IngestionService provider pg) item w)) = w_redis w"
    by (rule ingest_keeps_redis [OF refl assms(6,7)])
  then have "w_redis w' = w_redis w" using assms(8) by simp
  then have "cached w' (''analytics:'' @ nsym) = Some d" "rs_faults (w_redis w') = []"
    using assms(2,5) by (simp_all add: cached_def)
  from GetAnalytics_hit [OF assms(1) this(1) assms(3,4) this(2)] show ?thesis by simp
qed

definition sample_text :: string where
  "sample_text = projr (Marshal analytics_codec sample_analytics)"

definition warm_world :: world where
  "warm_world = blank_world\<lparr>w_redis := \<lparr>rs_data = [''fda:analytics:BRK.B'' \<mapsto> (sample_text, None)], rs_now = 0, rs_faults = []\<rparr>\<rparr>"

definition still_Env :: "world Env" where
  "still_Env = \<lparr>rand_Read = (\<lambda>w. (Inr (\<lambda>_. byte 0), w)), Now = (\<lambda>w. (0, w))\<rparr>"

lemma sample_text: "sample_text \<noteq> []" "Unmarshal analytics_codec sample_text = Inr sample_analytics"
proof -
  have w: "wf64 (Fin False (3/2))" "wf64 (Fin True (1/4))"
    using rmag_representable [OF representableI [of "3/2" 3 "-1"]] rmag_representable [OF representableI [of "1/4" 1 "-2"]]
    by (simp_all add: max64_def power_int_minus)
  obtain d where d: "Marshal analytics_codec sample_analytics = Inr d" "d \<noteq> []"
    unfolding sample_analytics_def analytics_codec_def using w
    by (auto simp: json_Marshal_def analytics_val_def metrics_val_def ptr_def zero_metrics_def simp del: wf64.simps)
  then show "sample_text \<noteq> []" by (simp add: sample_text_def)
  have "IsValidSymbol (ar_Symbol sample_analytics)" by code_simp
  from analytics_roundtrip [OF valid_symbol_ascii [OF this] d(1)] d(1)
  show "Unmarshal analytics_codec sample_text = Inr sample_analytics" by (simp add: sample_text_def)
qed

theorem ingest_command_leaves_stale_results_witness:
  "fst (GetAnalytics analytics_codec (api_QueryService (repo_QueryStore plain_pg (\<lambda>f d. (Inr [], d)))) ''BRK.B''
     (snd (Ingest still_Env (cmd_IngestionService (\<lambda>s w. (Inl (Foreign ''down''), w)) plain_pg) ''BRK.B'' warm_world))) =
   Ok sample_analytics"
proof (rule ingest_command_leaves_stale_results [where w = warm_world and nsym = "''BRK.B''" and d = sample_text
      and env = still_Env and provider = "\<lambda>s w. (Inl (Foreign ''down''), w)" and pg = plain_pg and item = "''BRK.B''",
      OF _ _ _ _ _ _ _ surjective_pairing])
  show "normalizeSymbol ''BRK.B'' = Inr ''BRK.B''" by (rule normalizeSymbol_fixed) code_simp
  show "cached warm_world (''analytics:'' @ ''BRK.B'') = Some sample_text"
    by (simp add: cached_def warm_world_def ref_entries_def live_def)
qed (use sample_text in \<open>simp_all add: warm_world_def still_Env_def\<close>)

end
