(* ===== verification/Screener_SQL.thy ===== *)
theory Screener_SQL
  imports Repository_Contracts
begin

text \<open>
  The screener query, \<^verbatim>\<open>internal/repository/screener.go\<close>. The ratios are computed by the server on its
  \<^verbatim>\<open>NUMERIC\<close> type, whose values and arithmetic are the argument \<open>pn\<close>: the value of a stored amount or
  price, the value of a placeholder, the test for being positive, subtraction, division, comparison and the
  conversion back to float64. NULL is \<open>None\<close>. The lateral joins with \<^verbatim>\<open>ORDER BY ... DESC LIMIT 1\<close> take the
  first row of a descending sort.
\<close>

section \<open>The query\<close>

record 'n PgNumeric =
  n_money :: "float64 \<Rightarrow> 'n"
  n_price :: "float64 \<Rightarrow> 'n"
  n_arg :: "float64 \<Rightarrow> 'n"
  n_pos :: "'n \<Rightarrow> bool"
  n_sub :: "'n \<Rightarrow> 'n \<Rightarrow> 'n"
  n_div :: "'n \<Rightarrow> 'n \<Rightarrow> 'n"
  n_le :: "'n \<Rightarrow> 'n \<Rightarrow> bool"
  n_scan :: "'n \<Rightarrow> float64"

text \<open>A row of the common table expression \<^verbatim>\<open>base\<close>.\<close>

record 'n base_row =
  b_symbol :: string
  b_name :: string
  b_sector :: string
  b_roe :: "'n option"
  b_pe :: "'n option"
  b_growth :: "'n option"

definition first_row :: "'a list \<Rightarrow> 'a option" where
  "first_row xs = (case xs of [] \<Rightarrow> None | x # _ \<Rightarrow> Some x)"

definition rows_for :: "int \<Rightarrow> (int \<times> 'r) list \<Rightarrow> 'r list" where
  "rows_for cid t = map snd (filter (\<lambda>(i, r). i = cid) t)"

definition annual_income :: "db \<Rightarrow> int \<Rightarrow> IncomeStatement list" where
  "annual_income d cid = filter (\<lambda>r. inc_Period r = ''annual'') (rows_for cid (t_income d))"

definition latest_income :: "db \<Rightarrow> int \<Rightarrow> IncomeStatement option" where
  "latest_income d cid = first_row (sort_key (\<lambda>r. - inc_FiscalDate r) (annual_income d cid))"

text \<open>The inner aggregate is the latest date; without rows there is nothing below it either.\<close>

definition previous_income :: "db \<Rightarrow> int \<Rightarrow> IncomeStatement option" where
  "previous_income d cid =
     (case annual_income d cid of
        [] \<Rightarrow> None
      | rows \<Rightarrow> (let mx = Max (inc_FiscalDate ` set rows)
                 in first_row (sort_key (\<lambda>r. - inc_FiscalDate r) (filter (\<lambda>r. inc_FiscalDate r < mx) rows))))"

definition latest_balance :: "db \<Rightarrow> int \<Rightarrow> BalanceSheet option" where
  "latest_balance d cid =
     first_row (sort_key (\<lambda>r. - bal_FiscalDate r) (filter (\<lambda>r. bal_Period r = ''annual'') (rows_for cid (t_balance d))))"

definition latest_close :: "db \<Rightarrow> int \<Rightarrow> DailyPrice option" where
  "latest_close d cid = first_row (sort_key (\<lambda>r. - dp_Date r) (rows_for cid (t_prices d)))"

text \<open>One company: the inner join drops it without an annual income statement.\<close>

definition screener_base :: "'n PgNumeric \<Rightarrow> db \<Rightarrow> int \<times> Company \<Rightarrow> 'n base_row option" where
  "screener_base pn d row =
     (let (cid, c) = row
      in case latest_income d cid of
           None \<Rightarrow> None
         | Some i \<Rightarrow>
             Some \<lparr>b_symbol = co_Symbol c, b_name = co_Name c, b_sector = co_Sector c,
               b_roe = (case latest_balance d cid of
                  Some b \<Rightarrow> if n_pos pn (n_money pn (bal_TotalEquity b))
                            then Some (n_div pn (n_money pn (inc_NetIncome i)) (n_money pn (bal_TotalEquity b))) else None
                | None \<Rightarrow> None),
               b_pe = (if n_pos pn (n_price pn (inc_DilutedEPS i))
                 then (case latest_close d cid of
                         Some p \<Rightarrow> Some (n_div pn (n_price pn (dp_Close p)) (n_price pn (inc_DilutedEPS i)))
                       | None \<Rightarrow> None)
                 else None),
               b_growth = (case previous_income d cid of
                  Some q \<Rightarrow> if n_pos pn (n_money pn (inc_Revenue q))
                            then Some (n_div pn (n_sub pn (n_money pn (inc_Revenue i)) (n_money pn (inc_Revenue q)))
                                        (n_money pn (inc_Revenue q))) else None
                | None \<Rightarrow> None)\<rparr>)"

text \<open>
  The conditions that are added, in the order of the code; a comparison with NULL does not hold. The
  text of the query holds their placeholders, so a condition is a function of the row.
\<close>

definition screener_where :: "'n PgNumeric \<Rightarrow> ScreenerFilter \<Rightarrow> ('n base_row \<Rightarrow> bool) list" where
  "screener_where pn f =
     (case sf_Sector f of Some v \<Rightarrow> if v \<noteq> [] then [\<lambda>r. b_sector r = v] else [] | None \<Rightarrow> []) @
     (case sf_MinROE f of Some v \<Rightarrow> [\<lambda>r. case b_roe r of Some x \<Rightarrow> n_le pn (n_arg pn v) x | None \<Rightarrow> False] | None \<Rightarrow> []) @
     (case sf_MaxPE f of Some v \<Rightarrow> [\<lambda>r. case b_pe r of Some x \<Rightarrow> n_le pn x (n_arg pn v) | None \<Rightarrow> False] | None \<Rightarrow> []) @
     (case sf_MinRevenueGrowth f of
        Some v \<Rightarrow> [\<lambda>r. case b_growth r of Some x \<Rightarrow> n_le pn (n_arg pn v) x | None \<Rightarrow> False] | None \<Rightarrow> [])"

definition screener_result :: "'n PgNumeric \<Rightarrow> 'n base_row \<Rightarrow> ScreenerResult" where
  "screener_result pn r = \<lparr>sr_Symbol = b_symbol r, sr_Name = b_name r, sr_Sector = b_sector r,
     sr_ROE = map_option (n_scan pn) (b_roe r), sr_PE = map_option (n_scan pn) (b_pe r),
     sr_RevenueGrowth = map_option (n_scan pn) (b_growth r)\<rparr>"

definition screener_rows :: "Pg \<Rightarrow> 'n PgNumeric \<Rightarrow> ScreenerFilter \<Rightarrow> db \<Rightarrow> ScreenerResult list" where
  "screener_rows pg pn f d =
     map (screener_result pn)
       (sort_by (\<lambda>a b. collate pg (b_symbol a) (b_symbol b))
         (filter (\<lambda>r. list_all (\<lambda>cond. cond r) (screener_where pn f)) (List.map_filter (screener_base pn d) (t_companies d))))"

definition repo_Screener :: "Pg \<Rightarrow> 'n PgNumeric \<Rightarrow> ScreenerFilter \<Rightarrow> (db, ScreenerResult list) call" where
  "repo_Screener pg pn f d =
     (case query_sql (screener_rows pg pn f) d of
        (Inl err, d) \<Rightarrow> (Inl (wrap_text ''screener'' err), d)
      | (Inr (out, None), d) \<Rightarrow> (Inr out, d)
      | (Inr (out, Some err), d) \<Rightarrow> (Inl err, d))"

section \<open>Sorting by a relation\<close>

lemma set_insort_by [simp]: "set (insort_by le x xs) = insert x (set xs)"
  by (induction xs) auto

lemma set_sort_by [simp]: "set (sort_by le xs) = set xs"
  unfolding sort_by_def by (induction xs) auto

lemma distinct_insort_by: "distinct (map f (insort_by le x xs)) \<longleftrightarrow> f x \<notin> f ` set xs \<and> distinct (map f xs)"
  by (induction xs) auto

lemma distinct_sort_by: "distinct (map f (sort_by le xs)) \<longleftrightarrow> distinct (map f xs)"
proof (induction xs)
  case (Cons x xs)
  have "sort_by le (x # xs) = insort_by le x (sort_by le xs)" by (simp add: sort_by_def)
  with Cons show ?case by (simp add: distinct_insort_by)
qed (simp add: sort_by_def)

lemma sorted_insort_by:
  assumes trans: "\<And>a b c. le a b \<Longrightarrow> le b c \<Longrightarrow> le a c" and total: "\<And>a b. le a b \<or> le b a"
  shows "sorted_wrt le xs \<Longrightarrow> sorted_wrt le (insort_by le x xs)"
proof (induction xs)
  case (Cons y ys)
  show ?case
  proof (cases "le x y")
    case True
    with Cons.prems trans show ?thesis by auto
  next
    case False
    with total [of x y] Cons show ?thesis by auto
  qed
qed simp

lemma sorted_sort_by:
  assumes "\<And>a b c. le a b \<Longrightarrow> le b c \<Longrightarrow> le a c" "\<And>a b. le a b \<or> le b a"
  shows "sorted_wrt le (sort_by le xs)"
proof (induction xs)
  case (Cons x xs)
  have "sort_by le (x # xs) = insort_by le x (sort_by le xs)" by (simp add: sort_by_def)
  with sorted_insort_by [of le, OF assms Cons] show ?case by simp
qed (simp add: sort_by_def)

section \<open>What the joins select\<close>

text \<open>The declarative reading of \<^verbatim>\<open>ORDER BY key DESC LIMIT 1\<close>.\<close>

definition is_latest :: "('a \<Rightarrow> time) \<Rightarrow> 'a set \<Rightarrow> 'a \<Rightarrow> bool" where
  "is_latest key A x \<longleftrightarrow> x \<in> A \<and> (\<forall>y \<in> A. key y \<le> key x)"

lemma first_row_latest:
  "first_row (sort_key (\<lambda>r. - key r) xs) = Some x \<Longrightarrow> is_latest key (set xs) x"
  "first_row (sort_key (\<lambda>r. - key r) xs) = None \<longleftrightarrow> xs = []"
proof -
  have s: "set (sort_key (\<lambda>r. - key r) xs) = set xs" "sorted (map (\<lambda>r. - key r) (sort_key (\<lambda>r. - key r) xs))" by simp_all
  assume "first_row (sort_key (\<lambda>r. - key r) xs) = Some x"
  then obtain ys where "sort_key (\<lambda>r. - key r) xs = x # ys" by (auto simp: first_row_def split: list.splits)
  with s show "is_latest key (set xs) x" by (auto simp: is_latest_def)
next
  have "sort_key (\<lambda>r. - key r) xs = [] \<longleftrightarrow> xs = []" by (metis length_0_conv length_sort)
  then show "first_row (sort_key (\<lambda>r. - key r) xs) = None \<longleftrightarrow> xs = []" by (auto simp: first_row_def split: list.splits)
qed

lemma first_row_unique:
  assumes "inj_on key (set xs)"
  shows "first_row (sort_key (\<lambda>r. - key r) xs) = Some x \<longleftrightarrow> is_latest key (set xs) x"
proof
  assume x: "is_latest key (set xs) x"
  then have "first_row (sort_key (\<lambda>r. - key r) xs) \<noteq> None" unfolding first_row_latest(2) by (auto simp: is_latest_def)
  then obtain y where y: "first_row (sort_key (\<lambda>r. - key r) xs) = Some y" by blast
  with first_row_latest(1) [OF y] x have "key x = key y" "x \<in> set xs" "y \<in> set xs"
    by (auto simp: is_latest_def intro: antisym)
  with assms y show "first_row (sort_key (\<lambda>r. - key r) xs) = Some x" by (auto dest: inj_onD)
qed (rule first_row_latest(1))

text \<open>The rows of a company, as sets, and what the query is to compute from them.\<close>

definition annual_incomes :: "db \<Rightarrow> int \<Rightarrow> IncomeStatement set" where
  "annual_incomes d cid = {r. (cid, r) \<in> set (t_income d) \<and> inc_Period r = ''annual''}"

definition annual_balances :: "db \<Rightarrow> int \<Rightarrow> BalanceSheet set" where
  "annual_balances d cid = {r. (cid, r) \<in> set (t_balance d) \<and> bal_Period r = ''annual''}"

definition closes :: "db \<Rightarrow> int \<Rightarrow> DailyPrice set" where
  "closes d cid = {r. (cid, r) \<in> set (t_prices d)}"

definition picked :: "('a \<Rightarrow> time) \<Rightarrow> 'a set \<Rightarrow> 'a option \<Rightarrow> bool" where
  "picked key A x \<longleftrightarrow> (case x of None \<Rightarrow> A = {} | Some y \<Rightarrow> is_latest key A y)"

definition screened :: "'n PgNumeric \<Rightarrow> db \<Rightarrow> int \<Rightarrow> Company \<Rightarrow> 'n base_row \<Rightarrow> bool" where
  "screened pn d cid c r \<longleftrightarrow>
     (\<exists>i q b p. is_latest inc_FiscalDate (annual_incomes d cid) i \<and>
        picked inc_FiscalDate {x \<in> annual_incomes d cid. inc_FiscalDate x < inc_FiscalDate i} q \<and>
        picked bal_FiscalDate (annual_balances d cid) b \<and> picked dp_Date (closes d cid) p \<and>
        b_symbol r = co_Symbol c \<and> b_name r = co_Name c \<and> b_sector r = co_Sector c \<and>
        b_roe r = Option.bind b (\<lambda>b. if n_pos pn (n_money pn (bal_TotalEquity b))
          then Some (n_div pn (n_money pn (inc_NetIncome i)) (n_money pn (bal_TotalEquity b))) else None) \<and>
        b_pe r = Option.bind p (\<lambda>p. if n_pos pn (n_price pn (inc_DilutedEPS i))
          then Some (n_div pn (n_price pn (dp_Close p)) (n_price pn (inc_DilutedEPS i))) else None) \<and>
        b_growth r = Option.bind q (\<lambda>q. if n_pos pn (n_money pn (inc_Revenue q))
          then Some (n_div pn (n_sub pn (n_money pn (inc_Revenue i)) (n_money pn (inc_Revenue q))) (n_money pn (inc_Revenue q))) else None))"

definition meets :: "'n PgNumeric \<Rightarrow> ScreenerFilter \<Rightarrow> 'n base_row \<Rightarrow> bool" where
  "meets pn f r \<longleftrightarrow> (\<forall>v. sf_Sector f = Some v \<and> v \<noteq> [] \<longrightarrow> b_sector r = v) \<and>
     (\<forall>v. sf_MinROE f = Some v \<longrightarrow> (\<exists>x. b_roe r = Some x \<and> n_le pn (n_arg pn v) x)) \<and>
     (\<forall>v. sf_MaxPE f = Some v \<longrightarrow> (\<exists>x. b_pe r = Some x \<and> n_le pn x (n_arg pn v))) \<and>
     (\<forall>v. sf_MinRevenueGrowth f = Some v \<longrightarrow> (\<exists>x. b_growth r = Some x \<and> n_le pn (n_arg pn v) x))"

lemma where_meets: "list_all (\<lambda>cond. cond r) (screener_where pn f) \<longleftrightarrow> meets pn f r"
  by (auto simp: screener_where_def meets_def split: option.splits)

lemma rows_for_set:
  "set (annual_income d cid) = annual_incomes d cid"
  "set (filter (\<lambda>r. bal_Period r = ''annual'') (rows_for cid (t_balance d))) = annual_balances d cid"
  "set (rows_for cid (t_prices d)) = closes d cid"
  by (auto simp: annual_income_def rows_for_def annual_incomes_def annual_balances_def closes_def image_iff)

lemma dates_unique:
  assumes "db_inv d"
  shows "inj_on inc_FiscalDate (annual_incomes d cid)" "inj_on bal_FiscalDate (annual_balances d cid)"
    "inj_on dp_Date (closes d cid)"
proof -
  have k: "inj_on income_key (set (t_income d))" "inj_on balance_key (set (t_balance d))" "inj_on price_key (set (t_prices d))"
    using assms by (simp_all add: db_inv_def rows_inv_def distinct_map)
  show "inj_on inc_FiscalDate (annual_incomes d cid)"
    by (rule inj_onI) (use inj_onD [OF k(1)] in \<open>force simp: annual_incomes_def income_key_def\<close>)
  show "inj_on bal_FiscalDate (annual_balances d cid)"
    by (rule inj_onI) (use inj_onD [OF k(2)] in \<open>force simp: annual_balances_def balance_key_def\<close>)
  show "inj_on dp_Date (closes d cid)"
    by (rule inj_onI) (use inj_onD [OF k(3)] in \<open>force simp: closes_def price_key_def\<close>)
qed

lemma first_row_picked:
  assumes "inj_on key (set xs)"
  shows "picked key (set xs) y \<longleftrightarrow> y = first_row (sort_key (\<lambda>r. - key r) xs)"
proof (cases y)
  case None
  then show ?thesis using first_row_latest(2) [of key xs] by (auto simp: picked_def)
next
  case (Some x)
  then show ?thesis using first_row_unique [OF assms, of x] by (simp add: picked_def eq_commute [of "Some x"])
qed

lemma previous_picked:
  assumes "db_inv d" "is_latest inc_FiscalDate (annual_incomes d cid) i"
  shows "picked inc_FiscalDate {x \<in> annual_incomes d cid. inc_FiscalDate x < inc_FiscalDate i} q \<longleftrightarrow> q = previous_income d cid"
proof -
  have s: "set (annual_income d cid) = annual_incomes d cid" by (rule rows_for_set)
  with assms(2) have ne: "annual_income d cid \<noteq> []" by (auto simp: is_latest_def)
  have "Max (inc_FiscalDate ` set (annual_income d cid)) = inc_FiscalDate i"
    using assms(2) unfolding is_latest_def s [symmetric] by (intro Max_eqI) auto
  then have p: "previous_income d cid =
      first_row (sort_key (\<lambda>r. - inc_FiscalDate r) (filter (\<lambda>r. inc_FiscalDate r < inc_FiscalDate i) (annual_income d cid)))"
    using ne by (auto simp: previous_income_def Let_def split: list.splits)
  have "inj_on inc_FiscalDate (set (filter (\<lambda>r. inc_FiscalDate r < inc_FiscalDate i) (annual_income d cid)))"
    using dates_unique(1) [OF assms(1), of cid] by (auto simp: s intro: inj_on_subset)
  from first_row_picked [OF this, of q] show ?thesis by (simp add: p s)
qed

lemma screener_base_screened:
  assumes "db_inv d"
  shows "screener_base pn d (cid, c) = Some r \<longleftrightarrow> screened pn d cid c r"
proof -
  note u = dates_unique [OF assms, of cid, folded rows_for_set]
  have i: "is_latest inc_FiscalDate (annual_incomes d cid) i \<longleftrightarrow> latest_income d cid = Some i" for i
    using first_row_unique [OF u(1)] by (simp add: latest_income_def rows_for_set)
  have b: "picked bal_FiscalDate (annual_balances d cid) b \<longleftrightarrow> b = latest_balance d cid" for b
    using first_row_picked [OF u(2), of b] unfolding latest_balance_def rows_for_set .
  have p: "picked dp_Date (closes d cid) p \<longleftrightarrow> p = latest_close d cid" for p
    using first_row_picked [OF u(3)] by (simp add: latest_close_def rows_for_set)
  show ?thesis
  proof (cases "latest_income d cid")
    case None
    then show ?thesis by (simp add: screener_base_def screened_def i)
  next
    case (Some j)
    then have q: "picked inc_FiscalDate {x \<in> annual_incomes d cid. inc_FiscalDate x < inc_FiscalDate j} q \<longleftrightarrow> q = previous_income d cid" for q
      using previous_picked [OF assms, of cid j q] i [of j] by simp
    from Some show ?thesis
      by (cases r) (auto simp: screener_base_def screened_def i b p q split: option.splits)
  qed
qed

section \<open>Correctness\<close>

lemma joins_faults [simp]:
  "latest_income (d\<lparr>db_faults := fs\<rparr>) cid = latest_income d cid" "previous_income (d\<lparr>db_faults := fs\<rparr>) cid = previous_income d cid"
  "latest_balance (d\<lparr>db_faults := fs\<rparr>) cid = latest_balance d cid" "latest_close (d\<lparr>db_faults := fs\<rparr>) cid = latest_close d cid"
  by (simp_all add: latest_income_def previous_income_def annual_income_def latest_balance_def latest_close_def)

lemma screener_rows_faults: "screener_rows pg pn f (d\<lparr>db_faults := fs\<rparr>) = screener_rows pg pn f d"
proof -
  have "screener_base pn (d\<lparr>db_faults := fs\<rparr>) = screener_base pn d" by (auto simp: screener_base_def fun_eq_iff split: option.split)
  then show ?thesis by (simp add: screener_rows_def)
qed

text \<open>
  C13. The screener selects exactly what its criteria describe. On sound tables a successful query returns one row for
  every company that has an annual income statement and meets every given criterion, and no other row;
  the ratios come from the latest annual statement, the one before it, the latest annual balance sheet and
  the latest close, a ratio that is undefined is null and meets no criterion, and the rows are ordered by
  symbol without repetition.
\<close>
theorem screener_exact:
  assumes "db_inv d" and "repo_Screener pg pn f d = (Inr rows, d')"
    and "\<And>a b c. collate pg a b \<Longrightarrow> collate pg b c \<Longrightarrow> collate pg a c" and "\<And>a b. collate pg a b \<or> collate pg b a"
  shows "set rows = {screener_result pn r |r cid c. (cid, c) \<in> set (t_companies d) \<and> screened pn d cid c r \<and> meets pn f r} \<and>
    sorted_wrt (collate pg) (map sr_Symbol rows) \<and> distinct (map sr_Symbol rows)"
proof -
  have rows: "rows = screener_rows pg pn f d"
    using assms(2) by (cases rule: query_sql_cases [of "screener_rows pg pn f" d])
      (auto simp: repo_Screener_def screener_rows_faults)
  let ?le = "\<lambda>a b. collate pg (b_symbol a) (b_symbol b)"
  let ?base = "filter (meets pn f) (List.map_filter (screener_base pn d) (t_companies d))"
  have r: "rows = map (screener_result pn) (sort_by ?le ?base)"
    by (simp add: rows screener_rows_def where_meets)
  have m: "x \<in> set (List.map_filter g xs) \<longleftrightarrow> (\<exists>y \<in> set xs. g y = Some x)" for g :: "int \<times> Company \<Rightarrow> 'a base_row option" and x xs
    by (induction xs) (auto simp: List.map_filter_simps split: option.splits)
  have "set rows = {screener_result pn r |r cid c. (cid, c) \<in> set (t_companies d) \<and> screened pn d cid c r \<and> meets pn f r}"
    by (auto simp: r m image_iff simp flip: screener_base_screened [OF assms(1)])
  moreover have "sorted_wrt ?le (sort_by ?le ?base)"
    by (rule sorted_sort_by) (use assms(3,4) in blast)+
  then have "sorted_wrt (collate pg) (map sr_Symbol rows)"
    by (simp add: r sorted_wrt_map screener_result_def)
  moreover have "distinct (map b_symbol ?base)"
  proof -
    have sym: "screener_base pn d row = Some x \<Longrightarrow> b_symbol x = co_Symbol (snd row)" for row x
      by (auto simp: screener_base_def Let_def split: prod.splits option.splits)
    have "distinct (map (co_Symbol \<circ> snd) xs) \<Longrightarrow> distinct (map b_symbol (List.map_filter (screener_base pn d) xs))" for xs
    proof (induction xs)
      case (Cons y ys)
      then show ?case using m [of _ "screener_base pn d" ys] by (force simp: List.map_filter_simps sym split: option.splits)
    qed simp
    then have "distinct (map b_symbol (List.map_filter (screener_base pn d) (t_companies d)))"
      using assms(1) by (simp add: db_inv_def companies_inv_def)
    then show ?thesis by (rule distinct_map_filter)
  qed
  then have "distinct (map sr_Symbol rows)"
    using distinct_sort_by [of b_symbol ?le ?base] by (simp add: r screener_result_def comp_def)
  ultimately show ?thesis by blast
qed

definition rat_numeric :: "rat PgNumeric" where
  "rat_numeric = \<lparr>n_money = fval, n_price = fval, n_arg = fval, n_pos = (\<lambda>x. 0 < x), n_sub = (-), n_div = (/), n_le = (\<le>), n_scan = round64\<rparr>"

definition one_company :: db where
  "one_company = \<lparr>t_companies = [(1, \<lparr>co_Symbol = ''AAPL'', co_Name = ''Apple'', co_Exchange = [], co_Sector = ''TECHNOLOGY'', co_Industry = [],
       co_Currency = ''USD'', co_Description = []\<rparr>)],
     t_prices = [], t_income = [(1, \<lparr>inc_Period = ''annual'', inc_FiscalDate = 0, inc_Revenue = 1, inc_GrossProfit = 0, inc_OperatingIncome = 0,
       inc_NetIncome = 1, inc_DilutedEPS = 1\<rparr>)], t_balance = [], t_cash = [], t_runs = [], t_keys = [],
     seq_companies = 2, seq_keys = 1, db_now = 0, db_faults = []\<rparr>"

theorem screener_exact_witness:
  "\<exists>rows d'. repo_Screener \<lparr>num18_4 = id, num20_2 = id, collate = (\<lambda>a b. True)\<rparr> rat_numeric
      \<lparr>sf_Sector = Some ''TECHNOLOGY'', sf_MinROE = None, sf_MaxPE = None, sf_MinRevenueGrowth = None\<rparr> one_company = (Inr rows, d') \<and>
     length rows = 1 \<and> distinct (map sr_Symbol rows)"
proof -
  let ?pg = "\<lparr>num18_4 = id, num20_2 = id, collate = (\<lambda>a b. True)\<rparr>"
  let ?f = "\<lparr>sf_Sector = Some ''TECHNOLOGY'', sf_MinROE = None, sf_MaxPE = None, sf_MinRevenueGrowth = None\<rparr>"
  have inv: "db_inv one_company"
    by (simp add: db_inv_def companies_inv_def rows_inv_def keys_inv_def one_company_def)
  have "screener_rows ?pg rat_numeric ?f one_company = screener_rows ?pg rat_numeric ?f one_company" ..
  then obtain rows where r: "rows = screener_rows ?pg rat_numeric ?f one_company" by blast
  have q: "repo_Screener ?pg rat_numeric ?f one_company = (Inr rows, one_company)"
    by (simp add: repo_Screener_def query_sql_def next_fault_def r) (simp add: one_company_def)
  have "length rows = 1" unfolding r
    by (simp add: screener_rows_def screener_base_def latest_income_def annual_income_def rows_for_def first_row_def
        screener_where_def sort_by_def List.map_filter_simps one_company_def)
  with screener_exact [OF inv q] q show ?thesis by auto
qed

end
