(* ===== verification/Handler_Laws.thy ===== *)
theory Handler_Laws
  imports Handlers Freshness Screener_SQL
begin

text \<open>
  The HTTP layer on its own: what the two gates in front of the endpoints let through, what the endpoints
  pass on to the service, how errors are mapped, and when a response carries a document.
\<close>

section \<open>The gates\<close>

lemma api_route:
  assumes "map_of Routes path = Some (ms, f)" "path \<noteq> ''/health''"
  shows "ms = [authRequire, rateLimit]"
  using assms by (auto simp: Routes_def split: if_splits)

definition unauthorized :: response where
  "unauthorized = writeError 401 codeUnauthorized ''missing or invalid API key''"

definition flooded :: response where
  "flooded = writeError 429 codeRateLimited ''too many failed auth attempts''"

definition limited :: response where
  "limited = writeError 429 codeRateLimited ''rate limit exceeded''"

text \<open>
  C3. Nothing is served without a key. When authentication is wired and the key does not validate, for whatever reason,
  every route but the health check answers one and the same 401, or 429 when the flood guard of the client's
  address says no; no endpoint runs, the limiter of the keys is not asked, and a guard that cannot be
  reached does not hide the 401.
\<close>
theorem unauthenticated_requests_rejected:
  assumes "h_auth h = Some (env, store)" and "path \<noteq> ''/health''"
    and "Validate env store (c_Header c ''X-API-Key'') w = (Err e, w1)" and "serve_route path pr h c w = Some (r, w2)"
  shows "case h_authGuard h of
      None \<Rightarrow> r = Ok unauthorized \<and> w2 = w1
    | Some guard \<Rightarrow> w2 = snd (guard (''authfail:'' @ c_ClientIP c) w1) \<and>
        r = Ok (if fst (guard (''authfail:'' @ c_ClientIP c) w1) = Inr False then flooded else unauthorized)"
proof -
  obtain ms f where m: "map_of Routes path = Some (ms, f)" and r: "run_chain ms f pr h c w = (r, w2)"
    using assms(4) by (auto simp: serve_route_def)
  have "ms = [authRequire, rateLimit]" by (rule api_route [OF m assms(2)])
  with r assms(1,3) show ?thesis
    by (auto simp: authRequire_def blockedByAuthFloodGuard_def unauthorized_def flooded_def
        split: option.splits prod.splits sum.splits if_splits)
qed

definition blank_request :: gin_Context where
  "blank_request = \<lparr>c_Param = (\<lambda>_. ''AAPL''), c_Query = (\<lambda>_. []), c_Header = (\<lambda>_. []), c_ClientIP = ''::1'', c_keyID = None\<rparr>"

definition world_KeyStore :: "db Store \<Rightarrow> world Store" where
  "world_KeyStore st = \<lparr>CreateAPIKey = (\<lambda>k. on_db (CreateAPIKey st k)), GetAPIKeysByPrefix = (\<lambda>p. on_db (GetAPIKeysByPrefix st p)),
     ListAPIKeys = on_db (ListAPIKeys st), RevokeAPIKey = (\<lambda>i. on_db (RevokeAPIKey st i))\<rparr>"

definition bare_handler :: "world Handler" where
  "bare_handler = handler_New (api_QueryService (repo_QueryStore plain_pg (repo_Screener plain_pg rat_numeric)))
     [\<lparr>opt_Auth = Some (still_Env, world_KeyStore repo_KeyStore), opt_Limiter = None, opt_AuthGuard = None\<rparr>]"

theorem unauthenticated_requests_rejected_witness:
  "serve_route ''/api/v1/companies'' (\<lambda>_. True) bare_handler blank_request blank_world = Some (Ok unauthorized, blank_world)"
proof -
  have v: "Validate still_Env (world_KeyStore repo_KeyStore) (c_Header blank_request ''X-API-Key'') blank_world = (Err ErrInvalidKey, blank_world)"
    by (simp add: Validate_malformed blank_request_def rawKeyRe_def)
  obtain r w2 where s: "serve_route ''/api/v1/companies'' (\<lambda>_. True) bare_handler blank_request blank_world = Some (r, w2)"
    by (cases "serve_route ''/api/v1/companies'' (\<lambda>_. True) bare_handler blank_request blank_world")
      (auto simp: serve_route_def Routes_def split: if_splits)
  have h: "h_auth bare_handler = Some (still_Env, world_KeyStore repo_KeyStore)" "h_authGuard bare_handler = None"
    by (simp_all add: bare_handler_def handler_New_def len_def)
  from unauthenticated_requests_rejected [OF h(1) _ v s] h(2) s show ?thesis by simp
qed

text \<open>
  C19. Every authenticated request is counted against its own key. When the key validates, the limiter is asked once, with
  the bucket of that key; only its refusal stops the request, with 429 and before the endpoint runs, and a
  limiter that cannot be reached lets it pass. The endpoint then runs on the request with the key's id.
\<close>
theorem authenticated_requests_counted:
  assumes "h_auth h = Some (env, store)" and "h_limiter h = Some limiter"
    and "map_of Routes path = Some (ms, endpoint)" and "path \<noteq> ''/health''"
    and "Validate env store (c_Header c ''X-API-Key'') w = (Ok key, w1)"
    and "limiter (''key:'' @ show_int (key_ID key)) w1 = (answer, w2)"
  shows "serve_route path pr h c w = Some (if answer = Inr False then (Ok limited, w2)
    else endpoint pr h (c\<lparr>c_keyID := Some (key_ID key)\<rparr>) w2)"
  using api_route [OF assms(3,4)] assms
  by (auto simp: serve_route_def authRequire_def rateLimit_def limited_def split: sum.splits)

definition lone_key :: APIKey where
  "lone_key = \<lparr>key_ID = 7, key_KeyPrefix = [], key_KeyHash = HashKey (raw_of (\<lambda>_. byte 0)), key_Label = [],
     key_CreatedAt = 0, key_ExpiresAt = None, key_RevokedAt = None\<rparr>"

definition lone_store :: "world Store" where
  "lone_store = \<lparr>CreateAPIKey = (\<lambda>k w. (Inr 1, w)), GetAPIKeysByPrefix = (\<lambda>p w. (Inr [lone_key], w)),
     ListAPIKeys = (\<lambda>w. (Inr [lone_key], w)), RevokeAPIKey = (\<lambda>i w. (Inr (), w))\<rparr>"

definition strict_handler :: "world Handler" where
  "strict_handler = bare_handler\<lparr>h_auth := Some (still_Env, lone_store), h_limiter := Some (\<lambda>k w. (Inr (k \<noteq> ''key:7''), w))\<rparr>"

theorem authenticated_requests_counted_witness:
  "serve_route ''/api/v1/companies'' (\<lambda>_. True) strict_handler (blank_request\<lparr>c_Header := (\<lambda>_. raw_of (\<lambda>_. byte 0))\<rparr>) blank_world =
   Some (Ok limited, blank_world)"
proof -
  let ?c = "blank_request\<lparr>c_Header := (\<lambda>_. raw_of (\<lambda>_. byte 0))\<rparr>"
  have v: "Validate still_Env lone_store (c_Header ?c ''X-API-Key'') blank_world = (Ok lone_key, blank_world)"
    by (simp add: Validate_wf raw_of_wf lone_store_def lone_key_def still_Env_def)
  have h: "h_auth strict_handler = Some (still_Env, lone_store)" "h_limiter strict_handler = Some (\<lambda>k w. (Inr (k \<noteq> ''key:7''), w))"
    by (simp_all add: strict_handler_def)
  have m: "map_of Routes ''/api/v1/companies'' = Some ([authRequire, rateLimit], h_listCompanies)"
    by (simp add: Routes_def)
  have l: "(\<lambda>k w. (Inr (k \<noteq> ''key:7'') :: bool ret, w)) (''key:'' @ show_int (key_ID lone_key)) blank_world = (Inr False, blank_world)"
    by (simp add: lone_key_def) code_simp
  show ?thesis using authenticated_requests_counted [OF h m _ v l] by simp
qed

section \<open>Errors\<close>

text \<open>The mapping of errors of the service, by their sentinels.\<close>

lemma service_error_status:
  "resp_Status (writeServiceError pr err) =
     (if errors_Is err ErrInvalidSymbol then 400 else if errors_Is err ErrNotFound then 404
      else if errors_Is err ErrInsufficientData then 422 else 500)"
  by (simp add: writeServiceError_def writeError_def writeJSON_def)

definition internal :: response where
  "internal = writeError 500 codeInternal ''internal error''"

lemma service_error_internal:
  "resp_Status (writeServiceError pr err) = 500 \<Longrightarrow> writeServiceError pr err = internal"
  by (simp add: writeServiceError_def writeError_def writeJSON_def internal_def split: if_splits)

section \<open>Arguments\<close>

lemma parseLimit_range: "parseLimit v absent = Some n \<Longrightarrow> n = 0 \<and> absent \<or> 1 \<le> n \<and> n \<le> 1000 \<and> \<not> absent"
  by (auto simp: parseLimit_def split: if_splits option.splits)

lemma parsePeriod_range: "parsePeriod v = Some p \<Longrightarrow> p \<in> {''annual'', ''quarterly'', ''all''}"
  by (auto simp: parsePeriod_def split: if_splits)

definition finite_criteria :: "ScreenerFilter \<Rightarrow> bool" where
  "finite_criteria f \<longleftrightarrow> pred_option is_finite (sf_MinROE f) \<and> pred_option is_finite (sf_MaxPE f) \<and>
     pred_option is_finite (sf_MinRevenueGrowth f) \<and> sf_Sector f \<noteq> Some []"

lemma readParams_finite:
  assumes "readParams ps c flt = Inr flt'" "finite_criteria flt"
    and "\<And>p d s m flt. (p, d) \<in> set ps \<Longrightarrow> finite_criteria flt \<Longrightarrow> finite_criteria (d (Fin s m) flt)"
  shows "finite_criteria flt'"
  using assms
proof (induction ps c flt rule: readParams.induct)
  case (2 param dst ps c flt)
  show ?case
  proof (cases "c_Query c param = []")
    case True
    with 2(3) have r: "readParams ps c flt = Inr flt'" by (simp add: Let_def)
    show ?thesis by (rule 2(2) [OF refl _ r 2(4)]) (use True in simp, meson 2(5) list.set_intros(2))
  next
    case False
    with 2(3) obtain s m where p: "ParseFloat (c_Query c param) = Some (Fin s m)" "readParams ps c (dst (Fin s m) flt) = Inr flt'"
      by (auto simp: Let_def split: option.splits float64.splits)
    show ?thesis by (rule 2(1) [OF refl False p(1) refl p(2)]) (meson 2(4,5) list.set_intros)+
  qed
qed simp

text \<open>The answer to a call of the service: its error mapped, or its result rendered.\<close>

definition answered :: "(nat \<Rightarrow> bool) \<Rightarrow> ('a \<Rightarrow> goval) \<Rightarrow> 'a ret \<times> 'w \<Rightarrow> response res \<times> 'w" where
  "answered pr body r = (Ok (case fst r of Inl err \<Rightarrow> writeServiceError pr err | Inr x \<Rightarrow> writeData 200 (body x)), snd r)"

lemma handler_answers:
  "h_listCompanies pr h c w = answered pr companyListJSON (ListCompanies (h_qs h) w)"
  "h_company pr h c w = answered pr companyJSON (GetCompany (h_qs h) (c_Param c ''symbol'') w)"
  "h_priceHistory pr h c w = (case parseLimit (c_Query c ''limit'') (c_Query c ''limit'' = []) of
     None \<Rightarrow> (Ok (writeError 400 codeValidation ''limit must be an integer in [1,1000]''), w)
   | Some n \<Rightarrow> answered pr priceListJSON (GetPriceHistory (h_qs h) (c_Param c ''symbol'') n w))"
  "h_incomeStatements pr h c w = (case parsePeriod (c_Query c ''period'') of None \<Rightarrow> (Ok badPeriod, w)
   | Some p \<Rightarrow> answered pr incomeListJSON (GetIncomeStatements (h_qs h) (c_Param c ''symbol'') p w))"
  "h_balanceSheets pr h c w = (case parsePeriod (c_Query c ''period'') of None \<Rightarrow> (Ok badPeriod, w)
   | Some p \<Rightarrow> answered pr balanceListJSON (GetBalanceSheets (h_qs h) (c_Param c ''symbol'') p w))"
  "h_cashFlows pr h c w = (case parsePeriod (c_Query c ''period'') of None \<Rightarrow> (Ok badPeriod, w)
   | Some p \<Rightarrow> answered pr cashFlowListJSON (GetCashFlows (h_qs h) (c_Param c ''symbol'') p w))"
  by (simp_all add: h_listCompanies_def h_company_def h_priceHistory_def h_incomeStatements_def h_balanceSheets_def h_cashFlows_def
      answered_def split: option.split prod.split sum.split)

lemma screener_answers:
  "(\<exists>m. h_screener pr h c w = (Ok (writeError 400 codeValidation m), w)) \<or>
   (\<exists>flt. finite_criteria flt \<and> h_screener pr h c w = answered pr screenerJSON (Screener (h_qs h) flt w))"
proof -
  let ?flt = "\<lparr>sf_Sector = (if c_Query c ''sector'' \<noteq> [] then Some (c_Query c ''sector'') else None),
    sf_MinROE = None, sf_MaxPE = None, sf_MinRevenueGrowth = None\<rparr>"
  show ?thesis
  proof (cases "readParams screenerParams c ?flt")
    case (Inl m)
    then show ?thesis by (intro disjI1) (simp add: h_screener_def, blast)
  next
    case (Inr flt)
    have "finite_criteria flt"
      by (rule readParams_finite [OF Inr]) (auto simp: finite_criteria_def screenerParams_def)
    with Inr show ?thesis
      by (intro disjI2 exI [of _ flt]) (simp add: h_screener_def answered_def split: prod.split sum.split)
  qed
qed

text \<open>A numeric criterion as the query gives it, and the parameters that are there but are no finite number.\<close>

definition criterion :: "gin_Context \<Rightarrow> string \<Rightarrow> float64 option" where
  "criterion c p = (if c_Query c p = [] then None else ParseFloat (c_Query c p))"

definition not_finite :: "gin_Context \<Rightarrow> string \<Rightarrow> bool" where
  "not_finite c p \<longleftrightarrow> c_Query c p \<noteq> [] \<and> (\<forall>x. ParseFloat (c_Query c p) = Some x \<longrightarrow> \<not> is_finite x)"

lemma readParams_step:
  "readParams ((p, dst) # ps) c flt =
     (if not_finite c p then Inl (p @ '' must be a finite number'')
      else readParams ps c (case criterion c p of None \<Rightarrow> flt | Some x \<Rightarrow> dst x flt))"
  by (auto simp: not_finite_def criterion_def Let_def split: option.split float64.split)

lemma screener_exact_params:
  "h_screener pr h c w =
     (case find (not_finite c) [''min_roe'', ''max_pe'', ''min_revenue_growth''] of
        Some p \<Rightarrow> (Ok (writeError 400 codeValidation (p @ '' must be a finite number'')), w)
      | None \<Rightarrow> answered pr screenerJSON (Screener (h_qs h)
          \<lparr>sf_Sector = (if c_Query c ''sector'' = [] then None else Some (c_Query c ''sector'')),
           sf_MinROE = criterion c ''min_roe'', sf_MaxPE = criterion c ''max_pe'',
           sf_MinRevenueGrowth = criterion c ''min_revenue_growth''\<rparr> w))"
  by (cases "criterion c ''min_roe''"; cases "criterion c ''max_pe''"; cases "criterion c ''min_revenue_growth''")
    (simp_all add: h_screener_def screenerParams_def readParams_step answered_def del: readParams.simps(2) split: prod.split sum.split)

text \<open>
  C26. The endpoints pass on exactly what the query says, and nothing else. Without \<^verbatim>\<open>limit\<close> the price history asks for all rows, with an
  integer from 1 to 1000 for that many; without \<^verbatim>\<open>period\<close> the three statement endpoints ask for the annual
  statements, and with \<^verbatim>\<open>annual\<close>, \<^verbatim>\<open>quarterly\<close> or \<^verbatim>\<open>all\<close> for these; the screener asks for the sector if it is
  not empty and for each of its three bounds, under its own name, with the number the text stands for, if it is given.
  Every other limit or period, and every bound that is not a finite number (the first one in the order of the
  parameters is named), is answered with 400 without touching the service.
\<close>
theorem handlers_check_arguments:
  "(c_Query c ''limit'' = [] \<longrightarrow>
      h_priceHistory pr h c w = answered pr priceListJSON (GetPriceHistory (h_qs h) (c_Param c ''symbol'') 0 w)) \<and>
   (\<forall>n. 1 \<le> n \<and> n \<le> 1000 \<and> (c_Query c ''limit'' = show_int n \<or> Atoi (c_Query c ''limit'') = Some n) \<longrightarrow>
      h_priceHistory pr h c w = answered pr priceListJSON (GetPriceHistory (h_qs h) (c_Param c ''symbol'') n w)) \<and>
   (c_Query c ''limit'' \<noteq> [] \<and> (\<forall>n. Atoi (c_Query c ''limit'') = Some n \<longrightarrow> n < 1 \<or> 1000 < n) \<longrightarrow>
      h_priceHistory pr h c w = (Ok (writeError 400 codeValidation ''limit must be an integer in [1,1000]''), w)) \<and>
   (\<forall>p. (p, c_Query c ''period'') \<in> {(''annual'', []), (''annual'', ''annual''), (''quarterly'', ''quarterly''), (''all'', ''all'')} \<longrightarrow>
      h_incomeStatements pr h c w = answered pr incomeListJSON (GetIncomeStatements (h_qs h) (c_Param c ''symbol'') p w) \<and>
      h_balanceSheets pr h c w = answered pr balanceListJSON (GetBalanceSheets (h_qs h) (c_Param c ''symbol'') p w) \<and>
      h_cashFlows pr h c w = answered pr cashFlowListJSON (GetCashFlows (h_qs h) (c_Param c ''symbol'') p w)) \<and>
   (c_Query c ''period'' \<notin> {[], ''annual'', ''quarterly'', ''all''} \<longrightarrow>
      h_incomeStatements pr h c w = (Ok badPeriod, w) \<and> h_balanceSheets pr h c w = (Ok badPeriod, w) \<and>
      h_cashFlows pr h c w = (Ok badPeriod, w)) \<and>
   h_screener pr h c w =
     (case find (not_finite c) [''min_roe'', ''max_pe'', ''min_revenue_growth''] of
        Some p \<Rightarrow> (Ok (writeError 400 codeValidation (p @ '' must be a finite number'')), w)
      | None \<Rightarrow> answered pr screenerJSON (Screener (h_qs h)
          \<lparr>sf_Sector = (if c_Query c ''sector'' = [] then None else Some (c_Query c ''sector'')),
           sf_MinROE = criterion c ''min_roe'', sf_MaxPE = criterion c ''max_pe'',
           sf_MinRevenueGrowth = criterion c ''min_revenue_growth''\<rparr> w))"
proof (intro conjI)
  have l: "parseLimit (c_Query c ''limit'') (c_Query c ''limit'' = []) = Some n"
    if "1 \<le> n" "n \<le> 1000" "c_Query c ''limit'' = show_int n \<or> Atoi (c_Query c ''limit'') = Some n" for n
  proof -
    have "Atoi (c_Query c ''limit'') = Some n" using that Atoi_show_int [of n] by (auto simp: max_int_def)
    moreover from this have "c_Query c ''limit'' \<noteq> []" by (auto simp: Atoi_def)
    ultimately show ?thesis using that by (simp add: parseLimit_def)
  qed
  show "\<forall>n. 1 \<le> n \<and> n \<le> 1000 \<and> (c_Query c ''limit'' = show_int n \<or> Atoi (c_Query c ''limit'') = Some n) \<longrightarrow>
      h_priceHistory pr h c w = answered pr priceListJSON (GetPriceHistory (h_qs h) (c_Param c ''symbol'') n w)"
  proof (intro allI impI, elim conjE)
    fix n :: int
    assume "1 \<le> n" "n \<le> 1000" "c_Query c ''limit'' = show_int n \<or> Atoi (c_Query c ''limit'') = Some n"
    from l [OF this] show "h_priceHistory pr h c w = answered pr priceListJSON (GetPriceHistory (h_qs h) (c_Param c ''symbol'') n w)"
      unfolding handler_answers by simp
  qed
  show "c_Query c ''limit'' \<noteq> [] \<and> (\<forall>n. Atoi (c_Query c ''limit'') = Some n \<longrightarrow> n < 1 \<or> 1000 < n) \<longrightarrow>
      h_priceHistory pr h c w = (Ok (writeError 400 codeValidation ''limit must be an integer in [1,1000]''), w)"
    unfolding handler_answers by (auto simp: parseLimit_def split: option.split)
qed (unfold handler_answers screener_exact_params, auto simp: parseLimit_def parsePeriod_def)

text \<open>A request with a limit, a period and two bounds; the last one is not a number.\<close>

definition asking :: gin_Context where
  "asking = blank_request\<lparr>c_Query := (\<lambda>_. [])(''limit'' := ''25'', ''period'' := ''quarterly'', ''min_roe'' := ''0.2'',
     ''min_revenue_growth'' := ''high'')\<rparr>"

theorem handlers_check_arguments_witness:
  "h_priceHistory (\<lambda>_. True) bare_handler asking blank_world =
     answered (\<lambda>_. True) priceListJSON (GetPriceHistory (h_qs bare_handler) (c_Param asking ''symbol'') 25 blank_world) \<and>
   h_cashFlows (\<lambda>_. True) bare_handler asking blank_world =
     answered (\<lambda>_. True) cashFlowListJSON (GetCashFlows (h_qs bare_handler) (c_Param asking ''symbol'') ''quarterly'' blank_world) \<and>
   h_screener (\<lambda>_. True) bare_handler asking blank_world =
     (Ok (writeError 400 codeValidation ''min_revenue_growth must be a finite number''), blank_world)"
proof -
  note all = handlers_check_arguments [where pr = "\<lambda>_. True" and h = bare_handler and c = asking and w = blank_world]
  have q: "c_Query asking ''limit'' = ''25''" "c_Query asking ''period'' = ''quarterly''" "c_Query asking ''min_roe'' = ''0.2''"
    "c_Query asking ''max_pe'' = []" "c_Query asking ''min_revenue_growth'' = ''high''" by (simp_all add: asking_def)
  have a: "Atoi ''25'' = Some 25" by code_simp
  have "ParseFloat ''high'' = None" by code_simp
  then have "not_finite asking ''min_revenue_growth''" by (simp add: not_finite_def q(5))
  moreover have "case ParseFloat ''0.2'' of None \<Rightarrow> False | Some x \<Rightarrow> is_finite x" by code_simp
  then have "\<not> not_finite asking ''min_roe''" by (auto simp: not_finite_def q(3) split: option.splits)
  moreover have "\<not> not_finite asking ''max_pe''" by (simp add: not_finite_def q(4))
  ultimately show ?thesis using all q a by auto
qed

end
