(* ===== verification/Responses.thy ===== *)
theory Responses
  imports Handler_Laws
begin

text \<open>
  The documents of the responses: a body that is written is the JSON document of its value, for values whose
  strings are ASCII, and a value with a number that JSON cannot express leaves an empty body under the status
  that was already sent.
\<close>

section \<open>Documents\<close>

text \<open>Values whose strings are ASCII, nested at most \<open>n\<close> deep.\<close>

fun plain_val :: "nat \<Rightarrow> goval \<Rightarrow> bool" where
  "plain_val n (GString s) = ascii s"
| "plain_val n (GSlice xs) = (0 < n \<and> (\<forall>x \<in> set xs. plain_val (n - 1) x))"
| "plain_val n (GStruct fs) = (0 < n \<and> (\<forall>(k, v) \<in> set fs. ascii k \<and> plain_val (n - 1) v))"
| "plain_val n (GMap ms) = (0 < n \<and> (\<forall>(k, v) \<in> set ms. ascii k \<and> plain_val (n - 1) v))"
| "plain_val n _ = True"

lemma json_number_show_nat: "json_number (show_nat n)"
proof (cases "n = 0")
  case True
  moreover have "json_number (show_nat 0)" by code_simp
  ultimately show ?thesis by simp
next
  case False
  then obtain c u where "show_nat n = c # u" "c \<noteq> CHR ''0''" using show_nat_head [of n] by auto
  moreover have "list_all (is_digit 10) (show_nat n)" by (auto simp: list_all_iff show_nat_is_digit)
  ultimately show ?thesis
    using json_number_format_f [of "show_nat n" c u "len (show_nat n)"] by (simp add: format_f_def len_def)
qed

lemma show_int_writable: "writable n (JNum (show_int i))"
proof -
  have d: "list_all number_char (show_nat k)" for k
    using show_nat_is_digit by (auto simp: list_all_iff number_char_def)
  obtain c u where "show_nat (nat (- i)) = c # u" "is_digit 10 c"
    by (metis show_nat_not_Nil list.exhaust list.set_intros(1) show_nat_is_digit)
  then have "take 1 (show_nat (nat (- i))) \<noteq> ''-''" using digit_not_sign by auto
  from json_number_minus [OF json_number_show_nat this] d show ?thesis
    by (auto simp: show_int_def json_number_show_nat number_char_def)
qed

lemma seq_ret_member:
  "seq_ret rs = Inr xs \<Longrightarrow> length xs = length rs \<and> (\<forall>i < length rs. rs ! i = Inr (xs ! i))"
proof (induction rs arbitrary: xs)
  case (Cons r rs)
  from Cons.prems obtain y ys where "r = Inr y" "seq_ret rs = Inr ys" "xs = y # ys" by (auto simp: seq_ret_Cons_Inr)
  with Cons.IH [of ys] show ?case by (auto simp: nth_Cons split: nat.split)
qed simp

lemma fields_writable:
  assumes "seq_ret (map (\<lambda>(k, v). json_of v) ms) = Inr js" "\<forall>(k, v) \<in> set ms. ascii k \<and> plain_val n v"
    and "\<And>k v j. (k, v) \<in> set ms \<Longrightarrow> json_of v = Inr j \<Longrightarrow> plain_val n v \<Longrightarrow> writable n j"
  shows "\<forall>(k, j) \<in> set (zip (map fst ms) js). ascii k \<and> writable n j"
proof -
  from seq_ret_member [OF assms(1)] have l: "length js = length ms" "\<And>i. i < length ms \<Longrightarrow> json_of (snd (ms ! i)) = Inr (js ! i)"
    by (auto simp: case_prod_beta)
  have "ascii (fst (ms ! i)) \<and> writable n (js ! i)" if "i < length ms" for i
    using assms(2,3) l(2) [OF that] nth_mem [OF that] by (metis (mono_tags, lifting) case_prodD prod.collapse)
  with l(1) show ?thesis by (auto simp: in_set_zip)
qed

lemma json_of_writable: "plain_val n v \<Longrightarrow> json_of v = Inr j \<Longrightarrow> writable n j"
proof (induction v arbitrary: n j rule: json_of.induct)
  case (2 i)
  then show ?case using show_int_writable [of n i] by simp
next
  case (3 f)
  then show ?case using json_float_writable [of f _ n] by (auto split: option.splits)
next
  case (5 t)
  then show ?case using rfc3339_ascii [of t] by (auto split: option.splits)
next
  case (6 xs)
  from 6(3) obtain js where js: "seq_ret (map json_of xs) = Inr js" "j = JArr js" by (auto split: sum.splits)
  from seq_ret_member [OF js(1)] have l: "length js = length xs" "\<And>i. i < length xs \<Longrightarrow> json_of (xs ! i) = Inr (js ! i)" by auto
  have "writable (n - 1) (js ! i)" if "i < length xs" for i
    using 6(1) [OF nth_mem [OF that] _ l(2) [OF that], of "n - 1"] 6(2) nth_mem [OF that] by auto
  with l(1) 6(2) js(2) show ?case by (auto simp: in_set_conv_nth)
next
  case (7 fs)
  from 7(3) obtain js where js: "seq_ret (map (\<lambda>(k, v). json_of v) fs) = Inr js" "j = JObj (zip (map fst fs) js)"
    by (auto split: sum.splits)
  have "\<forall>(k, j) \<in> set (zip (map fst fs) js). ascii k \<and> writable (n - 1) j"
    by (rule fields_writable [OF js(1)]) (use 7 in auto)
  with 7(2) js(2) show ?case by auto
next
  case (8 ms)
  from 8(3) obtain js where js: "seq_ret (map (\<lambda>(k, v). json_of v) ms) = Inr js" "j = JObj (sort_key fst (zip (map fst ms) js))"
    by (auto split: sum.splits)
  have "\<forall>(k, j) \<in> set (zip (map fst ms) js). ascii k \<and> writable (n - 1) j"
    by (rule fields_writable [OF js(1)]) (use 8 in auto)
  with 8(2) js(2) show ?case by auto
qed auto

lemma parse_line: "writable 10000 j \<Longrightarrow> parse_json (print_json j @ [byte 10]) = Some j"
proof -
  assume w: "writable 10000 j"
  have "stops [byte 10]" by code_simp
  moreover have "lex_json [byte 10] = Some []" by (simp add: lex_json.simps is_ws_def)
  ultimately show ?thesis
    using lex_print [OF w, of "[byte 10]"] parse_toks [of "[]" j "[]"] w by (simp add: parse_json_def)
qed

text \<open>
  C25. A response carries the document of its value or nothing. When the strings of the value are ASCII and it nests at
  most 10000 levels, the body is the JSON text of that value, which parses back to it; when a number in it is infinite or
  not a number, the body is empty although the status has been sent.
\<close>
theorem response_document:
  assumes "plain_val 10000 v"
  shows "case json_of v of
      Inr j \<Rightarrow> parse_json (resp_Body (writeJSON status v)) = Some j
    | Inl e \<Rightarrow> resp_Body (writeJSON status v) = [] \<and> resp_Status (writeJSON status v) = status"
  using json_of_writable [OF assms] parse_line
  by (auto simp: writeJSON_def json_Marshal_def split: sum.splits)

theorem response_document_witness:
  "parse_json (resp_Body (writeJSON 200 (GMap [(''data'', GString ''ok'')]))) = Some (JObj [(''data'', JStr ''ok'')])"
  using response_document [of "GMap [(''data'', GString ''ok'')]" 200] by (simp add: ascii_def)

end
