(* ===== verification/Api.thy ===== *)
theory Api
  imports Responses
begin

text \<open>
  The API process as \<^verbatim>\<open>cmd/api/main.go\<close> wires it: the handler over the cached query service, key authentication over
  the repository and two limiters over Redis whose limits come from the environment. Every request it can
  receive is answered with a known status, leaves the tables alone and keeps the cache coherent; the
  endpoints of computed results answer what the tables specify.
\<close>

section \<open>Wiring\<close>

definition envInt :: "(string \<Rightarrow> string) \<Rightarrow> string \<Rightarrow> int \<Rightarrow> int" where
  "envInt getenv key def =
     (let v = getenv key
      in if v = [] then def else case Atoi v of None \<Rightarrow> def | Some n \<Rightarrow> n)"

text \<open>\<^verbatim>\<open>time.Duration(n) * time.Second\<close>, which wraps.\<close>

definition seconds :: "int \<Rightarrow> int" where
  "seconds n = wrap64 (n * 10 ^ 9)"

definition api_Handler :: "(string \<Rightarrow> string) \<Rightarrow> world Env \<Rightarrow> Pg \<Rightarrow> 'n PgNumeric \<Rightarrow> world Handler" where
  "api_Handler getenv env pg pn =
     (let repo = repo_QueryStore pg (repo_Screener pg pn);
          qs = api_QueryService repo;
          limiter = rate_NewRedis world_client (envInt getenv ''RATE_LIMIT_LIMIT'' 100)
            (seconds (envInt getenv ''RATE_LIMIT_WINDOW_SECONDS'' 60));
          authGuard = rate_NewRedis world_client (envInt getenv ''AUTH_GUARD_IP_LIMIT'' 500)
            (seconds (envInt getenv ''AUTH_GUARD_IP_WINDOW_SECONDS'' 60))
      in handler_New qs [\<lparr>opt_Auth = Some (env, world_KeyStore repo_KeyStore), opt_Limiter = Some (Allow limiter),
           opt_AuthGuard = Some (Allow authGuard)\<rparr>])"

section \<open>What a call keeps\<close>

definition kept :: "world \<Rightarrow> world \<Rightarrow> bool" where
  "kept w w' \<longleftrightarrow> db_view (w_db w') = db_view (w_db w) \<and> (cache_coherent w \<longrightarrow> cache_coherent w')"

lemma kept_refl [simp]: "kept w w"
  by (simp add: kept_def)

lemma kept_trans: "kept w w1 \<Longrightarrow> kept w1 w2 \<Longrightarrow> kept w w2"
  by (simp add: kept_def)

lemma kept_on_db:
  assumes "\<And>d. db_view (snd (f d)) = db_view d"
  shows "kept w (snd (on_db f w))"
proof -
  let ?w' = "snd (on_db f w)"
  have d: "db_view (w_db ?w') = db_view (w_db w)" and r: "w_redis ?w' = w_redis w"
    using assms [of "w_db w"] by (simp_all add: on_db_def case_prod_beta)
  have "cached ?w' k = cached w k" for k by (simp add: cached_def r)
  with d cache_coherent_sub [of w ?w'] show ?thesis by (auto simp: kept_def)
qed

lemma query_view:
  "query_sql q d = (r, d') \<Longrightarrow> db_view d' = db_view d"
  "query_row q d = (r', d') \<Longrightarrow> db_view d' = db_view d"
proof -
  show q: "query_sql q d = (r, d') \<Longrightarrow> db_view d' = db_view d" for r
    by (cases rule: query_sql_cases [of q d]) (auto simp: db_view_def)
  show "query_row q d = (r', d') \<Longrightarrow> db_view d' = db_view d"
    by (auto simp: query_row_def dest: q split: prod.splits sum.splits option.splits list.splits)
qed

lemma reads_view:
  "db_view (snd (repo_GetCompany s d)) = db_view d" "db_view (snd (repo_ListCompanies pg d)) = db_view d"
  "db_view (snd (repo_GetPriceHistory s n d)) = db_view d" "db_view (snd (queryStatements per date table s p d)) = db_view d"
  "db_view (snd (repo_Screener pg pn f d)) = db_view d" "db_view (snd (repo_GetAPIKeysByPrefix px d)) = db_view d"
  by (auto simp: repo_GetCompany_def repo_ListCompanies_def repo_GetPriceHistory_def queryStatements_def repo_Screener_def
      repo_GetAPIKeysByPrefix_def Let_def dest: query_view split: prod.splits sum.splits option.splits)

lemma not_found_snd [simp]: "snd (not_found r) = snd r"
  by (auto simp: not_found_def split: prod.splits sum.splits)

abbreviation api_qs :: "Pg \<Rightarrow> 'n PgNumeric \<Rightarrow> world QueryService" where
  "api_qs pg pn \<equiv> api_QueryService (repo_QueryStore pg (repo_Screener pg pn))"

lemma service_kept:
  "kept w (snd (ListCompanies (api_qs pg pn) w))" "kept w (snd (GetCompany (api_qs pg pn) symbol w))"
  "kept w (snd (GetPriceHistory (api_qs pg pn) symbol n w))" "kept w (snd (GetIncomeStatements (api_qs pg pn) symbol p w))"
  "kept w (snd (GetBalanceSheets (api_qs pg pn) symbol p w))" "kept w (snd (GetCashFlows (api_qs pg pn) symbol p w))"
  "kept w (snd (Screener (api_qs pg pn) flt w))"
proof -
  have k: "kept w (snd (on_db f w))" if "\<And>d. db_view (snd (f d)) = db_view d" for f :: "(db, 'b) call" and w
    using that by (rule kept_on_db)
  note defs = world_QueryStore_def repo_QueryStore_def repo_GetIncomeStatements_def repo_GetBalanceSheets_def repo_GetCashFlows_def reads_view
  show "kept w (snd (ListCompanies (api_qs pg pn) w))" by (simp add: ListCompanies_def defs k)
  show "kept w (snd (GetCompany (api_qs pg pn) symbol w))" by (simp add: GetCompany_def defs k split: sum.split)
  show "kept w (snd (GetPriceHistory (api_qs pg pn) symbol n w))" by (simp add: GetPriceHistory_def defs k split: sum.split)
  show "kept w (snd (GetIncomeStatements (api_qs pg pn) symbol p w))" by (simp add: GetIncomeStatements_def defs k split: sum.split)
  show "kept w (snd (GetBalanceSheets (api_qs pg pn) symbol p w))" by (simp add: GetBalanceSheets_def defs k split: sum.split)
  show "kept w (snd (GetCashFlows (api_qs pg pn) symbol p w))" by (simp add: GetCashFlows_def defs k split: sum.split)
  have "snd (Screener (api_qs pg pn) flt w) = snd (on_db (repo_Screener pg pn flt) w)"
    by (auto simp: Screener_def world_QueryStore_def repo_QueryStore_def split: prod.splits sum.splits)
  then show "kept w (snd (Screener (api_qs pg pn) flt w))" by (simp add: kept_on_db reads_view)
qed

lemma computed_kept:
  assumes "cache_coherent w"
  shows "kept w (snd (GetAnalytics analytics_codec (api_qs pg pn) symbol w)) \<and> fst (GetAnalytics analytics_codec (api_qs pg pn) symbol w) \<noteq> Panic"
    and "kept w (snd (GetTechnical technical_codec (api_qs pg pn) symbol w)) \<and> fst (GetTechnical technical_codec (api_qs pg pn) symbol w) \<noteq> Panic"
    and "kept w (snd (Compare analytics_codec (api_qs pg pn) raw mx w)) \<and> fst (Compare analytics_codec (api_qs pg pn) raw mx w) \<noteq> Panic"
proof -
  show "kept w (snd (GetAnalytics analytics_codec (api_qs pg pn) symbol w)) \<and> fst (GetAnalytics analytics_codec (api_qs pg pn) symbol w) \<noteq> Panic"
  proof (cases "normalizeSymbol symbol")
    case (Inr n)
    from analytics_refines [OF assms this surjective_pairing, of pg "repo_Screener pg pn"] show ?thesis by (auto simp: kept_def agrees_def)
  qed (simp add: GetAnalytics_def)
  show "kept w (snd (GetTechnical technical_codec (api_qs pg pn) symbol w)) \<and> fst (GetTechnical technical_codec (api_qs pg pn) symbol w) \<noteq> Panic"
  proof (cases "normalizeSymbol symbol")
    case (Inr n)
    from technical_refines [OF assms this surjective_pairing, of pg "repo_Screener pg pn"] show ?thesis by (auto simp: kept_def agrees_def)
  qed (simp add: GetTechnical_def)
  show "kept w (snd (Compare analytics_codec (api_qs pg pn) raw mx w)) \<and> fst (Compare analytics_codec (api_qs pg pn) raw mx w) \<noteq> Panic"
    using Compare_refines [OF assms, where pg = pg and scr = "repo_Screener pg pn" and raw = raw and mx = mx]
    by (auto simp: kept_def split: prod.splits outcome.splits)
qed

lemma limiter_kept: "kept w (snd (Allow (rate_NewRedis world_client lmt window) key w))"
  using cache_coherent_sub [of w "snd (Allow (rate_NewRedis world_client lmt window) key w)"] limit_cached [of _ lmt window key w]
  by (auto simp: kept_def limit_cached(2) [of "[]"])

lemma Validate_kept:
  assumes "\<And>w. snd (Now env w) = w"
  shows "kept w (snd (Validate env (world_KeyStore repo_KeyStore) raw w)) \<and> fst (Validate env (world_KeyStore repo_KeyStore) raw w) \<noteq> Panic"
proof (cases "rawKeyRe raw")
  case True
  let ?r = "on_db (repo_GetAPIKeysByPrefix (take 8 (drop 4 raw))) w"
  have "snd (Validate env (world_KeyStore repo_KeyStore) raw w) = snd ?r"
    using True assms by (simp add: Validate_wf world_KeyStore_def repo_KeyStore_def case_prod_beta split: sum.split)
  moreover have "kept w (snd ?r)" by (rule kept_on_db) (rule reads_view)
  moreover have "fst (Validate env (world_KeyStore repo_KeyStore) raw w) \<noteq> Panic"
    using True by (auto simp: Validate_wf validate_candidates_eq split: prod.splits sum.splits option.splits)
  ultimately show ?thesis by simp
qed (simp add: Validate_malformed)

section \<open>Every request\<close>

definition known :: "response \<Rightarrow> bool" where
  "known resp \<longleftrightarrow> resp_Status resp \<in> {200, 400, 401, 404, 422, 429, 500} \<and> resp_ContentType resp = ''application/json''"

lemma known_writes [simp]:
  "known (writeData 200 v)" "known (writeError 400 code m)" "known (writeError 401 code m)" "known (writeError 429 code m)"
  "known (writeServiceError pr err)" "known badPeriod"
  by (simp_all add: known_def writeData_def writeError_def writeJSON_def writeServiceError_def badPeriod_def)

definition good :: "world \<Rightarrow> response res \<times> world \<Rightarrow> bool" where
  "good w r \<longleftrightarrow> kept w (snd r) \<and> (\<exists>resp. fst r = Ok resp \<and> known resp)"

lemma good_answered: "kept w (snd r) \<Longrightarrow> good w (answered pr body r)"
  by (auto simp: good_def answered_def split: sum.split)

lemma good_here [simp]: "known resp \<Longrightarrow> good w (Ok resp, w)"
  by (simp add: good_def)

lemma good_trans: "kept w w1 \<Longrightarrow> good w1 r \<Longrightarrow> good w r"
  by (auto simp: good_def intro: kept_trans)

lemma endpoint_good:
  assumes h: "h_qs h = api_qs pg pn" and w: "cache_coherent w" and f: "(path, ms, f) \<in> set Routes"
  shows "good w (f pr h c w)"
proof -
  note computed = computed_kept [OF w, of pg pn]
  have "good w (h_analytics pr h c w)" "good w (h_technical pr h c w)" "good w (h_compare pr h c w)"
    using computed(1) [of "c_Param c ''symbol''"] computed(2) [of "c_Param c ''symbol''"]
      computed(3) [of "Split (CHR '','') (c_Query c ''symbols'')" maxCompareSymbols]
    by (auto simp: h_analytics_def h_technical_def h_compare_def h good_def Let_def split: prod.splits outcome.splits)
  moreover have "good w (h_listCompanies pr h c w)" "good w (h_company pr h c w)" "good w (h_priceHistory pr h c w)"
    "good w (h_incomeStatements pr h c w)" "good w (h_balanceSheets pr h c w)" "good w (h_cashFlows pr h c w)"
    by (auto simp: handler_answers h intro!: good_answered service_kept split: option.split)
  moreover have "good w (h_screener pr h c w)"
    using screener_answers [of pr h c w]
  proof (elim disjE exE conjE)
    fix flt assume "h_screener pr h c w = answered pr screenerJSON (Screener (h_qs h) flt w)"
    then show ?thesis by (simp add: h good_answered service_kept)
  qed auto
  moreover have "good w (h_health pr h c w)" by (simp add: h_health_def)
  ultimately show ?thesis using f by (auto simp: Routes_def)
qed

lemma api_Handler_fields:
  "h_qs (api_Handler getenv env pg pn) = api_qs pg pn"
  "h_auth (api_Handler getenv env pg pn) = Some (env, world_KeyStore repo_KeyStore)"
  "\<exists>lmt window. h_limiter (api_Handler getenv env pg pn) = Some (Allow (rate_NewRedis world_client lmt window))"
  "\<exists>lmt window. h_authGuard (api_Handler getenv env pg pn) = Some (Allow (rate_NewRedis world_client lmt window))"
  by (auto simp: api_Handler_def handler_New_def len_def Let_def)

text \<open>A middleware step that does not crash and keeps the world, with a known response when it aborts.\<close>

definition good_step :: "world \<Rightarrow> step \<times> world \<Rightarrow> bool" where
  "good_step w r \<longleftrightarrow> kept w (snd r) \<and> (case fst r of Next c \<Rightarrow> True | Abort resp \<Rightarrow> known resp | Crash \<Rightarrow> False)"

lemma gates_good:
  assumes now: "\<And>w. snd (Now env w) = w"
  shows "good_step w (authRequire (api_Handler getenv env pg pn) c w)"
    and "good_step w (rateLimit (api_Handler getenv env pg pn) c w)"
proof -
  let ?h = "api_Handler getenv env pg pn"
  obtain g where g: "h_authGuard ?h = Some g" "\<And>k w. kept w (snd (g k w))"
    using api_Handler_fields(4) [of getenv env pg pn] limiter_kept by blast
  obtain l where l: "h_limiter ?h = Some l" "\<And>k w. kept w (snd (l k w))"
    using api_Handler_fields(3) [of getenv env pg pn] limiter_kept by blast
  have b: "kept w (snd (blockedByAuthFloodGuard ?h c w)) \<and> (\<forall>resp. fst (blockedByAuthFloodGuard ?h c w) = Some resp \<longrightarrow> known resp)" for w
    using g(2) [of w "''authfail:'' @ c_ClientIP c"] by (auto simp: blockedByAuthFloodGuard_def g(1) split: prod.splits sum.splits)
  let ?v = "Validate env (world_KeyStore repo_KeyStore) (c_Header c ''X-API-Key'') w"
  have v: "kept w (snd ?v)" "fst ?v \<noteq> Panic" using Validate_kept [OF now] by auto
  show "good_step w (authRequire ?h c w)"
  proof (cases "fst ?v")
    case (Ok key)
    with v(1) show ?thesis by (auto simp: good_step_def authRequire_def api_Handler_fields(2) split: prod.splits)
  next
    case (Err e)
    from b [of "snd ?v"] kept_trans [OF v(1)] Err show ?thesis
      by (auto simp: good_step_def authRequire_def api_Handler_fields(2) split: prod.splits option.splits)
  qed (use v(2) in simp)
  show "good_step w (rateLimit ?h c w)"
    using l(2) [of w "case c_keyID c of Some i \<Rightarrow> ''key:'' @ show_int i | None \<Rightarrow> ''ip:'' @ c_ClientIP c"]
    by (auto simp: good_step_def rateLimit_def l(1) Let_def split: prod.splits sum.splits option.splits)
qed

lemma chain_good:
  assumes "\<forall>m \<in> set ms. \<forall>c w. good_step w (m h c w)" "\<And>c w. cache_coherent w \<Longrightarrow> good w (f pr h c w)" "cache_coherent w"
  shows "good w (run_chain ms f pr h c w)"
  using assms(1,3)
proof (induction ms arbitrary: c w)
  case (Cons m ms)
  obtain s w1 where s: "m h c w = (s, w1)" by force
  with Cons.prems have k: "kept w w1" "case s of Next c \<Rightarrow> True | Abort resp \<Rightarrow> known resp | Crash \<Rightarrow> False"
    by (auto simp: good_step_def dest!: spec [of _ c] spec [of _ w])
  show ?case
  proof (cases s)
    case (Next c1)
    from k(1) Cons.prems(2) have "cache_coherent w1" by (simp add: kept_def)
    with Cons.IH [of w1 c1] Cons.prems(1) have "good w1 (run_chain ms f pr h c1 w1)" by simp
    with k(1) s Next show ?thesis by (simp add: good_trans)
  qed (use k s in \<open>auto simp: good_def\<close>)
qed (use assms(2) in simp)

text \<open>
  C1. Every request is safe. Whatever a client sends to whatever route of the wired API, and whatever statements or commands
  fail while it is served: the handler does not panic, the response is JSON with one of seven statuses, the
  tables are as before, and a cache that agreed with them still does.
\<close>
theorem every_request_is_safe:
  assumes "serve_route path pr (api_Handler getenv env pg pn) c w = Some (r, w')"
    and "cache_coherent w" and "\<And>w. snd (Now env w) = w"
  shows "\<exists>resp. r = Ok resp \<and> resp_Status resp \<in> {200, 400, 401, 404, 422, 429, 500} \<and>
    resp_ContentType resp = ''application/json'' \<and> db_view (w_db w') = db_view (w_db w) \<and> cache_coherent w'"
proof -
  let ?h = "api_Handler getenv env pg pn"
  obtain ms f where m: "map_of Routes path = Some (ms, f)" and r: "run_chain ms f pr ?h c w = (r, w')"
    using assms(1) by (auto simp: serve_route_def)
  have f: "(path, ms, f) \<in> set Routes" using m by (rule map_of_SomeD)
  have "m = authRequire \<or> m = rateLimit" if "m \<in> set ms" for m using f that by (auto simp: Routes_def)
  then have "\<forall>m \<in> set ms. \<forall>c w. good_step w (m ?h c w)" using gates_good [OF assms(3)] by metis
  then have "good w (run_chain ms f pr ?h c w)"
    by (rule chain_good) (rule endpoint_good [OF api_Handler_fields(1) _ f], assumption, rule assms(2))
  with r assms(2) show ?thesis by (auto simp: good_def known_def kept_def)
qed

theorem every_request_is_safe_witness:
  "\<exists>resp. fst (the (serve_route ''/api/v1/companies'' (\<lambda>_. True) (api_Handler (\<lambda>_. []) still_Env plain_pg rat_numeric) blank_request blank_world)) = Ok resp
     \<and> resp_Status resp \<in> {200, 400, 401, 404, 422, 429, 500}"
proof -
  let ?h = "api_Handler (\<lambda>_. []) still_Env plain_pg rat_numeric"
  obtain r w2 where s: "serve_route ''/api/v1/companies'' (\<lambda>_. True) ?h blank_request blank_world = Some (r, w2)"
    by (cases "serve_route ''/api/v1/companies'' (\<lambda>_. True) ?h blank_request blank_world")
      (auto simp: serve_route_def Routes_def split: if_splits)
  from every_request_is_safe [OF s blank_coherent] s show ?thesis by (auto simp: still_Env_def)
qed

section \<open>The endpoints of computed results\<close>

text \<open>How a response stands to what the tables specify.\<close>

definition reports :: "('a \<Rightarrow> goval) \<Rightarrow> response \<Rightarrow> 'a res \<Rightarrow> bool" where
  "reports body resp spec \<longleftrightarrow>
     (case spec of
        Ok x \<Rightarrow> resp = writeData 200 (body x)
      | Err e \<Rightarrow> (e = ErrNotFound \<and> resp_Status resp = 404) \<or> (e = ErrInsufficientData \<and> resp_Status resp = 422)
      | Panic \<Rightarrow> False)"

lemma reports_service:
  assumes "agrees r spec"
  shows "case r of Ok x \<Rightarrow> reports body (writeData 200 (body x)) spec
    | Err e \<Rightarrow> writeServiceError pr e = internal \<or> reports body (writeServiceError pr e) spec | Panic \<Rightarrow> False"
  using assms service_error_status [of pr] service_error_internal [of pr]
  by (auto simp: agrees_def reports_def split: outcome.splits)

text \<open>A response with the document of a result that was in the cache under the key \<open>k\<close> when the request came in.\<close>

definition from_cache :: "'a Codec \<Rightarrow> ('a \<Rightarrow> goval) \<Rightarrow> string \<Rightarrow> world \<Rightarrow> response \<Rightarrow> bool" where
  "from_cache json body k w resp \<longleftrightarrow> (\<exists>d x. cached w k = Some d \<and> Unmarshal json d = Inr x \<and> resp = writeData 200 (body x))"

lemma coherent_from_cache:
  assumes "cache_coherent w"
  shows "from_cache analytics_codec analyticsJSON (''analytics:'' @ nsym) w resp \<Longrightarrow> reports analyticsJSON resp (db_analytics (w_db w) nsym)"
    and "from_cache technical_codec technicalJSON (''technical:'' @ nsym) w resp \<Longrightarrow> reports technicalJSON resp (db_technical (w_db w) nsym)"
  using assms unfolding from_cache_def cache_coherent_def reports_def by fastforce+

text \<open>What the two handlers answer: from the cache, or a report of the tables, or the opaque 500 for an unexplained error.\<close>

lemma computed_answers:
  assumes "normalizeSymbol (c_Param c ''symbol'') = Inr nsym"
  shows "\<exists>resp. fst (h_analytics pr (api_Handler getenv env pg pn) c w) = Ok resp \<and>
      (from_cache analytics_codec analyticsJSON (''analytics:'' @ nsym) w resp \<or> reports analyticsJSON resp (db_analytics (w_db w) nsym) \<or>
       resp = internal \<and> \<not> explained (fst (GetAnalytics analytics_codec (api_qs pg pn) (c_Param c ''symbol'') w)))"
    and "\<exists>resp. fst (h_technical pr (api_Handler getenv env pg pn) c w) = Ok resp \<and>
      (from_cache technical_codec technicalJSON (''technical:'' @ nsym) w resp \<or> reports technicalJSON resp (db_technical (w_db w) nsym) \<or>
       resp = internal \<and> \<not> explained (fst (GetTechnical technical_codec (api_qs pg pn) (c_Param c ''symbol'') w)))"
proof -
  have some: "writeServiceError pr e \<noteq> internal" if "errors_Is e ErrNotFound \<or> errors_Is e ErrInsufficientData" for e
    using that service_error_status [of pr e] by (auto simp: internal_def writeError_def writeJSON_def split: if_splits)
  obtain ra wa where a: "GetAnalytics analytics_codec (api_qs pg pn) (c_Param c ''symbol'') w = (ra, wa)" by force
  from analytics_sources [OF assms a] show "\<exists>resp. fst (h_analytics pr (api_Handler getenv env pg pn) c w) = Ok resp \<and>
      (from_cache analytics_codec analyticsJSON (''analytics:'' @ nsym) w resp \<or> reports analyticsJSON resp (db_analytics (w_db w) nsym) \<or>
       resp = internal \<and> \<not> explained (fst (GetAnalytics analytics_codec (api_qs pg pn) (c_Param c ''symbol'') w)))"
  proof
    assume "agrees ra (db_analytics (w_db w) nsym)"
    from reports_service [OF this, of analyticsJSON pr] some show ?thesis
      by (auto simp: h_analytics_def api_Handler_fields a explained_def split: outcome.splits)
  qed (auto simp: h_analytics_def api_Handler_fields a from_cache_def)
  obtain rt wt where t: "GetTechnical technical_codec (api_qs pg pn) (c_Param c ''symbol'') w = (rt, wt)" by force
  from technical_sources [OF assms t] show "\<exists>resp. fst (h_technical pr (api_Handler getenv env pg pn) c w) = Ok resp \<and>
      (from_cache technical_codec technicalJSON (''technical:'' @ nsym) w resp \<or> reports technicalJSON resp (db_technical (w_db w) nsym) \<or>
       resp = internal \<and> \<not> explained (fst (GetTechnical technical_codec (api_qs pg pn) (c_Param c ''symbol'') w)))"
  proof
    assume "agrees rt (db_technical (w_db w) nsym)"
    from reports_service [OF this, of technicalJSON pr] some show ?thesis
      by (auto simp: h_technical_def api_Handler_fields t explained_def split: outcome.splits)
  qed (auto simp: h_technical_def api_Handler_fields t from_cache_def)
qed

text \<open>
  C2. The endpoints of computed results report the tables or the cache. On the wired API, for a valid symbol, in any state of the
  cache and whatever statements and commands fail: \<^verbatim>\<open>/analytics\<close> and \<^verbatim>\<open>/technical\<close> answer with the document of
  a result cached for that very symbol, or they report the tables: 200 with the document of exactly the result the
  tables specify, 404 only when the company is not there, 422 only when its rows are not enough; any other
  failure is the one opaque 500. If the cache is coherent, that is, if nobody has ingested since its entries were
  written, an answer other than that 500 always reports the tables.
\<close>
theorem computed_responses_refine:
  assumes "normalizeSymbol (c_Param c ''symbol'') = Inr nsym"
  shows "(\<exists>resp. fst (h_analytics pr (api_Handler getenv env pg pn) c w) = Ok resp \<and>
      (from_cache analytics_codec analyticsJSON (''analytics:'' @ nsym) w resp \<or> reports analyticsJSON resp (db_analytics (w_db w) nsym) \<or>
       resp = internal) \<and>
      (cache_coherent w \<longrightarrow> reports analyticsJSON resp (db_analytics (w_db w) nsym) \<or> resp = internal)) \<and>
    (\<exists>resp. fst (h_technical pr (api_Handler getenv env pg pn) c w) = Ok resp \<and>
      (from_cache technical_codec technicalJSON (''technical:'' @ nsym) w resp \<or> reports technicalJSON resp (db_technical (w_db w) nsym) \<or>
       resp = internal) \<and>
      (cache_coherent w \<longrightarrow> reports technicalJSON resp (db_technical (w_db w) nsym) \<or> resp = internal))"
  using computed_answers [OF assms, where pr = pr and getenv = getenv and env = env and pg = pg and pn = pn and w = w] coherent_from_cache [of w nsym]
  by blast

theorem computed_responses_refine_witness:
  "\<exists>resp. fst (h_analytics (\<lambda>_. True) (api_Handler (\<lambda>_. []) still_Env plain_pg rat_numeric) blank_request blank_world) = Ok resp \<and>
     resp_Status resp \<in> {404, 500}"
proof -
  have n: "normalizeSymbol (c_Param blank_request ''symbol'') = Inr ''AAPL''"
    unfolding blank_request_def gin_Context.simps by (rule normalizeSymbol_fixed) code_simp
  have "db_analytics (w_db blank_world) ''AAPL'' = Err ErrNotFound"
    by (simp add: db_analytics_def analytics_spec_def view_company_def company_rows_def blank_world_def blank_db_def)
  with computed_responses_refine [OF n, of "\<lambda>_. True" "\<lambda>_. []" still_Env plain_pg rat_numeric blank_world] blank_coherent show ?thesis
    by (auto simp: reports_def internal_def writeError_def writeJSON_def ErrNotFound_def ErrInsufficientData_def)
qed

section \<open>Availability\<close>

text \<open>
  C5. The endpoints of computed results stay available without Redis. As long as the database answers, and whatever
  happens to every command sent to Redis, a valid symbol gets a proper answer and never a 500: the document of a
  result that was cached for the symbol, or a report of the tables, that is, the document of the specified result
  whenever there is one and otherwise 404 or 422 as the tables say. Without an entry cached for the symbol, and
  always if the cache is coherent, the answer reports the tables.
\<close>
theorem computed_responses_available:
  assumes "normalizeSymbol (c_Param c ''symbol'') = Inr nsym" and "db_faults (w_db w) = []"
  shows "(\<exists>resp. fst (h_analytics pr (api_Handler getenv env pg pn) c w) = Ok resp \<and>
      (from_cache analytics_codec analyticsJSON (''analytics:'' @ nsym) w resp \<or> reports analyticsJSON resp (db_analytics (w_db w) nsym)) \<and>
      (cached w (''analytics:'' @ nsym) = None \<or> cache_coherent w \<longrightarrow> reports analyticsJSON resp (db_analytics (w_db w) nsym))) \<and>
    (\<exists>resp. fst (h_technical pr (api_Handler getenv env pg pn) c w) = Ok resp \<and>
      (from_cache technical_codec technicalJSON (''technical:'' @ nsym) w resp \<or> reports technicalJSON resp (db_technical (w_db w) nsym)) \<and>
      (cached w (''technical:'' @ nsym) = None \<or> cache_coherent w \<longrightarrow> reports technicalJSON resp (db_technical (w_db w) nsym)))"
proof -
  have "explained (fst (read_through analytics_codec (Some api_cache) (''analytics:'' @ nsym) (analytics_read (api_qs pg pn) nsym) w))"
    by (rule read_through_explained [OF _ assms(2)]) (rule reads_explained(1) [OF api_service(1)])
  then have a: "explained (fst (GetAnalytics analytics_codec (api_qs pg pn) (c_Param c ''symbol'') w))"
    using assms(1) by (simp add: GetAnalytics_def)
  have "explained (fst (read_through technical_codec (Some api_cache) (''technical:'' @ nsym) (technical_read (api_qs pg pn) nsym) w))"
    by (rule read_through_explained [OF _ assms(2)]) (rule reads_explained(2) [OF api_service(1)])
  then have t: "explained (fst (GetTechnical technical_codec (api_qs pg pn) (c_Param c ''symbol'') w))"
    using assms(1) by (simp add: GetTechnical_def)
  have none: "from_cache json body k w resp \<Longrightarrow> cached w k \<noteq> None" for json :: "'x Codec" and body k resp
    by (auto simp: from_cache_def)
  show ?thesis
    using computed_answers(1) [OF assms(1), where pr = pr and getenv = getenv and env = env and pg = pg and pn = pn and w = w]
      computed_answers(2) [OF assms(1), where pr = pr and getenv = getenv and env = env and pg = pg and pn = pn and w = w]
      coherent_from_cache [of w nsym] a t none [of analytics_codec] none [of technical_codec] by blast
qed

theorem computed_responses_available_witness:
  "\<exists>resp. fst (h_technical (\<lambda>_. True) (api_Handler (\<lambda>_. []) still_Env plain_pg rat_numeric) blank_request blank_world) = Ok resp \<and>
     resp_Status resp = 404"
proof -
  have n: "normalizeSymbol (c_Param blank_request ''symbol'') = Inr ''AAPL''"
    unfolding blank_request_def gin_Context.simps by (rule normalizeSymbol_fixed) code_simp
  have "db_technical (w_db blank_world) ''AAPL'' = Err ErrNotFound" "db_faults (w_db blank_world) = []"
    by (simp_all add: db_technical_def technical_spec_def view_company_def company_rows_def blank_world_def blank_db_def)
  with computed_responses_available [OF n, of blank_world "\<lambda>_. True" "\<lambda>_. []" still_Env plain_pg rat_numeric] blank_coherent show ?thesis
    by (auto simp: reports_def ErrNotFound_def ErrInsufficientData_def)
qed

end
