(* ===== verification/GoFlags.thy ===== *)
theory GoFlags
  imports GoFloat
begin

text \<open>
  The parts of Go's standard library that read the command line: \<^verbatim>\<open>time.ParseDuration\<close>,
  \<^verbatim>\<open>strconv.ParseInt\<close> with base 0 and \<^verbatim>\<open>flag.FlagSet.Parse\<close>.
\<close>

section \<open>Durations\<close>

text \<open>The leading digits, in 64 unsigned bits; more than \<open>2 ^ 63\<close> is an error.\<close>

fun leadingInt :: "int \<Rightarrow> string \<Rightarrow> (int \<times> string) option" where
  "leadingInt x [] = Some (x, [])"
| "leadingInt x (c # s) =
     (case digit_val c of
        None \<Rightarrow> Some (x, c # s)
      | Some v \<Rightarrow>
          if 2 ^ 63 div 10 < x \<or> 2 ^ 63 < x * 10 + v then None else leadingInt (x * 10 + v) s)"

text \<open>The digits of a fraction with their scale; digits beyond the precision are dropped.\<close>

fun leadingFraction :: "int \<Rightarrow> float64 \<Rightarrow> bool \<Rightarrow> string \<Rightarrow> int \<times> float64 \<times> string" where
  "leadingFraction x scale overflow [] = (x, scale, [])"
| "leadingFraction x scale overflow (c # s) =
     (case digit_val c of
        None \<Rightarrow> (x, scale, c # s)
      | Some v \<Rightarrow>
          if overflow \<or> (2 ^ 63 - 1) div 10 < x \<or> 2 ^ 63 < x * 10 + v then leadingFraction x scale True s
          else leadingFraction (x * 10 + v) (scale * f64 10) False s)"

definition unitMap :: "(string \<times> int) list" where
  "unitMap = [(''ns'', 1), (''us'', 10 ^ 3), ([byte 0xC2, byte 0xB5, CHR ''s''], 10 ^ 3), ([byte 0xCE, byte 0xBC, CHR ''s''], 10 ^ 3),
     (''ms'', 10 ^ 6), (''s'', 10 ^ 9), (''m'', 60 * 10 ^ 9), (''h'', 3600 * 10 ^ 9)]"

definition number_char :: "char \<Rightarrow> bool" where
  "number_char c \<longleftrightarrow> c = CHR ''.'' \<or> digit_val c \<noteq> None"

text \<open>
  One number with its unit, from the front of the text: the nanoseconds it adds, and the rest. The
  fraction is below 3600 seconds, so its conversion to an integer truncates.
\<close>

definition duration_part :: "string \<Rightarrow> (int \<times> string) option" where
  "duration_part s =
     (case leadingInt 0 s of
        None \<Rightarrow> None
      | Some (v, s1) \<Rightarrow>
          (let (f, scale, s2) = (if s1 \<noteq> [] \<and> hd s1 = CHR ''.'' then leadingFraction 0 1 False (tl s1) else (0, 1, s1));
               pre = (length s1 \<noteq> length s);
               post = (s1 \<noteq> [] \<and> hd s1 = CHR ''.'' \<and> length s2 \<noteq> length (tl s1));
               u = takeWhile (\<lambda>c. \<not> number_char c) s2;
               s3 = dropWhile (\<lambda>c. \<not> number_char c) s2
           in if \<not> pre \<and> \<not> post \<or> u = [] then None
              else case map_of unitMap u of
                None \<Rightarrow> None
              | Some un \<Rightarrow>
                  if 2 ^ 63 div un < v then None
                  else let v = (if 0 < f then v * un + (case f64 f * (f64 un / scale) of Fin _ m \<Rightarrow> \<lfloor>m\<rfloor> | _ \<Rightarrow> 0) else v * un)
                       in if 2 ^ 63 < v then None else Some (v, s3)))"

lemma leadingInt_length: "leadingInt x s = Some (v, r) \<Longrightarrow> length r \<le> length s"
  by (induction x s rule: leadingInt.induct) (auto split: option.splits if_splits)

lemma leadingFraction_length: "leadingFraction x sc ov s = (f, sc', r) \<Longrightarrow> length r \<le> length s"
  by (induction x sc ov s rule: leadingFraction.induct) (auto split: option.splits if_splits)

lemma dropWhile_shorter: "takeWhile P s \<noteq> [] \<Longrightarrow> length (dropWhile P s) < length s"
  by (cases s) (auto simp: length_dropWhile_le le_imp_less_Suc split: if_splits)

lemma duration_part_shorter:
  assumes "duration_part s = Some (v, r)"
  shows "length r < length s"
proof -
  obtain n s1 where 1: "leadingInt 0 s = Some (n, s1)"
    using assms by (auto simp: duration_part_def split: option.splits)
  obtain f sc s2 where 2: "(if s1 \<noteq> [] \<and> hd s1 = CHR ''.'' then leadingFraction 0 1 False (tl s1) else (0, 1, s1)) = (f, sc, s2)"
    by (metis prod_cases3)
  have "takeWhile (\<lambda>c. \<not> number_char c) s2 \<noteq> []" "r = dropWhile (\<lambda>c. \<not> number_char c) s2"
    using assms by (auto simp: duration_part_def 1 2 Let_def split: if_splits option.splits)
  then have "length r < length s2" using dropWhile_shorter by blast
  moreover have "length s2 \<le> length s1" using 2 leadingFraction_length by (force split: if_splits)
  moreover have "length s1 \<le> length s" using leadingInt_length [OF 1] .
  ultimately show ?thesis by simp
qed

text \<open>The sum of the parts, in 64 unsigned bits.\<close>

function duration_loop :: "int \<Rightarrow> string \<Rightarrow> int option" where
  "duration_loop d s =
     (if s = [] then Some d
      else if \<not> number_char (hd s) then None
      else case duration_part s of
        None \<Rightarrow> None
      | Some (v, r) \<Rightarrow>
          (let d = (d + v) mod 2 ^ 64 in if 2 ^ 63 < d then None else duration_loop d r))"
  by pat_completeness auto
termination by (relation "measure (\<lambda>(d, s). length s)") (auto dest: duration_part_shorter)

declare duration_loop.simps [simp del]

definition sign_of :: "string \<Rightarrow> bool \<times> string" where
  "sign_of s =
     (case s of
        c # t \<Rightarrow> if c = CHR ''-'' then (True, t) else if c = CHR ''+'' then (False, t) else (False, s)
      | [] \<Rightarrow> (False, s))"

definition ParseDuration :: "string \<Rightarrow> int option" where
  "ParseDuration s =
     (let (neg, t) = sign_of s
      in if t = ''0'' then Some 0
         else if t = [] then None
         else case duration_loop 0 t of
           None \<Rightarrow> None
         | Some d \<Rightarrow> if neg then Some (- d) else if max_int < d then None else Some d)"

section \<open>Integers\<close>

text \<open>\<^verbatim>\<open>strconv.ParseInt(s, 0, 64)\<close>: the base follows from the prefix, and underscores may separate digits.\<close>

definition base_of :: "string \<Rightarrow> int \<times> string" where
  "base_of s =
     (case s of
        z # t \<Rightarrow>
          if z \<noteq> CHR ''0'' then (10, s)
          else (case t of
             x # y # u \<Rightarrow>
               if lower_char x = CHR ''b'' then (2, y # u)
               else if lower_char x = CHR ''o'' then (8, y # u)
               else if lower_char x = CHR ''x'' then (16, y # u)
               else (8, t)
           | _ \<Rightarrow> (8, t))
      | [] \<Rightarrow> (10, s))"

definition ParseInt0 :: "string \<Rightarrow> int option" where
  "ParseInt0 s =
     (let (neg, t) = sign_of s; (b, ds) = base_of t; ds' = filter (\<lambda>c. c \<noteq> CHR ''_'') ds
      in if t = [] \<or> \<not> list_all (is_digit b) ds' \<or> (CHR ''_'' \<in> set ds \<and> \<not> underscoreOK t) then None
         else let n = mantissa b 0 ds'; v = (if neg then - n else n)
              in if - (2 ^ 63) \<le> v \<and> v \<le> max_int then Some v else None)"

section \<open>Flags\<close>

text \<open>
  \<^verbatim>\<open>FlagSet.Parse\<close> with \<^verbatim>\<open>flag.ExitOnError\<close>, for flags that take a value: each flag has a function that
  sets it, or fails. The result is the state of the flags, or the code the process exits with: 0 when help
  was asked for, otherwise 2. Parsing stops at the first argument that is not a flag.
\<close>

type_synonym 'f setters = "(string \<times> (string \<Rightarrow> 'f \<Rightarrow> 'f option)) list"

function parse_flags :: "'f setters \<Rightarrow> string list \<Rightarrow> 'f \<Rightarrow> int + 'f" where
  "parse_flags formal [] f = Inr f"
| "parse_flags formal (s # args) f =
     (if length s < 2 \<or> hd s \<noteq> CHR ''-'' \<or> s = ''--'' then Inr f
      else
        let name = (if hd (tl s) = CHR ''-'' then drop 2 s else tl s)
        in if hd name = CHR ''-'' \<or> hd name = CHR ''='' then Inl 2
           else
             let key = hd name # takeWhile (\<lambda>c. c \<noteq> CHR ''='') (tl name);
                 r = dropWhile (\<lambda>c. c \<noteq> CHR ''='') (tl name)
             in case map_of formal key of
                  None \<Rightarrow> Inl (if key = ''help'' \<or> key = ''h'' then 0 else 2)
                | Some set_flag \<Rightarrow>
                    (case r of
                       eq # v \<Rightarrow> (case set_flag v f of None \<Rightarrow> Inl 2 | Some f \<Rightarrow> parse_flags formal args f)
                     | [] \<Rightarrow>
                         (case args of
                            [] \<Rightarrow> Inl 2
                          | v # args \<Rightarrow> (case set_flag v f of None \<Rightarrow> Inl 2 | Some f \<Rightarrow> parse_flags formal args f))))"
  by pat_completeness auto
termination by (relation "measure (\<lambda>(formal, args, f). length args)") auto

declare parse_flags.simps(2) [simp del]

section \<open>Laws\<close>

text \<open>A number of hours in the range of a duration is read exactly; a number of days is no duration.\<close>

lemma digit_number: "d < 10 \<Longrightarrow> number_char (digit_char d)" "d < 10 \<Longrightarrow> digit_char d \<noteq> CHR ''-'' \<and> digit_char d \<noteq> CHR ''+''"
proof -
  assume "d < 10"
  then have v: "digit_val (digit_char d) = Some (int d)" by simp
  then show "number_char (digit_char d)" by (simp add: number_char_def)
  have "digit_val (CHR ''-'') = None" "digit_val (CHR ''+'') = None" by (simp_all add: digit_val_def)
  with v show "digit_char d \<noteq> CHR ''-'' \<and> digit_char d \<noteq> CHR ''+''" by auto
qed

lemma leadingInt_digits:
  assumes "digits_val x ds = Some n" "0 \<le> x" "n \<le> 2 ^ 63" "r = [] \<or> digit_val (hd r) = None"
  shows "leadingInt x (ds @ r) = Some (n, r)"
  using assms
proof (induction x ds arbitrary: n rule: digits_val.induct)
  case (1 acc)
  then show ?case by (cases r) auto
next
  case (2 acc c s)
  then obtain v where v: "digit_val c = Some v" "digits_val (acc * 10 + v) s = Some n" by (auto split: option.splits)
  have "0 \<le> v" using v(1) by (auto simp: digit_val_def Let_def split: if_splits)
  moreover have mono: "0 \<le> a \<Longrightarrow> digits_val a t = Some m \<Longrightarrow> a \<le> m" for a t m
  proof (induction a t arbitrary: m rule: digits_val.induct)
    case (2 a c t)
    then obtain u where u: "digit_val c = Some u" "digits_val (a * 10 + u) t = Some m" by (auto split: option.splits)
    have "0 \<le> u" using u(1) by (auto simp: digit_val_def Let_def split: if_splits)
    with 2(1) [OF u(1) _ u(2)] 2(2) show ?case by simp
  qed simp
  ultimately have "acc * 10 + v \<le> n" using v(2) 2(3) by simp
  with v 2 \<open>0 \<le> v\<close> show ?case by simp
qed

lemma show_nat_digit: "\<exists>d s. d < 10 \<and> show_nat n = digit_char d # s"
proof (induction n rule: show_nat.induct)
  case (1 n)
  show ?case
  proof (cases "n < 10")
    case False
    from 1 [OF False] show ?thesis by (subst show_nat.simps) (auto simp: False)
  qed (subst show_nat.simps, auto)
qed

lemma unit_split:
  assumes "list_all (\<lambda>c. \<not> number_char c) u"
  shows "takeWhile (\<lambda>c. \<not> number_char c) u = u" "dropWhile (\<lambda>c. \<not> number_char c) u = []"
  using assms by (auto simp: list_all_iff takeWhile_eq_all_conv dropWhile_eq_Nil_conv)

lemma duration_part_unit:
  assumes "int n \<le> 2 ^ 63" "u \<noteq> []" "list_all (\<lambda>c. \<not> number_char c) u"
  shows "duration_part (show_nat n @ u) =
    (case map_of unitMap u of None \<Rightarrow> None | Some un \<Rightarrow> if 2 ^ 63 div un < int n \<or> 2 ^ 63 < int n * un then None else Some (int n * un, []))"
proof -
  have h: "digit_val (hd u) = None" "hd u \<noteq> CHR ''.''" using assms(2,3) by (cases u; simp add: number_char_def)+
  have "leadingInt 0 (show_nat n @ u) = Some (int n, u)"
    by (rule leadingInt_digits [OF digits_val_show_nat]) (use assms(1) h in auto)
  with h assms(2) show ?thesis by (auto simp: duration_part_def unit_split [OF assms(3)] Let_def split: option.splits)
qed

lemma leadingInt_digit_prefix:
  "digits_val x ds = Some n \<Longrightarrow> leadingInt x (ds @ r) = Some (v, s) \<Longrightarrow> \<exists>y. leadingInt y r = Some (v, s)"
  by (induction x ds rule: digits_val.induct) (auto split: option.splits if_splits)

text \<open>No unit of the table is \<^verbatim>\<open>d\<close>: a number of days, of whatever size, is not a duration.\<close>

lemma ParseDuration_days: "ParseDuration (show_nat n @ ''d'') = None"
proof -
  obtain d t where t: "d < 10" "show_nat n = digit_char d # t" using show_nat_digit by blast
  have nd: "digit_val (CHR ''d'') = None" "\<not> number_char (CHR ''d'')" by (simp_all add: number_char_def digit_val_def)
  have "duration_part (show_nat n @ ''d'') = None"
  proof (cases "leadingInt 0 (show_nat n @ ''d'')")
    case (Some p)
    obtain v s where p: "p = (v, s)" by force
    from leadingInt_digit_prefix [OF digits_val_show_nat Some [unfolded p]] nd have "s = ''d''" by auto
    then show ?thesis using nd by (simp add: duration_part_def Some p Let_def unitMap_def)
  qed (simp add: duration_part_def)
  then have "duration_loop 0 (show_nat n @ ''d'') = None"
    using t digit_number [OF t(1)] by (subst duration_loop.simps) simp
  moreover have "sign_of (show_nat n @ ''d'') = (False, show_nat n @ ''d'')"
    using t digit_number(2) [OF t(1)] by (simp add: sign_of_def)
  ultimately show ?thesis using t by (simp add: ParseDuration_def)
qed

text \<open>Hours, up to the range of 64 bits, are read exactly.\<close>

lemma ParseDuration_hours:
  assumes "int n * (3600 * 10 ^ 9) \<le> max_int"
  shows "ParseDuration (show_nat n @ ''h'') = Some (int n * (3600 * 10 ^ 9))"
proof -
  obtain d t where t: "d < 10" "show_nat n = digit_char d # t" using show_nat_digit by blast
  have "list_all (\<lambda>c. \<not> number_char c) ''h''" by (simp add: number_char_def digit_val_def)
  moreover have n: "int n \<le> 2562047" using assms by (simp add: max_int_def)
  ultimately have "duration_part (show_nat n @ ''h'') = Some (int n * (3600 * 10 ^ 9), [])"
    by (subst duration_part_unit) (simp_all add: unitMap_def)
  then have "duration_loop 0 (show_nat n @ ''h'') = Some (int n * (3600 * 10 ^ 9))"
    using t digit_number [OF t(1)] n by (subst duration_loop.simps, subst duration_loop.simps) (simp add: Let_def)
  moreover have "sign_of (show_nat n @ ''h'') = (False, show_nat n @ ''h'')"
    using t digit_number(2) [OF t(1)] by (simp add: sign_of_def)
  ultimately show ?thesis using t assms by (simp add: ParseDuration_def)
qed

end
