(* ===== verification/Provider.thy ===== *)
theory Provider
  imports Result_Codec "HOL-Library.AList"
begin

text \<open>
  The Alpha Vantage client, \<^verbatim>\<open>internal/provider\<close>: the request, the error envelope inside successful replies,
  the decoding of the five endpoints and the parsing of their string-encoded numbers. The network is the
  argument \<open>client\<close>: it answers a URL with an error or with a status, the bytes of the body and the error
  that ended the body, if any. Go iterates over a map in no particular order; the argument \<open>order\<close> is the
  order the runtime takes.
\<close>

section \<open>Requests\<close>

definition ErrProviderFailed :: gerror where
  "ErrProviderFailed = Sentinel ''provider: request failed''"

definition ErrRateLimited :: gerror where
  "ErrRateLimited = Sentinel ''provider: rate limit exceeded''"

definition provider_ErrInvalidSymbol :: gerror where
  "provider_ErrInvalidSymbol = Sentinel ''provider: invalid symbol''"

record http_Response =
  res_StatusCode :: int
  res_Body :: string
  res_BodyErr :: "string option"

record 'w AlphaVantage =
  av_baseURL :: string
  av_apiKey :: string
  av_client :: "string \<Rightarrow> ('w, http_Response) call"

definition NewAlphaVantage :: "(string \<Rightarrow> ('w, http_Response) call) \<Rightarrow> string \<Rightarrow> 'w AlphaVantage" where
  "NewAlphaVantage client apiKey =
     \<lparr>av_baseURL = ''https://www.alphavantage.co/query'', av_apiKey = apiKey, av_client = client\<rparr>"

text \<open>\<^verbatim>\<open>url.Values.Encode\<close>: the pairs in the order of their keys, both sides escaped.\<close>

definition unreserved :: "char \<Rightarrow> bool" where
  "unreserved c \<longleftrightarrow> (let n = of_char c :: nat in 65 \<le> n \<and> n \<le> 90 \<or> 97 \<le> n \<and> n \<le> 122 \<or> 48 \<le> n \<and> n \<le> 57) \<or>
     c \<in> {CHR ''-'', CHR ''_'', CHR ''.'', CHR ''~''}"

definition upper_hex :: "nat \<Rightarrow> char" where
  "upper_hex d = (if d < 10 then byte (48 + d) else byte (55 + d))"

definition QueryEscape :: "string \<Rightarrow> string" where
  "QueryEscape s = concat (map (\<lambda>c. if unreserved c then [c] else if c = CHR '' '' then ''+''
     else [CHR ''%'', upper_hex (of_char c div 16), upper_hex (of_char c mod 16)]) s)"

definition Encode_params :: "(string \<times> string) list \<Rightarrow> string" where
  "Encode_params params =
     Join (CHR ''&'') (map (\<lambda>(k, v). QueryEscape k @ ''='' @ QueryEscape v) (sort_key fst params))"

text \<open>\<^verbatim>\<open>http.NewRequest\<close> on an absolute URL without a fragment fails only for control characters.\<close>

definition NewRequest :: "string \<Rightarrow> unit ret" where
  "NewRequest url =
     (if list_ex (\<lambda>c. of_char c < (32::nat) \<or> of_char c = (127::nat)) url
      then Inl (Foreign ''net/url: invalid control character in URL'') else Inr ())"

text \<open>\<^verbatim>\<open>io.ReadAll(io.LimitReader(body, 4<<20))\<close>: an error after the limit is not seen.\<close>

definition body_limit :: nat where "body_limit = 4 * 2 ^ 20"

definition ReadAll :: "http_Response \<Rightarrow> string ret" where
  "ReadAll res =
     (if body_limit \<le> length (res_Body res) then Inr (take body_limit (res_Body res))
      else case res_BodyErr res of None \<Rightarrow> Inr (res_Body res) | Some e \<Rightarrow> Inl (Foreign e))"

section \<open>The envelope and the query\<close>

record error_env =
  env_ErrorMessage :: string
  env_Note :: string
  env_Information :: string

definition env_fields :: "(string \<times> error_env decoder) list" where
  "env_fields =
     [(''Error Message'', field env_ErrorMessage (\<lambda>v. env_ErrorMessage_update (\<lambda>_. v)) dec_string),
      (''Note'', field env_Note (\<lambda>v. env_Note_update (\<lambda>_. v)) dec_string),
      (''Information'', field env_Information (\<lambda>v. env_Information_update (\<lambda>_. v)) dec_string)]"

fun Contains :: "string \<Rightarrow> string \<Rightarrow> bool" where
  "Contains [] sub = (sub = [])"
| "Contains (c # s) sub = (take (length sub) (c # s) = sub \<or> Contains s sub)"

text \<open>The envelope check: the error an otherwise successful reply carries.\<close>

definition envelope_error :: "string \<Rightarrow> gerror option" where
  "envelope_error body =
     (case json_Unmarshal (dec_struct env_fields) \<lparr>env_ErrorMessage = [], env_Note = [], env_Information = []\<rparr> body of
        Inl err \<Rightarrow> None
      | Inr env \<Rightarrow>
          if env_Note env \<noteq> [] then Some ErrRateLimited
          else if env_ErrorMessage env \<noteq> []
          then Some (Errorf (Error_text provider_ErrInvalidSymbol @ [Lit '': '', Lit (env_ErrorMessage env)]) [provider_ErrInvalidSymbol])
          else if env_Information env \<noteq> [] \<and> Contains (env_Information env) ''premium''
          then Some (Errorf (Error_text ErrProviderFailed @ [Lit '': '', Lit (env_Information env)]) [ErrProviderFailed])
          else None)"

definition provider_failed :: "msg \<Rightarrow> gerror" where
  "provider_failed m = Errorf (Error_text ErrProviderFailed @ m) [ErrProviderFailed]"

definition query :: "'w AlphaVantage \<Rightarrow> (string \<times> string) list \<Rightarrow> 'a decoder \<Rightarrow> 'a \<Rightarrow> ('w, 'a) call" where
  "query a params dec zero w =
     (let url = av_baseURL a @ ''?'' @ Encode_params (params @ [(''apikey'', av_apiKey a)])
      in case NewRequest url of
        Inl err \<Rightarrow> (Inl (provider_failed (Lit '': build request: '' # Error_text err)), w)
      | Inr _ \<Rightarrow>
          (case av_client a url w of
             (Inl err, w) \<Rightarrow>
               (Inl (Errorf (Error_text ErrProviderFailed @ Lit '': '' # Error_text err) [ErrProviderFailed, err]), w)
           | (Inr res, w) \<Rightarrow>
               if res_StatusCode res = 429 then (Inl ErrRateLimited, w)
               else case ReadAll res of
                 Inl err \<Rightarrow> (Inl (provider_failed (Lit '': read body: '' # Error_text err)), w)
               | Inr body \<Rightarrow>
                   if res_StatusCode res \<noteq> 200
                   then (Inl (provider_failed [Lit '': status '', Lit (show_int (res_StatusCode res))]), w)
                   else case envelope_error body of
                     Some e \<Rightarrow> (Inl e, w)
                   | None \<Rightarrow>
                       (case json_Unmarshal dec zero body of
                          Inl err \<Rightarrow> (Inl (provider_failed (Lit '': decode response: '' # Error_text err)), w)
                        | Inr v \<Rightarrow> (Inr v, w))))"

section \<open>The company\<close>

record companyOverview =
  ov_Symbol :: string
  ov_Name :: string
  ov_Exchange :: string
  ov_Sector :: string
  ov_Industry :: string
  ov_Currency :: string
  ov_Description :: string

definition overview_fields :: "(string \<times> companyOverview decoder) list" where
  "overview_fields =
     [(''Symbol'', field ov_Symbol (\<lambda>v. ov_Symbol_update (\<lambda>_. v)) dec_string),
      (''Name'', field ov_Name (\<lambda>v. ov_Name_update (\<lambda>_. v)) dec_string),
      (''Exchange'', field ov_Exchange (\<lambda>v. ov_Exchange_update (\<lambda>_. v)) dec_string),
      (''Sector'', field ov_Sector (\<lambda>v. ov_Sector_update (\<lambda>_. v)) dec_string),
      (''Industry'', field ov_Industry (\<lambda>v. ov_Industry_update (\<lambda>_. v)) dec_string),
      (''Currency'', field ov_Currency (\<lambda>v. ov_Currency_update (\<lambda>_. v)) dec_string),
      (''Description'', field ov_Description (\<lambda>v. ov_Description_update (\<lambda>_. v)) dec_string)]"

definition zero_overview :: companyOverview where
  "zero_overview = \<lparr>ov_Symbol = [], ov_Name = [], ov_Exchange = [], ov_Sector = [], ov_Industry = [],
     ov_Currency = [], ov_Description = []\<rparr>"

definition fetchCompany :: "'w AlphaVantage \<Rightarrow> string \<Rightarrow> ('w, Company) call" where
  "fetchCompany a symbol w =
     (case query a [(''function'', ''OVERVIEW''), (''symbol'', symbol)] (dec_struct overview_fields) zero_overview w of
        (Inl err, w) \<Rightarrow> (Inl err, w)
      | (Inr raw, w) \<Rightarrow>
          (Inr \<lparr>co_Symbol = ToUpper (TrimSpace symbol), co_Name = ov_Name raw, co_Exchange = ov_Exchange raw,
             co_Sector = ov_Sector raw, co_Industry = ov_Industry raw, co_Currency = ov_Currency raw,
             co_Description = ov_Description raw\<rparr>, w))"

section \<open>Numbers and prices\<close>

definition parseNum :: "string \<Rightarrow> float64" where
  "parseNum s =
     (let s = TrimSpace (filter (\<lambda>c. c \<noteq> CHR '','') s)
      in if s = [] then 0 else case ParseFloat s of None \<Rightarrow> 0 | Some v \<Rightarrow> v)"

text \<open>
  The conversion \<^verbatim>\<open>int64(f)\<close>: toward zero; outside the range Go leaves the result to the implementation,
  and on amd64 it is the least int64.
\<close>

fun int64_of :: "float64 \<Rightarrow> int" where
  "int64_of (Fin s m) =
     (let n = (if s then - \<lfloor>m\<rfloor> else \<lfloor>m\<rfloor>) in if - (2 ^ 63) \<le> n \<and> n < 2 ^ 63 then n else - (2 ^ 63))"
| "int64_of _ = - (2 ^ 63)"

record priceRecord =
  pr_Open :: string
  pr_High :: string
  pr_Low :: string
  pr_Close :: string
  pr_Volume :: string

definition price_fields :: "(string \<times> priceRecord decoder) list" where
  "price_fields =
     [(''1. open'', field pr_Open (\<lambda>v. pr_Open_update (\<lambda>_. v)) dec_string),
      (''2. high'', field pr_High (\<lambda>v. pr_High_update (\<lambda>_. v)) dec_string),
      (''3. low'', field pr_Low (\<lambda>v. pr_Low_update (\<lambda>_. v)) dec_string),
      (''4. close'', field pr_Close (\<lambda>v. pr_Close_update (\<lambda>_. v)) dec_string),
      (''5. volume'', field pr_Volume (\<lambda>v. pr_Volume_update (\<lambda>_. v)) dec_string)]"

definition zero_priceRecord :: priceRecord where
  "zero_priceRecord = \<lparr>pr_Open = [], pr_High = [], pr_Low = [], pr_Close = [], pr_Volume = []\<rparr>"

text \<open>A Go map is an association list without repeated keys. Every element is decoded into a fresh value.\<close>

definition dec_map :: "'a decoder \<Rightarrow> 'a \<Rightarrow> (string \<times> 'a) list decoder" where
  "dec_map dec zero j old =
     (case j of
        JObj ms \<Rightarrow> foldl (\<lambda>(m, ok) (k, v). let (x, ok') = dec v zero in (AList.update k x m, ok \<and> ok')) (old, True) ms
      | JNull \<Rightarrow> ([], True) | _ \<Rightarrow> (old, False))"

record dailyResponse =
  dr_TimeSeries :: "(string \<times> priceRecord) list"

definition daily_fields :: "(string \<times> dailyResponse decoder) list" where
  "daily_fields =
     [(''Time Series (Daily)'', field dr_TimeSeries (\<lambda>v. dr_TimeSeries_update (\<lambda>_. v))
        (dec_map (dec_struct price_fields) zero_priceRecord))]"

text \<open>The loop over the series, which skips the dates that do not parse.\<close>

fun price_loop :: "(string \<times> priceRecord) list \<Rightarrow> DailyPrice list" where
  "price_loop [] = []"
| "price_loop ((dateStr, rec) # rs) =
     (case ParseDate dateStr of
        None \<Rightarrow> price_loop rs
      | Some date \<Rightarrow>
          \<lparr>dp_Date = date, dp_Open = parseNum (pr_Open rec), dp_High = parseNum (pr_High rec),
           dp_Low = parseNum (pr_Low rec), dp_Close = parseNum (pr_Close rec),
           dp_Volume = int64_of (parseNum (pr_Volume rec))\<rparr> # price_loop rs)"

definition fetchDailyPrices ::
    "((string \<times> priceRecord) list \<Rightarrow> (string \<times> priceRecord) list) \<Rightarrow> 'w AlphaVantage \<Rightarrow> string \<Rightarrow> ('w, DailyPrice list) call" where
  "fetchDailyPrices order a symbol w =
     (case query a [(''function'', ''TIME_SERIES_DAILY''), (''symbol'', symbol)] (dec_struct daily_fields) \<lparr>dr_TimeSeries = []\<rparr> w of
        (Inl err, w) \<Rightarrow> (Inl err, w)
      | (Inr raw, w) \<Rightarrow> (Inr (sort_key dp_Date (price_loop (order (dr_TimeSeries raw)))), w))"

section \<open>Statements\<close>

record incomeRaw =
  ir_FiscalDate :: string
  ir_Revenue :: string
  ir_GrossProfit :: string
  ir_OperatingIncome :: string
  ir_NetIncome :: string
  ir_DilutedEPS :: string

record balanceRaw =
  br_FiscalDate :: string
  br_TotalAssets :: string
  br_TotalLiabilities :: string
  br_TotalEquity :: string
  br_TotalDebt :: string
  br_CurrentAssets :: string
  br_CurrentLiabilities :: string
  br_SharesOutstanding :: string

record cashFlowRaw =
  cr_FiscalDate :: string
  cr_OperatingCashFlow :: string
  cr_InvestingCashFlow :: string
  cr_FinancingCashFlow :: string
  cr_NetChangeInCash :: string

definition income_fields :: "(string \<times> incomeRaw decoder) list" where
  "income_fields =
     [(''fiscalDateEnding'', field ir_FiscalDate (\<lambda>v. ir_FiscalDate_update (\<lambda>_. v)) dec_string),
      (''totalRevenue'', field ir_Revenue (\<lambda>v. ir_Revenue_update (\<lambda>_. v)) dec_string),
      (''grossProfit'', field ir_GrossProfit (\<lambda>v. ir_GrossProfit_update (\<lambda>_. v)) dec_string),
      (''operatingIncome'', field ir_OperatingIncome (\<lambda>v. ir_OperatingIncome_update (\<lambda>_. v)) dec_string),
      (''netIncome'', field ir_NetIncome (\<lambda>v. ir_NetIncome_update (\<lambda>_. v)) dec_string),
      (''dilutedEPS'', field ir_DilutedEPS (\<lambda>v. ir_DilutedEPS_update (\<lambda>_. v)) dec_string)]"

definition balance_fields :: "(string \<times> balanceRaw decoder) list" where
  "balance_fields =
     [(''fiscalDateEnding'', field br_FiscalDate (\<lambda>v. br_FiscalDate_update (\<lambda>_. v)) dec_string),
      (''totalAssets'', field br_TotalAssets (\<lambda>v. br_TotalAssets_update (\<lambda>_. v)) dec_string),
      (''totalLiabilities'', field br_TotalLiabilities (\<lambda>v. br_TotalLiabilities_update (\<lambda>_. v)) dec_string),
      (''totalShareholderEquity'', field br_TotalEquity (\<lambda>v. br_TotalEquity_update (\<lambda>_. v)) dec_string),
      (''totalDebt'', field br_TotalDebt (\<lambda>v. br_TotalDebt_update (\<lambda>_. v)) dec_string),
      (''currentAssets'', field br_CurrentAssets (\<lambda>v. br_CurrentAssets_update (\<lambda>_. v)) dec_string),
      (''currentLiabilities'', field br_CurrentLiabilities (\<lambda>v. br_CurrentLiabilities_update (\<lambda>_. v)) dec_string),
      (''commonStockSharesOutstanding'', field br_SharesOutstanding (\<lambda>v. br_SharesOutstanding_update (\<lambda>_. v)) dec_string)]"

definition cash_fields :: "(string \<times> cashFlowRaw decoder) list" where
  "cash_fields =
     [(''fiscalDateEnding'', field cr_FiscalDate (\<lambda>v. cr_FiscalDate_update (\<lambda>_. v)) dec_string),
      (''operatingCashflow'', field cr_OperatingCashFlow (\<lambda>v. cr_OperatingCashFlow_update (\<lambda>_. v)) dec_string),
      (''investingCashflow'', field cr_InvestingCashFlow (\<lambda>v. cr_InvestingCashFlow_update (\<lambda>_. v)) dec_string),
      (''financingCashflow'', field cr_FinancingCashFlow (\<lambda>v. cr_FinancingCashFlow_update (\<lambda>_. v)) dec_string),
      (''changeInCashAndCashEquivalents'', field cr_NetChangeInCash (\<lambda>v. cr_NetChangeInCash_update (\<lambda>_. v)) dec_string)]"

text \<open>A \<^verbatim>\<open>json.RawMessage\<close> is kept as the value its text denotes; unmarshalling it decodes that value.\<close>

definition Unmarshal_raw :: "'a decoder \<Rightarrow> 'a \<Rightarrow> json \<Rightarrow> 'a ret" where
  "Unmarshal_raw dec zero raw = (let (v, ok) = dec raw zero in if ok then Inr v else Inl (Foreign ''json: cannot unmarshal''))"

definition zero_incomeRaw :: incomeRaw where
  "zero_incomeRaw = \<lparr>ir_FiscalDate = [], ir_Revenue = [], ir_GrossProfit = [], ir_OperatingIncome = [], ir_NetIncome = [],
     ir_DilutedEPS = []\<rparr>"

definition parseIncome :: "json \<Rightarrow> string \<Rightarrow> IncomeStatement option" where
  "parseIncome raw period =
     (case Unmarshal_raw (dec_struct income_fields) zero_incomeRaw raw of
        Inl err \<Rightarrow> None
      | Inr inc \<Rightarrow>
          (case ParseDate (ir_FiscalDate inc) of
             None \<Rightarrow> None
           | Some date \<Rightarrow>
               Some \<lparr>inc_Period = period, inc_FiscalDate = date, inc_Revenue = parseNum (ir_Revenue inc),
                 inc_GrossProfit = parseNum (ir_GrossProfit inc), inc_OperatingIncome = parseNum (ir_OperatingIncome inc),
                 inc_NetIncome = parseNum (ir_NetIncome inc), inc_DilutedEPS = parseNum (ir_DilutedEPS inc)\<rparr>))"

definition zero_balanceRaw :: balanceRaw where
  "zero_balanceRaw = \<lparr>br_FiscalDate = [], br_TotalAssets = [], br_TotalLiabilities = [], br_TotalEquity = [], br_TotalDebt = [],
     br_CurrentAssets = [], br_CurrentLiabilities = [], br_SharesOutstanding = []\<rparr>"

definition parseBalance :: "json \<Rightarrow> string \<Rightarrow> BalanceSheet option" where
  "parseBalance raw period =
     (case Unmarshal_raw (dec_struct balance_fields) zero_balanceRaw raw of
        Inl err \<Rightarrow> None
      | Inr bal \<Rightarrow>
          (case ParseDate (br_FiscalDate bal) of
             None \<Rightarrow> None
           | Some date \<Rightarrow>
               Some \<lparr>bal_Period = period, bal_FiscalDate = date, bal_TotalAssets = parseNum (br_TotalAssets bal),
                 bal_TotalLiabilities = parseNum (br_TotalLiabilities bal), bal_TotalEquity = parseNum (br_TotalEquity bal),
                 bal_TotalDebt = parseNum (br_TotalDebt bal), bal_CurrentAssets = parseNum (br_CurrentAssets bal),
                 bal_CurrentLiabilities = parseNum (br_CurrentLiabilities bal),
                 bal_SharesOutstanding = parseNum (br_SharesOutstanding bal)\<rparr>))"

definition zero_cashFlowRaw :: cashFlowRaw where
  "zero_cashFlowRaw = \<lparr>cr_FiscalDate = [], cr_OperatingCashFlow = [], cr_InvestingCashFlow = [], cr_FinancingCashFlow = [],
     cr_NetChangeInCash = []\<rparr>"

definition parseCashFlow :: "json \<Rightarrow> string \<Rightarrow> CashFlow option" where
  "parseCashFlow raw period =
     (case Unmarshal_raw (dec_struct cash_fields) zero_cashFlowRaw raw of
        Inl err \<Rightarrow> None
      | Inr cf \<Rightarrow>
          (case ParseDate (cr_FiscalDate cf) of
             None \<Rightarrow> None
           | Some date \<Rightarrow>
               Some \<lparr>cfl_Period = period, cfl_FiscalDate = date, cfl_OperatingCashFlow = parseNum (cr_OperatingCashFlow cf),
                 cfl_InvestingCashFlow = parseNum (cr_InvestingCashFlow cf),
                 cfl_FinancingCashFlow = parseNum (cr_FinancingCashFlow cf),
                 cfl_NetChangeInCash = parseNum (cr_NetChangeInCash cf)\<rparr>))"

definition dec_raws :: "json list decoder" where
  "dec_raws j old = (case j of JArr xs \<Rightarrow> (xs, True) | JNull \<Rightarrow> ([], True) | _ \<Rightarrow> (old, False))"

record statementsResponse =
  sr_Annual :: "json list"
  sr_Quarterly :: "json list"

definition statements_fields :: "(string \<times> statementsResponse decoder) list" where
  "statements_fields =
     [(''annualReports'', field sr_Annual (\<lambda>v. sr_Annual_update (\<lambda>_. v)) dec_raws),
      (''quarterlyReports'', field sr_Quarterly (\<lambda>v. sr_Quarterly_update (\<lambda>_. v)) dec_raws)]"

fun parse_loop :: "(json \<Rightarrow> string \<Rightarrow> 'a option) \<Rightarrow> string \<Rightarrow> json list \<Rightarrow> 'a list" where
  "parse_loop parse period [] = []"
| "parse_loop parse period (rec # rs) =
     (case parse rec period of Some v \<Rightarrow> v # parse_loop parse period rs | None \<Rightarrow> parse_loop parse period rs)"

definition fetchStatements ::
    "'w AlphaVantage \<Rightarrow> string \<Rightarrow> string \<Rightarrow> (json \<Rightarrow> string \<Rightarrow> 'a option) \<Rightarrow> ('w, 'a list) call" where
  "fetchStatements a symbol function_name parse w =
     (case query a [(''function'', function_name), (''symbol'', symbol)] (dec_struct statements_fields)
             \<lparr>sr_Annual = [], sr_Quarterly = []\<rparr> w of
        (Inl err, w) \<Rightarrow> (Inl err, w)
      | (Inr raw, w) \<Rightarrow>
          (Inr (parse_loop parse ''annual'' (sr_Annual raw) @ parse_loop parse ''quarterly'' (sr_Quarterly raw)), w))"

section \<open>The snapshot\<close>

definition FetchCompanySnapshot ::
    "((string \<times> priceRecord) list \<Rightarrow> (string \<times> priceRecord) list) \<Rightarrow> 'w AlphaVantage \<Rightarrow> string \<Rightarrow> ('w, CompanySnapshot) call" where
  "FetchCompanySnapshot order a symbol w =
     (case fetchCompany a symbol w of
        (Inl err, w) \<Rightarrow> (Inl err, w)
      | (Inr company, w) \<Rightarrow>
     (case fetchDailyPrices order a symbol w of
        (Inl err, w) \<Rightarrow> (Inl err, w)
      | (Inr prices, w) \<Rightarrow>
     (case fetchStatements a symbol ''INCOME_STATEMENT'' parseIncome w of
        (Inl err, w) \<Rightarrow> (Inl err, w)
      | (Inr income, w) \<Rightarrow>
     (case fetchStatements a symbol ''BALANCE_SHEET'' parseBalance w of
        (Inl err, w) \<Rightarrow> (Inl err, w)
      | (Inr balance, w) \<Rightarrow>
     (case fetchStatements a symbol ''CASH_FLOW'' parseCashFlow w of
        (Inl err, w) \<Rightarrow> (Inl err, w)
      | (Inr cashFlow, w) \<Rightarrow>
          (Inr \<lparr>snap_Company = company, snap_Prices = prices, snap_Income = income, snap_Balance = balance,
             snap_CashFlow = cashFlow\<rparr>, w))))))"

end
