(* ===== verification/Provider_Laws.thy ===== *)
theory Provider_Laws
  imports Provider "HOL-Library.Multiset"
begin

text \<open>
  Correctness of the Alpha Vantage client: every error is one of the three the provider contract names, the
  snapshot is well-formed and does not depend on the order in which Go iterates over the decoded map, and
  prices published in the vendor's format arrive exactly.
\<close>

section \<open>Requests always build\<close>

definition visible :: "char \<Rightarrow> bool" where
  "visible c \<longleftrightarrow> 32 < (of_char c :: nat) \<and> of_char c < (127 :: nat)"

lemma visible_upper_hex: "d < 16 \<Longrightarrow> visible (upper_hex d)"
  by (simp add: visible_def upper_hex_def)

lemma visible_unreserved: "unreserved c \<Longrightarrow> visible c"
  by (auto simp: unreserved_def visible_def Let_def)

lemma visible_QueryEscape: "list_all visible (QueryEscape s)"
proof -
  have "of_char c div 16 < (16 :: nat)" for c :: char using nat_of_char_less_256 [of c] by linarith
  then show ?thesis
    by (induction s) (auto simp: QueryEscape_def visible_unreserved visible_upper_hex, (simp add: visible_def)+)
qed

lemma visible_Join: "visible sep \<Longrightarrow> \<forall>p \<in> set ps. list_all visible p \<Longrightarrow> list_all visible (Join sep ps)"
  by (induction sep ps rule: Join.induct) auto

lemma visible_Encode: "list_all visible (Encode_params params)"
  unfolding Encode_params_def
  by (rule visible_Join) (auto simp: visible_QueryEscape visible_def [of "CHR ''=''"] visible_def [of "CHR ''&''"])

lemma NewRequest_visible: "list_all visible url \<Longrightarrow> NewRequest url = Inr ()"
  by (induction url) (auto simp: NewRequest_def visible_def split: if_splits)

lemma request_builds: "NewRequest (av_baseURL (NewAlphaVantage client key) @ ''?'' @ Encode_params params) = Inr ()"
  by (rule NewRequest_visible) (simp add: NewAlphaVantage_def visible_Encode, simp add: visible_def)

section \<open>Errors\<close>

lemma provider_failed_Is [simp]: "errors_Is (provider_failed m) ErrProviderFailed"
  by (simp add: provider_failed_def)

definition provider_error :: "gerror \<Rightarrow> bool" where
  "provider_error e \<longleftrightarrow> errors_Is e ErrProviderFailed \<or> errors_Is e ErrRateLimited \<or> errors_Is e provider_ErrInvalidSymbol"

lemma envelope_error_class: "envelope_error body = Some e \<Longrightarrow> provider_error e"
  by (auto simp: envelope_error_def provider_error_def split: sum.splits if_splits)

lemma query_error: "query a params dec zero w = (Inl e, w') \<Longrightarrow> provider_error e"
  unfolding query_def Let_def
  by (auto simp: provider_error_def envelope_error_class [unfolded provider_error_def]
      split: sum.splits prod.splits if_splits option.splits)

lemma fetch_errors:
  "fetchCompany a s w = (Inl e, w') \<Longrightarrow> provider_error e"
  "fetchDailyPrices order a s w = (Inl e, w') \<Longrightarrow> provider_error e"
  "fetchStatements a s f parse w = (Inl e, w') \<Longrightarrow> provider_error e"
  by (auto simp: fetchCompany_def fetchDailyPrices_def fetchStatements_def dest: query_error
      split: prod.splits sum.splits)

text \<open>A reply is taken as data only with status 200 and without an error in its envelope.\<close>

lemma query_Inr:
  assumes "query a params dec zero w = (Inr v, w')"
  shows "\<exists>res body. av_client a (av_baseURL a @ ''?'' @ Encode_params (params @ [(''apikey'', av_apiKey a)])) w = (Inr res, w') \<and>
    res_StatusCode res = 200 \<and> ReadAll res = Inr body \<and> envelope_error body = None \<and> json_Unmarshal dec zero body = Inr v"
  using assms unfolding query_def Let_def by (auto split: sum.splits prod.splits if_splits option.splits)

section \<open>Prices\<close>

lemma price_loop_eq:
  "price_loop rs = List.map_filter (\<lambda>(dateStr, rec). map_option (\<lambda>date.
     \<lparr>dp_Date = date, dp_Open = parseNum (pr_Open rec), dp_High = parseNum (pr_High rec),
      dp_Low = parseNum (pr_Low rec), dp_Close = parseNum (pr_Close rec),
      dp_Volume = int64_of (parseNum (pr_Volume rec))\<rparr>) (ParseDate dateStr)) rs"
  by (induction rs rule: price_loop.induct) (auto simp: List.map_filter_simps split: option.splits)

lemma price_loop_dates:
  "p \<in> set (price_loop rs) \<Longrightarrow> \<exists>k rec. (k, rec) \<in> set rs \<and> ParseDate k = Some (dp_Date p)"
  by (induction rs rule: price_loop.induct) (auto split: option.splits)

lemma price_loop_distinct:
  "distinct (map fst rs) \<Longrightarrow> distinct (map dp_Date (price_loop rs))"
proof (induction rs rule: price_loop.induct)
  case (2 k rec rs)
  have "t \<notin> dp_Date ` set (price_loop rs)" if t: "ParseDate k = Some t" for t
  proof
    assume "t \<in> dp_Date ` set (price_loop rs)"
    then obtain k' rec' where "(k', rec') \<in> set rs" "ParseDate k' = Some t" using price_loop_dates by blast
    with t have "k' = k" "(k', rec') \<in> set rs" using dateFormat_ParseDate by metis+
    with 2(3) show False by force
  qed
  with 2 show ?case by (auto split: option.splits)
qed simp

lemma dec_map_distinct:
  assumes "dec_map dec zero j old = (m, ok)" "distinct (map fst old)"
  shows "distinct (map fst m)"
proof -
  have "distinct (map fst (fst (foldl (\<lambda>(m, ok) (k, v). let (x, ok') = dec v zero in (AList.update k x m, ok \<and> ok')) (old, b) ms)))" for ms b
    using assms(2) by (induction ms arbitrary: old b) (auto simp: case_prod_beta distinct_update Let_def)
  from this [of True] assms(1,2) show ?thesis by (auto simp: dec_map_def split: json.splits) (metis fst_conv)+
qed

lemma price_loop_perm: "mset rs = mset rs' \<Longrightarrow> mset (price_loop rs) = mset (price_loop rs')"
  by (simp add: price_loop_eq List.map_filter_def)

lemma daily_series_distinct:
  assumes "json_Unmarshal (dec_struct daily_fields) \<lparr>dr_TimeSeries = []\<rparr> body = Inr raw"
  shows "distinct (map fst (dr_TimeSeries raw))"
proof -
  let ?f = "field dr_TimeSeries (\<lambda>v. dr_TimeSeries_update (\<lambda>_. v)) (dec_map (dec_struct price_fields) zero_priceRecord)"
  have f: "find_field daily_fields k \<in> {None, Some ?f}" for k
    by (auto simp: find_field_def daily_fields_def)
  have member: "distinct (map fst (dr_TimeSeries (fst (dec_member daily_fields st kv))))"
    if d: "distinct (map fst (dr_TimeSeries (fst st)))" for st kv
  proof (cases "find_field daily_fields (fst kv)")
    case None
    with d show ?thesis by (simp add: dec_member_def)
  next
    case (Some g)
    with f [of "fst kv"] have g: "g = ?f" by auto
    from dec_map_distinct [OF surjective_pairing d] show ?thesis
      by (simp add: dec_member_def Some g field_def case_prod_beta)
  qed
  have loop: "distinct (map fst (dr_TimeSeries (fst (foldl (dec_member daily_fields) st ms))))"
    if "distinct (map fst (dr_TimeSeries (fst st)))" for st ms
    using that by (induction ms arbitrary: st) (simp_all add: member)
  from assms show ?thesis
    using loop [of "(\<lparr>dr_TimeSeries = []\<rparr>, True)"]
    by (auto simp: json_Unmarshal_def dec_struct_def Let_def split: option.splits json.splits prod.splits if_splits) (metis fst_conv)
qed

lemma fetchDailyPrices_Inr:
  assumes "fetchDailyPrices order a s w = (Inr ps, w')"
  shows "\<exists>series. distinct (map fst series) \<and> ps = sort_key dp_Date (price_loop (order series))"
proof -
  obtain raw where r: "query a [(''function'', ''TIME_SERIES_DAILY''), (''symbol'', s)] (dec_struct daily_fields) \<lparr>dr_TimeSeries = []\<rparr> w = (Inr raw, w')"
    and ps: "ps = sort_key dp_Date (price_loop (order (dr_TimeSeries raw)))"
    using assms by (auto simp: fetchDailyPrices_def split: prod.splits sum.splits)
  from query_Inr [OF r] daily_series_distinct have "distinct (map fst (dr_TimeSeries raw))" by blast
  with ps show ?thesis by blast
qed

lemma sort_prices_perm:
  assumes "distinct (map fst rs)" "mset rs' = mset rs"
  shows "sort_key dp_Date (price_loop rs') = sort_key dp_Date (price_loop rs)"
proof (rule sort_key_inj_key_eq)
  have "mset (map fst rs') = mset (map fst rs)" using assms(2) by simp
  then have "distinct (map fst rs')" using assms(1) mset_eq_imp_distinct_iff by blast
  then show "inj_on dp_Date (set (price_loop rs'))" using price_loop_distinct distinct_map by blast
qed (use price_loop_perm [OF assms(2)] in simp_all)

lemma fetchDailyPrices_order:
  assumes "\<And>m. mset (order m) = mset m"
  shows "fetchDailyPrices order a s w = fetchDailyPrices (\<lambda>m. m) a s w"
proof -
  let ?q = "query a [(''function'', ''TIME_SERIES_DAILY''), (''symbol'', s)] (dec_struct daily_fields) \<lparr>dr_TimeSeries = []\<rparr> w"
  have "distinct (map fst (dr_TimeSeries raw))" if "?q = (Inr raw, w')" for raw w'
    using query_Inr [OF that] daily_series_distinct by blast
  then show ?thesis unfolding fetchDailyPrices_def
    using sort_prices_perm [OF _ assms] by (auto split: prod.splits sum.splits)
qed

text \<open>
  C17. The snapshot does not depend on chance. Go iterates over the decoded price map in a random order and sorts
  with an unstable sort; whatever permutation the runtime takes, the fetched snapshot is the same, because
  different date strings that parse denote different days.
\<close>
theorem snapshot_deterministic:
  assumes "\<And>m. mset (order m) = mset m" and "\<And>m. mset (order' m) = mset m"
  shows "FetchCompanySnapshot order a s w = FetchCompanySnapshot order' a s w"
  unfolding FetchCompanySnapshot_def fetchDailyPrices_order [of order, OF assms(1)] fetchDailyPrices_order [of order', OF assms(2)] ..

theorem snapshot_deterministic_witness:
  "FetchCompanySnapshot rev (NewAlphaVantage (\<lambda>url w. (Inl (Foreign ''timeout''), w)) ''k'') ''AAPL'' () =
   FetchCompanySnapshot (\<lambda>m. m) (NewAlphaVantage (\<lambda>url w. (Inl (Foreign ''timeout''), w)) ''k'') ''AAPL'' ()"
  by (rule snapshot_deterministic) simp_all

section \<open>The snapshot\<close>

lemma strict_dates:
  assumes "distinct (map dp_Date ps)"
  shows "sorted_wrt (<) (map dp_Date (sort_key dp_Date ps))"
  using assms by (simp add: strict_sorted_iff) (metis distinct_map mset_eq_imp_distinct_iff mset_map mset_sort)

lemma parse_loop_period:
  assumes "\<And>j p x. parse j p = Some x \<Longrightarrow> period x = p"
  shows "map period (parse_loop parse p js) = replicate (length (parse_loop parse p js)) p"
  using assms by (induction js) (auto split: option.splits)

lemma parse_periods:
  "parseIncome j p = Some x \<Longrightarrow> inc_Period x = p"
  "parseBalance j p = Some y \<Longrightarrow> bal_Period y = p"
  "parseCashFlow j p = Some z \<Longrightarrow> cfl_Period z = p"
  by (auto simp: parseIncome_def parseBalance_def parseCashFlow_def split: sum.splits option.splits)

lemma fetchStatements_periods:
  assumes "fetchStatements a s f parse w = (Inr xs, w')" "\<And>j p x. parse j p = Some x \<Longrightarrow> period x = p"
  shows "\<exists>n m. map period xs = replicate n ''annual'' @ replicate m ''quarterly''"
proof -
  obtain an qu where "xs = parse_loop parse ''annual'' an @ parse_loop parse ''quarterly'' qu"
    using assms(1) by (auto simp: fetchStatements_def split: prod.splits sum.splits)
  then have "map period xs = replicate (length (parse_loop parse ''annual'' an)) ''annual'' @
      replicate (length (parse_loop parse ''quarterly'' qu)) ''quarterly''"
    by (simp add: parse_loop_period [of parse period, OF assms(2)])
  then show ?thesis by blast
qed

text \<open>
  C18. What a fetch returns. On success the company carries the normalized symbol, the prices are in strictly
  ascending order of their days, and every list of statements has its annual rows first and its quarterly
  rows after them, each marked with its period; on failure the error is one of the three the provider
  contract names: request failed, rate limited or invalid symbol.
\<close>
theorem snapshot_contract:
  assumes "\<And>m. mset (order m) = mset m"
  shows "case FetchCompanySnapshot order a s w of
     (Inr snap, w') \<Rightarrow> co_Symbol (snap_Company snap) = ToUpper (TrimSpace s) \<and>
       sorted_wrt (<) (map dp_Date (snap_Prices snap)) \<and>
       (\<exists>n m. map inc_Period (snap_Income snap) = replicate n ''annual'' @ replicate m ''quarterly'') \<and>
       (\<exists>n m. map bal_Period (snap_Balance snap) = replicate n ''annual'' @ replicate m ''quarterly'') \<and>
       (\<exists>n m. map cfl_Period (snap_CashFlow snap) = replicate n ''annual'' @ replicate m ''quarterly'')
   | (Inl e, w') \<Rightarrow> errors_Is e ErrProviderFailed \<or> errors_Is e ErrRateLimited \<or> errors_Is e provider_ErrInvalidSymbol"
proof -
  have co: "fetchCompany a s w = (Inr c, w') \<Longrightarrow> co_Symbol c = ToUpper (TrimSpace s)" for c w w'
    by (auto simp: fetchCompany_def split: prod.splits sum.splits)
  have ps: "fetchDailyPrices order a s w = (Inr ps, w') \<Longrightarrow> sorted_wrt (<) (map dp_Date ps)" for ps w w'
    using fetchDailyPrices_Inr [of "\<lambda>m. m" a s w ps w'] strict_dates [OF price_loop_distinct]
    by (auto simp: fetchDailyPrices_order [OF assms])
  note st = fetchStatements_periods [OF _ parse_periods(1)] fetchStatements_periods [OF _ parse_periods(2)]
    fetchStatements_periods [OF _ parse_periods(3)]
  show ?thesis
    unfolding FetchCompanySnapshot_def provider_error_def [symmetric]
    by (auto split: prod.splits sum.splits dest: co ps st fetch_errors)
qed

theorem snapshot_contract_witness:
  "\<exists>e. fst (FetchCompanySnapshot rev (NewAlphaVantage (\<lambda>url w. (Inl (Foreign ''timeout''), w)) ''k'') ''AAPL'' ()) = Inl e \<and>
     (errors_Is e ErrProviderFailed \<or> errors_Is e ErrRateLimited \<or> errors_Is e provider_ErrInvalidSymbol)"
proof -
  let ?a = "NewAlphaVantage (\<lambda>url w. (Inl (Foreign ''timeout''), w)) ''k''"
  have "\<exists>e. fst (FetchCompanySnapshot rev ?a ''AAPL'' ()) = Inl e"
    by (auto simp: FetchCompanySnapshot_def fetchCompany_def query_def NewAlphaVantage_def Let_def split: sum.splits prod.splits)
  with snapshot_contract [where order = rev and a = ?a and s = "''AAPL''" and w = "()"] show ?thesis by (auto split: prod.splits)
qed

section \<open>Published prices arrive exactly\<close>

lemma num_char_space:
  "\<forall>p \<in> set space_encodings. \<forall>c s'. p = c # s' \<longrightarrow> \<not> num_char c"
  "\<forall>p \<in> set (map rev space_encodings). \<forall>c s'. p = c # s' \<longrightarrow> \<not> num_char c"
  by (auto simp: space_encodings_def num_char_iff)

lemma parseNum_chars:
  assumes "list_all num_char s" "s \<noteq> []"
  shows "parseNum s = (case ParseFloat s of None \<Rightarrow> 0 | Some v \<Rightarrow> v)"
proof -
  have "filter (\<lambda>c. c \<noteq> CHR '','') s = s" using assms(1) by (auto simp: list_all_iff num_char_def is_digit10_iff intro!: filter_True)
  moreover have "TrimSpace s = s"
    using assms(1) match_front_None [OF num_char_space(1), of s] match_front_None [OF num_char_space(2), of "rev s"]
    by (simp add: TrimSpace_def strip_None)
  ultimately show ?thesis using assms(2) by (simp add: parseNum_def)
qed

text \<open>
  Decimal text, read independently of the program: digits with an optional fraction stand for the rational
  number of school arithmetic. Trailing zeros and any number of digits are allowed.
\<close>

definition digits_value :: "string \<Rightarrow> nat" where
  "digits_value s = foldl (\<lambda>n c. 10 * n + (of_char c - 48)) 0 s"

definition decimal_text :: "string \<times> string \<Rightarrow> string" where
  "decimal_text d = (case d of (ip, fp) \<Rightarrow> if fp = [] then ip else ip @ ''.'' @ fp)"

definition decimal_value :: "string \<times> string \<Rightarrow> rat" where
  "decimal_value d = (case d of (ip, fp) \<Rightarrow> of_nat (digits_value (ip @ fp)) / 10 ^ length fp)"

definition decimal_digits :: string where "decimal_digits = ''0123456789''"

definition decimal_ok :: "string \<times> string \<Rightarrow> bool" where
  "decimal_ok d \<longleftrightarrow> (case d of (ip, fp) \<Rightarrow> ip \<noteq> [] \<and> length ip \<le> 300 \<and> set (ip @ fp) \<subseteq> set decimal_digits)"

lemma decimal_digit: "c \<in> set decimal_digits \<longleftrightarrow> is_digit 10 c"
proof -
  have "map of_char decimal_digits = [48..<58::nat]" by (simp add: decimal_digits_def upt_rec)
  then have "c \<in> set decimal_digits \<longleftrightarrow> of_char c \<in> {48..<58::nat}" using mem_codes [of c decimal_digits] by (simp only: set_upt)
  then show ?thesis by (auto simp: is_digit10_iff)
qed

lemma mantissa_of_digits:
  assumes "list_all (is_digit 10) s"
  shows "mantissa 10 (int n) s = int (foldl (\<lambda>n c. 10 * n + (of_char c - 48)) n s)"
  using assms
proof (induction s arbitrary: n)
  case (Cons c s)
  then have c: "48 \<le> (of_char c :: nat)" "of_char c \<le> (57 :: nat)" by (simp_all add: is_digit10_iff)
  then have "lower_char c = c" by (simp add: lower_char_def)
  with c have "base_digit 10 c = Some (int (of_char c - 48))" by (simp add: base_digit_def Let_def of_nat_diff)
  with Cons.IH [of "10 * n + (of_char c - 48)"] Cons.prems show ?case by (simp add: algebra_simps)
qed simp

lemma digits_value_bound:
  assumes "list_all (is_digit 10) s"
  shows "foldl (\<lambda>n c. 10 * n + (of_char c - 48)) n s < (n + 1) * (10 :: nat) ^ length s"
  using assms
proof (induction s arbitrary: n)
  case (Cons c s)
  then have "of_char c \<le> (57 :: nat)" by (simp add: is_digit10_iff)
  then have "(10 * n + (of_char c - 48) + 1) * 10 ^ length s \<le> ((n + 1) * 10) * 10 ^ length s" by (intro mult_right_mono) simp_all
  with Cons.IH [of "10 * n + (of_char c - 48)"] Cons.prems show ?case by (simp add: algebra_simps)
qed simp

lemma read_decimal:
  assumes "list_all (is_digit 10) ip" "list_all (is_digit 10) fp" "ip \<noteq> []"
  shows "read_number 10 (CHR ''e'') (decimal_text (ip, fp)) = Some (decimal_value (ip, fp))"
proof -
  have p: "\<not> is_digit 10 (CHR ''.'')" by (simp add: is_digit10_iff)
  have t: "takeWhile (is_digit 10) ip = ip" "dropWhile (is_digit 10) ip = []" "takeWhile (is_digit 10) fp = fp" "dropWhile (is_digit 10) fp = []"
    "takeWhile (is_digit 10) (ip @ CHR ''.'' # fp) = ip" "dropWhile (is_digit 10) (ip @ CHR ''.'' # fp) = CHR ''.'' # fp"
    using assms p by (simp_all add: list_all_iff takeWhile_append2 dropWhile_append2)
  have m: "mantissa 10 0 (ip @ fp) = int (digits_value (ip @ fp))"
    using mantissa_of_digits [of "ip @ fp" 0] assms by (simp add: digits_value_def)
  show ?thesis
    using assms(3) m
    by (cases "fp = []") (simp_all add: read_number_def decimal_text_def decimal_value_def t len_def power_int_minus divide_inverse del: takeWhile.simps dropWhile.simps)
qed

lemma parseNum_decimal:
  assumes "decimal_ok d"
  shows "parseNum (decimal_text d) = round64 (decimal_value d) \<and> is_finite (round64 (decimal_value d)) \<and> 0 \<le> decimal_value d"
proof -
  obtain ip fp where d: "d = (ip, fp)" by force
  with assms have ds: "list_all (is_digit 10) ip" "list_all (is_digit 10) fp" and ip: "ip \<noteq> []" "length ip \<le> 300"
    by (auto simp: decimal_ok_def list_all_iff decimal_digit [symmetric])
  let ?q = "decimal_value d"
  have q0: "0 \<le> ?q" by (simp add: decimal_value_def d)
  have "digits_value (ip @ fp) < 10 ^ length (ip @ fp)"
    using digits_value_bound [of "ip @ fp" 0] ds by (simp add: digits_value_def)
  then have "rat_of_nat (digits_value (ip @ fp)) < of_nat (10 ^ length (ip @ fp))" by (simp only: of_nat_less_iff)
  then have "?q < 10 ^ length ip" by (simp add: decimal_value_def d divide_less_eq power_add)
  also have "\<dots> \<le> 10 ^ 300" using ip(2) by (intro power_increasing) simp_all
  also have "\<dots> \<le> 2 ^ 1023" by simp
  finally have "\<bar>?q\<bar> \<le> 2 ^ 1023" using q0 by (simp only: abs_of_nonneg less_imp_le)
  then have fin: "is_finite (round64 ?q)" unfolding round64_finite by (rule rv_bounded)
  obtain c t where ct: "decimal_text d = c # t" "is_digit 10 c" using ds(1) ip(1) that by (cases ip; cases "fp = []") (auto simp: d decimal_text_def)
  have nc: "list_all num_char (decimal_text d)" using ds by (auto simp: d decimal_text_def list_all_iff num_char_def)
  have "ParseFloat (decimal_text d) = (case rnd False ?q of Fin s m \<Rightarrow> Some (Fin s m) | _ \<Rightarrow> None)"
    using ParseFloat_number [of c t ?q False] nc ct read_decimal [OF ds ip(1)] by (simp add: d)
  moreover have "rnd False ?q = round64 ?q" using q0 by (simp add: round64_def)
  ultimately have "ParseFloat (decimal_text d) = Some (round64 ?q)" using fin by (cases "round64 ?q") simp_all
  with fin q0 ct(1) parseNum_chars [OF nc] show ?thesis by simp
qed

lemma parseNum_volume:
  assumes "decimal_ok (v, [])" "digits_value v \<le> 2 ^ 53"
  shows "int64_of (parseNum v) = int (digits_value v)"
proof -
  have p: "parseNum v = round64 (of_int (int (digits_value v)))"
    using parseNum_decimal [OF assms(1)] by (simp add: decimal_text_def decimal_value_def)
  have "is_finite (f64 (int (digits_value v))) \<and> fval (f64 (int (digits_value v))) = of_int (int (digits_value v))"
    using assms(2) by (intro f64_exact) simp
  then obtain s m where f: "parseNum v = Fin s m" "(if s then - m else m) = of_int (int (digits_value v))"
    unfolding p f64_def by (cases "round64 (of_int (int (digits_value v)))") auto
  have "(if s then - \<lfloor>m\<rfloor> else \<lfloor>m\<rfloor>) = int (digits_value v)"
  proof (cases s)
    case True
    with f(2) have "m = of_int (- int (digits_value v))" by simp
    with True show ?thesis by (simp only: floor_of_int if_True minus_minus)
  qed (use f(2) in simp)
  with f(1) assms(2) show ?thesis by (simp add: Let_def)
qed

text \<open>
  A row as the vendor publishes it: a day, four prices as decimal text and a volume in digits. In the reply it is a
  member of the series, named by the day, with the five texts under their names.
\<close>

record published =
  pub_Day :: time
  pub_Open :: "string \<times> string"
  pub_High :: "string \<times> string"
  pub_Low :: "string \<times> string"
  pub_Close :: "string \<times> string"
  pub_Volume :: string

definition published_ok :: "published \<Rightarrow> bool" where
  "published_ok r \<longleftrightarrow> 0 \<le> year (pub_Day r) \<and> year (pub_Day r) \<le> 9999 \<and> pub_Day r mod (86400 * 10 ^ 9) = 0 \<and>
     decimal_ok (pub_Open r) \<and> decimal_ok (pub_High r) \<and> decimal_ok (pub_Low r) \<and> decimal_ok (pub_Close r) \<and>
     decimal_ok (pub_Volume r, []) \<and> digits_value (pub_Volume r) \<le> 2 ^ 53"

definition published_texts :: "published \<Rightarrow> priceRecord" where
  "published_texts r = \<lparr>pr_Open = decimal_text (pub_Open r), pr_High = decimal_text (pub_High r), pr_Low = decimal_text (pub_Low r),
     pr_Close = decimal_text (pub_Close r), pr_Volume = pub_Volume r\<rparr>"

text \<open>What the row means: every price the float64 nearest to its decimal value, the volume exact.\<close>

definition published_price :: "published \<Rightarrow> DailyPrice" where
  "published_price r = \<lparr>dp_Date = pub_Day r, dp_Open = round64 (decimal_value (pub_Open r)),
     dp_High = round64 (decimal_value (pub_High r)), dp_Low = round64 (decimal_value (pub_Low r)),
     dp_Close = round64 (decimal_value (pub_Close r)), dp_Volume = int (digits_value (pub_Volume r))\<rparr>"

definition record_json :: "priceRecord \<Rightarrow> json" where
  "record_json r = JObj [(''1. open'', JStr (pr_Open r)), (''2. high'', JStr (pr_High r)), (''3. low'', JStr (pr_Low r)),
     (''4. close'', JStr (pr_Close r)), (''5. volume'', JStr (pr_Volume r))]"

definition series_json :: "published list \<Rightarrow> json" where
  "series_json rs = JObj (map (\<lambda>r. (dateFormat (pub_Day r), record_json (published_texts r))) rs)"

text \<open>Names of further members of the reply that mean nothing to the program, such as \<^verbatim>\<open>Meta Data\<close>.\<close>

definition ignored_name :: "string \<Rightarrow> bool" where
  "ignored_name k \<longleftrightarrow> fold_name k \<notin> fold_name ` {''Error Message'', ''Note'', ''Information'', ''Time Series (Daily)''}"

lemma published_date: "published_ok r \<Longrightarrow> ParseDate (dateFormat (pub_Day r)) = Some (pub_Day r)"
  by (simp add: published_ok_def ParseDate_dateFormat)

lemma price_loop_published:
  assumes "\<forall>r \<in> set rs. published_ok r"
  shows "price_loop (map (\<lambda>r. (dateFormat (pub_Day r), published_texts r)) rs) = map published_price rs"
  using assms
proof (induction rs)
  case (Cons r rs)
  then have r: "published_ok r" by simp
  from published_date [OF r] Cons r show ?case
    by (simp add: published_texts_def published_price_def published_ok_def parseNum_decimal parseNum_volume)
qed simp

lemma dec_record: "dec_struct price_fields (record_json r) zero_priceRecord = (r, True)"
  unfolding dec_struct_def record_json_def json.case foldl.simps
  by (simp add: dec_member_hit price_fields_def field_def dec_string_def zero_priceRecord_def)

lemma dec_series:
  assumes "distinct (map fst rs)"
  shows "dec_map (dec_struct price_fields) zero_priceRecord (JObj (map (\<lambda>(k, r). (k, record_json r)) rs)) [] = (rs, True)"
proof -
  have "foldl (\<lambda>(m, ok) (k, v). let (x, ok') = dec_struct price_fields v zero_priceRecord in (AList.update k x m, ok \<and> ok'))
      (old, True) (map (\<lambda>(k, r). (k, record_json r)) rs) = (old @ rs, True)"
    if "distinct (map fst (old @ rs))" for old
    using that
  proof (induction rs arbitrary: old)
    case (Cons kr rs)
    obtain k r where kr: "kr = (k, r)" by (cases kr)
    have "AList.update k r old = old @ [(k, r)]" if "k \<notin> fst ` set old" for old
      using that by (induction old) auto
    with Cons kr show ?case by (simp add: dec_record)
  qed simp
  from this [of "[]"] assms show ?thesis by (simp add: dec_map_def)
qed

lemma query_reply:
  assumes "list_all visible (av_baseURL a)"
    and "av_client a (av_baseURL a @ ''?'' @ Encode_params (params @ [(''apikey'', av_apiKey a)])) w =
      (Inr \<lparr>res_StatusCode = 200, res_Body = body, res_BodyErr = None\<rparr>, w')"
    and "length body < body_limit" "envelope_error body = None" "json_Unmarshal dec zero body = Inr v"
  shows "query a params dec zero w = (Inr v, w')"
proof -
  have "NewRequest (av_baseURL a @ ''?'' @ Encode_params ps) = Inr ()" for ps
    using assms(1) by (intro NewRequest_visible) (simp add: visible_Encode visible_def [of "CHR ''?''"])
  then show ?thesis using assms(2-) by (simp add: query_def ReadAll_def Let_def)
qed

lemma fold_name_length:
  assumes "ascii s" "ascii t" "length s \<noteq> length t"
  shows "fold_name s \<noteq> fold_name t"
proof -
  have "length (fold_name s) = length s" if "ascii s" for s
    using that
  proof (induction s)
    case (Cons c s)
    then have "c \<noteq> byte 0xC5" "c \<noteq> byte 0xE2" by (auto simp: ascii_def)
    with Cons show ?case by (simp add: ascii_def)
  qed simp
  with assms show ?thesis by metis
qed

lemma find_field_ignored: "fold_name k \<notin> (fold_name \<circ> fst) ` set flds \<Longrightarrow> find_field flds k = None"
proof -
  assume a: "fold_name k \<notin> (fold_name \<circ> fst) ` set flds"
  then have "map_of flds k = None" by (auto simp: map_of_eq_None_iff)
  moreover have "find (\<lambda>(n, f). fold_name n = fold_name k) flds = None" using a by (force simp: find_None_iff)
  ultimately show ?thesis by (simp add: find_field_def)
qed

lemma dec_members_ignored:
  assumes "\<forall>m \<in> set ms. find_field flds (fst m) = None"
  shows "foldl (dec_member flds) st ms = st"
  using assms by (induction ms arbitrary: st) (simp_all add: dec_member_def)

lemma reply_decoded:
  assumes body: "parse_json body = Some (JObj (pre @ (''Time Series (Daily)'', series_json rs) # post))"
    and other: "\<forall>m \<in> set (pre @ post). ignored_name (fst m)"
    and rs: "\<forall>r \<in> set rs. published_ok r" "distinct (map pub_Day rs)"
  shows "envelope_error body = None"
    and "json_Unmarshal (dec_struct daily_fields) \<lparr>dr_TimeSeries = []\<rparr> body =
      Inr \<lparr>dr_TimeSeries = map (\<lambda>r. (dateFormat (pub_Day r), published_texts r)) rs\<rparr>"
proof -
  let ?rs = "map (\<lambda>r. (dateFormat (pub_Day r), published_texts r)) rs"
  have e: "find_field env_fields (fst m) = None" "find_field daily_fields (fst m) = None" if "m \<in> set (pre @ post)" for m
    using other that unfolding ignored_name_def
    by (intro find_field_ignored; unfold env_fields_def daily_fields_def; fastforce simp del: fold_name.simps)+
  have "find_field env_fields ''Time Series (Daily)'' = None"
    by (simp add: find_field_def env_fields_def fold_name_length ascii_def del: fold_name.simps)
  with e(1) show "envelope_error body = None"
    by (simp add: envelope_error_def json_Unmarshal_def body dec_struct_def dec_members_ignored dec_member_def [of _ _ "(''Time Series (Daily)'', _)"])
  have m: "find_field daily_fields ''Time Series (Daily)'' = Some (field dr_TimeSeries (\<lambda>v. dr_TimeSeries_update (\<lambda>_. v))
        (dec_map (dec_struct price_fields) zero_priceRecord))"
    by (simp add: find_field_def daily_fields_def)
  have "inj_on (\<lambda>r. dateFormat (pub_Day r)) (set rs)"
  proof (rule inj_onI)
    fix p q assume "p \<in> set rs" "q \<in> set rs" "dateFormat (pub_Day p) = dateFormat (pub_Day q)"
    moreover from this(1,2) rs(1) have "published_ok p" "published_ok q" by auto
    ultimately have "pub_Day p = pub_Day q" using published_date by (metis option.inject)
    moreover have "inj_on pub_Day (set rs)" using rs(2) by (simp add: distinct_map)
    ultimately show "p = q" using \<open>p \<in> set rs\<close> \<open>q \<in> set rs\<close> by (simp add: inj_on_def)
  qed
  then have "distinct (map fst ?rs)" using rs(2) by (simp add: distinct_map comp_def)
  from dec_series [OF this] have "dec_map (dec_struct price_fields) zero_priceRecord (series_json rs) [] = (?rs, True)"
    by (simp add: series_json_def comp_def)
  with e(2) m show "json_Unmarshal (dec_struct daily_fields) \<lparr>dr_TimeSeries = []\<rparr> body = Inr \<lparr>dr_TimeSeries = ?rs\<rparr>"
    by (simp add: json_Unmarshal_def body dec_struct_def [of daily_fields] dec_members_ignored
        dec_member_def [of _ _ "(''Time Series (Daily)'', _)"] field_def)
qed

text \<open>
  C14. Published prices are read as what they say. When the endpoint of the daily series answers the request with status 200 and, within
  the size limit, any JSON text of an object that has the series under \<^verbatim>\<open>Time Series (Daily)\<close>, and otherwise
  only members the program does not know, where each row has the five documented texts, prices in decimal
  notation with any number of decimals and volumes in digits up to \<open>2^53\<close>, then fetching returns one row per day,
  sorted by day: every price the float64 nearest to the published decimal, every volume exact.
\<close>
theorem daily_prices_read:
  assumes "client (''https://www.alphavantage.co/query?'' @
        Encode_params [(''function'', ''TIME_SERIES_DAILY''), (''symbol'', symbol), (''apikey'', key)]) w =
      (Inr \<lparr>res_StatusCode = 200, res_Body = body, res_BodyErr = None\<rparr>, w')"
    and "parse_json body = Some (JObj (pre @ (''Time Series (Daily)'', series_json rs) # post))" and "length body < body_limit"
    and "\<forall>m \<in> set (pre @ post). ignored_name (fst m)"
    and "\<forall>r \<in> set rs. published_ok r" and "distinct (map pub_Day rs)" and "\<And>m. mset (order m) = mset m"
  shows "fetchDailyPrices order (NewAlphaVantage client key) symbol w = (Inr (sort_key dp_Date (map published_price rs)), w')"
proof -
  let ?a = "NewAlphaVantage client key"
  have "query ?a [(''function'', ''TIME_SERIES_DAILY''), (''symbol'', symbol)] (dec_struct daily_fields) \<lparr>dr_TimeSeries = []\<rparr> w =
      (Inr \<lparr>dr_TimeSeries = map (\<lambda>r. (dateFormat (pub_Day r), published_texts r)) rs\<rparr>, w')"
    using reply_decoded [OF assms(2,4,5,6)] assms(1,3)
    by (intro query_reply) (simp_all add: NewAlphaVantage_def, simp add: visible_def)
  then show ?thesis
    unfolding fetchDailyPrices_order [of order, OF assms(7)] by (simp add: fetchDailyPrices_def price_loop_published [OF assms(5)])
qed

text \<open>The reply of the repository's own test, \<^verbatim>\<open>alpha_vantage_test.go\<close>, lines 32 to 35, white space included.\<close>

definition qt :: "string \<Rightarrow> string" where "qt s = [CHR 0x22] @ s @ [CHR 0x22]"

definition tabs :: "nat \<Rightarrow> string" where "tabs n = CHR 0x0A # replicate n (CHR 0x09)"

definition test_day :: "string \<Rightarrow> string \<Rightarrow> string \<Rightarrow> string \<Rightarrow> string \<Rightarrow> string \<Rightarrow> string" where
  "test_day d op h l c v = qt d @ '':{'' @ qt ''1. open'' @ '':'' @ qt op @ '','' @ qt ''2. high'' @ '':'' @ qt h @ '','' @
     qt ''3. low'' @ '':'' @ qt l @ '','' @ qt ''4. close'' @ '':'' @ qt c @ '','' @ qt ''5. volume'' @ '':'' @ qt v @ ''}''"

definition test_reply :: string where
  "test_reply = ''{'' @ qt ''Time Series (Daily)'' @ '':{'' @
     tabs 4 @ test_day ''2024-01-03'' ''190.50'' ''192.60'' ''189.70'' ''191.20'' ''71234567'' @ '','' @
     tabs 4 @ test_day ''2024-01-02'' ''188.40'' ''190.20'' ''187.90'' ''190.00'' ''68451234'' @ tabs 3 @ ''}}''"

text \<open>The day \<open>d\<close> of January 2024, in nanoseconds from the first day of year 1.\<close>

definition jan_2024 :: "int \<Rightarrow> time" where "jan_2024 d = (738884 + d) * (86400 * 10 ^ 9)"

definition test_rows :: "published list" where
  "test_rows =
     [\<lparr>pub_Day = jan_2024 3, pub_Open = (''190'', ''50''), pub_High = (''192'', ''60''), pub_Low = (''189'', ''70''), pub_Close = (''191'', ''20''),
       pub_Volume = ''71234567''\<rparr>,
      \<lparr>pub_Day = jan_2024 2, pub_Open = (''188'', ''40''), pub_High = (''190'', ''20''), pub_Low = (''187'', ''90''), pub_Close = (''190'', ''00''),
       pub_Volume = ''68451234''\<rparr>]"

definition plain_char :: "char \<Rightarrow> bool" where
  "plain_char c \<longleftrightarrow> c \<noteq> CHR 0x22 \<and> c \<noteq> CHR 0x5C \<and> 32 \<le> (of_char c :: nat) \<and> of_char c < (128 :: nat)"

lemma lex_plain: "list_all plain_char s \<Longrightarrow> lex_string (s @ CHR 0x22 # r) = Some (s, r)"
proof (induction s)
  case (Cons c s)
  then show ?case by (subst lex_string.simps) (simp add: next_char_def plain_char_def)
qed (simp add: lex_string.simps)

lemma lex_steps:
  "is_ws c \<Longrightarrow> lex_json (c # r) = lex_json r"
  "punct c = Some t \<Longrightarrow> lex_json (c # r) = map_option ((#) t) (lex_json r)"
  "list_all plain_char s \<Longrightarrow> lex_json (qt s @ r) = map_option ((#) (TStr s)) (lex_json r)"
  "lex_json (tabs n @ r) = lex_json r"
proof -
  show ws: "lex_json (c # r) = lex_json r" if "is_ws c" for c r
    using that by (subst lex_json.simps) simp
  show "lex_json (c # r) = map_option ((#) t) (lex_json r)" if "punct c = Some t"
  proof -
    have "\<not> is_ws c" using that by (auto simp: punct_def is_ws_def split: if_splits)
    with that show ?thesis by (subst lex_json.simps) (simp add: next_token_def split: option.split)
  qed
  show "lex_json (qt s @ r) = map_option ((#) (TStr s)) (lex_json r)" if "list_all plain_char s"
  proof -
    have "utf8_fix s = s" using that by (intro utf8_fix_ascii) (auto simp: ascii_def list_all_iff plain_char_def)
    moreover have "\<not> is_ws (CHR 0x22)" "punct (CHR 0x22) = None" by (simp_all add: is_ws_def punct_def)
    ultimately show ?thesis using lex_plain [OF that, of r]
      unfolding qt_def by (subst lex_json.simps) (simp add: next_token_def split: option.split)
  qed
  have "lex_json (replicate n (CHR 0x09) @ r) = lex_json r" by (induction n) (simp_all add: ws is_ws_def)
  then show "lex_json (tabs n @ r) = lex_json r" by (simp add: tabs_def ws is_ws_def)
qed

lemma test_dates: "dateFormat (jan_2024 3) = ''2024-01-03''" "dateFormat (jan_2024 2) = ''2024-01-02''"
  "year (jan_2024 3) = 2024" "year (jan_2024 2) = 2024"
  by code_simp+

lemma test_parsed: "parse_json test_reply = Some (JObj ([] @ (''Time Series (Daily)'', series_json test_rows) # []))"
proof -
  have p: "punct (CHR ''{'') = Some TLBrace" "punct (CHR ''}'') = Some TRBrace" "punct (CHR '':'') = Some TColon" "punct (CHR '','') = Some TComma"
    by (simp_all add: punct_def)
  have e: "lex_json [] = Some []" by (simp add: lex_json.simps)
  show ?thesis
    by (simp add: parse_json_def test_reply_def test_day_def lex_steps p e plain_char_def series_json_def test_rows_def test_dates
        record_json_def published_texts_def decimal_text_def)
qed

lemma test_rows_ok: "\<forall>r \<in> set test_rows. published_ok r" "distinct (map pub_Day test_rows)" "length test_reply < body_limit"
proof -
  show "\<forall>r \<in> set test_rows. published_ok r"
    by (simp add: test_rows_def published_ok_def test_dates decimal_ok_def decimal_digits_def digits_value_def, simp add: jan_2024_def)
  show "distinct (map pub_Day test_rows)" by (simp add: test_rows_def jan_2024_def)
  show "length test_reply < body_limit" by (simp add: test_reply_def test_day_def qt_def tabs_def body_limit_def)
qed

theorem daily_prices_read_witness:
  "fetchDailyPrices rev (NewAlphaVantage (\<lambda>url w. (Inr \<lparr>res_StatusCode = 200, res_Body = test_reply, res_BodyErr = None\<rparr>, w)) ''k'') ''AAPL'' () =
     (Inr [\<lparr>dp_Date = jan_2024 2, dp_Open = round64 (1884 / 10), dp_High = round64 (1902 / 10), dp_Low = round64 (1879 / 10),
            dp_Close = round64 190, dp_Volume = 68451234\<rparr>,
           \<lparr>dp_Date = jan_2024 3, dp_Open = round64 (1905 / 10), dp_High = round64 (1926 / 10), dp_Low = round64 (1897 / 10),
            dp_Close = round64 (1912 / 10), dp_Volume = 71234567\<rparr>], ())"
proof -
  have "sort_key dp_Date (map published_price test_rows) = [published_price (test_rows ! 1), published_price (test_rows ! 0)]"
    by (simp add: test_rows_def published_price_def jan_2024_def)
  moreover have "published_price (test_rows ! 1) = \<lparr>dp_Date = jan_2024 2, dp_Open = round64 (1884 / 10), dp_High = round64 (1902 / 10),
      dp_Low = round64 (1879 / 10), dp_Close = round64 190, dp_Volume = 68451234\<rparr>"
    "published_price (test_rows ! 0) = \<lparr>dp_Date = jan_2024 3, dp_Open = round64 (1905 / 10), dp_High = round64 (1926 / 10),
      dp_Low = round64 (1897 / 10), dp_Close = round64 (1912 / 10), dp_Volume = 71234567\<rparr>"
    by (simp_all add: test_rows_def published_price_def decimal_value_def digits_value_def)
  ultimately show ?thesis
    using daily_prices_read [OF _ test_parsed test_rows_ok(3) _ test_rows_ok(1,2), where order = rev and symbol = "''AAPL''" and key = "''k''"
        and client = "\<lambda>url w. (Inr \<lparr>res_StatusCode = 200, res_Body = test_reply, res_BodyErr = None\<rparr>, w)" and w = "()" and w' = "()"]
    by simp
qed

end
