(* ===== verification/Ingest_System.thy ===== *)
theory Ingest_System
  imports Freshness
begin

text \<open>
  The ingestion command on the database: the integrity of the tables and the audit trail under any
  failures, what an undisturbed run stores, and that running it again changes nothing.
\<close>

section \<open>Audit and integrity\<close>

interpretation world_audit: audit_store "world_DataStore (repo_DataStore pg)" "\<lambda>w. t_runs (w_db w)" run_row
  "\<lambda>w. db_faults (w_db w) = []" for pg
proof
  show "RecordRun (world_DataStore (repo_DataStore pg)) run w = (ru, w') \<Longrightarrow>
      (ru = Inr () \<longrightarrow> t_runs (w_db w') = t_runs (w_db w) @ [run_row run]) \<and>
      t_runs (w_db w') \<in> {t_runs (w_db w), t_runs (w_db w) @ [run_row run]} \<and> (db_faults (w_db w) = [] \<longrightarrow> ru = Inr ())"
    for run w ru w'
    using repo_audit.record_run [of pg run "w_db w" ru "w_db w'"] by (auto simp: world_DataStore_def on_db_eq)
qed (use repo_audit.upsert_runs repo_audit.prices_runs repo_audit.income_runs repo_audit.balance_runs repo_audit.cash_runs
      in \<open>auto simp: world_DataStore_def on_db_eq\<close>)

lemma cmd_service [simp]:
  "ing_store (cmd_IngestionService provider pg) = world_DataStore (repo_DataStore pg)"
  "ing_cache (cmd_IngestionService provider pg) = None" "ing_provider (cmd_IngestionService provider pg) = provider"
  by (simp_all add: cmd_IngestionService_def NewIngestionService_def len_def)

lemma Ingest_world_audited:
  assumes "Ingest env (cmd_IngestionService provider pg) symbol w = ((run, err), w')" "normalizeSymbol symbol = Inr nsym"
    and "\<And>w. w_db (snd (Now env w)) = w_db w" and "\<And>s w. w_db (snd (provider s w)) = w_db w"
  shows "run_Symbol run = nsym \<and>
    (\<exists>ru w1. t_runs (w_db w1) = t_runs (w_db w) \<and> (db_faults (w_db w) = [] \<longrightarrow> db_faults (w_db w1) = []) \<and>
      RecordRun (world_DataStore (repo_DataStore pg)) run w1 = (ru, w') \<and>
      (case err of
         None \<Rightarrow> run_Status run = ''success'' \<and> run_ErrorMessage run = [] \<and> ru = Inr ()
       | Some e \<Rightarrow> run_Status run = ''failure'' \<and> run_ErrorMessage run = Error_text e \<or>
           run_Status run = ''success'' \<and> run_ErrorMessage run = [] \<and>
             (\<exists>re. ru = Inl re \<and> e = wrap_text ''ingestion succeeded but audit failed'' re)))"
  using world_audit.Ingest_audited [OF assms(1,2) cmd_service(1)] assms(3,4) by auto

text \<open>
  C24. Every attempt is recorded once and truthfully. Whatever fails, a run of the ingestion command on an acceptable
  symbol ends with exactly one attempt to record, as the last thing it does, the very run it returns, on
  an audit table that it has not touched before: the row is appended, or the database failed the
  statement. Without an error the row is there with status success and no message; an error is recorded
  as a failure with its text, or it is the recording itself that failed after everything was stored. As
  long as no statement fails the row is always appended, for a failed fetch as well. An unacceptable symbol
  records nothing and touches nothing. The row holds the run's symbol, status, message, times and counts, except
  the number of cash flow rows, which the statement does not store.
\<close>
theorem ingest_audit_trail:
  assumes "Ingest env (cmd_IngestionService provider pg) symbol w = ((run, err), w')"
    and "\<And>w. w_db (snd (Now env w)) = w_db w" and "\<And>s w. w_db (snd (provider s w)) = w_db w"
  shows "case normalizeSymbol symbol of
      Inl e \<Rightarrow> run = zero_IngestionRun \<and> err = Some e \<and> w' = w
    | Inr nsym \<Rightarrow> run_Symbol run = nsym \<and>
        (\<exists>ru w1. t_runs (w_db w1) = t_runs (w_db w) \<and> RecordRun (world_DataStore (repo_DataStore pg)) run w1 = (ru, w') \<and>
          (case ru of
             Inr _ \<Rightarrow> t_runs (w_db w') = t_runs (w_db w) @ [run_row run]
           | Inl _ \<Rightarrow> db_faults (w_db w) \<noteq> [] \<and> t_runs (w_db w') \<in> {t_runs (w_db w), t_runs (w_db w) @ [run_row run]}) \<and>
          (case err of
             None \<Rightarrow> run_Status run = ''success'' \<and> run_ErrorMessage run = [] \<and> ru = Inr ()
           | Some e \<Rightarrow> run_Status run = ''failure'' \<and> run_ErrorMessage run = Error_text e \<or>
               run_Status run = ''success'' \<and> run_ErrorMessage run = [] \<and>
                 (\<exists>re. ru = Inl re \<and> e = wrap_text ''ingestion succeeded but audit failed'' re)))"
proof (cases "normalizeSymbol symbol")
  case (Inl e)
  with assms(1) show ?thesis by (auto simp: Ingest_def)
next
  case (Inr nsym)
  from Ingest_world_audited [OF assms(1) Inr assms(2,3)] obtain ru w1 where
    r: "run_Symbol run = nsym" "t_runs (w_db w1) = t_runs (w_db w)" "db_faults (w_db w) = [] \<longrightarrow> db_faults (w_db w1) = []"
      "RecordRun (world_DataStore (repo_DataStore pg)) run w1 = (ru, w')"
    and e: "case err of
         None \<Rightarrow> run_Status run = ''success'' \<and> run_ErrorMessage run = [] \<and> ru = Inr ()
       | Some e \<Rightarrow> run_Status run = ''failure'' \<and> run_ErrorMessage run = Error_text e \<or>
           run_Status run = ''success'' \<and> run_ErrorMessage run = [] \<and>
             (\<exists>re. ru = Inl re \<and> e = wrap_text ''ingestion succeeded but audit failed'' re)" by blast
  have "case ru of Inr _ \<Rightarrow> t_runs (w_db w') = t_runs (w_db w) @ [run_row run]
      | Inl _ \<Rightarrow> db_faults (w_db w) \<noteq> [] \<and> t_runs (w_db w') \<in> {t_runs (w_db w), t_runs (w_db w) @ [run_row run]}"
    using world_audit.record_run [OF r(4)] r(2,3) by (cases ru) auto
  with Inr r e show ?thesis by auto
qed

theorem ingest_audit_trail_witness:
  "\<exists>run e w'. Ingest still_Env (cmd_IngestionService (\<lambda>s w. (Inl (Foreign ''down''), w)) plain_pg) ''AAPL'' blank_world = ((run, Some e), w') \<and>
     run_Status run = ''failure'' \<and> t_runs (w_db w') = [run_row run]"
proof -
  have n: "normalizeSymbol ''AAPL'' = Inr ''AAPL''" by (rule normalizeSymbol_fixed) code_simp
  obtain run e w' where i: "Ingest still_Env (cmd_IngestionService (\<lambda>s w. (Inl (Foreign ''down''), w)) plain_pg) ''AAPL'' blank_world =
      ((run, Some e), w')" and s: "run_Status run = ''failure''"
    by (simp add: Ingest_def n ingest_fail_def still_Env_def Let_def case_prod_beta)
  have p: "\<And>w. w_db (snd (Now still_Env w)) = w_db w" by (simp add: still_Env_def)
  have "run_Symbol run = ''AAPL'' \<and> (\<exists>ru w1. t_runs (w_db w1) = t_runs (w_db blank_world) \<and>
      RecordRun (world_DataStore (repo_DataStore plain_pg)) run w1 = (ru, w') \<and>
      (case ru of Inr _ \<Rightarrow> t_runs (w_db w') = t_runs (w_db blank_world) @ [run_row run]
       | Inl _ \<Rightarrow> db_faults (w_db blank_world) \<noteq> [] \<and>
           t_runs (w_db w') \<in> {t_runs (w_db blank_world), t_runs (w_db blank_world) @ [run_row run]}) \<and>
      (case Some e of
         None \<Rightarrow> run_Status run = ''success'' \<and> run_ErrorMessage run = [] \<and> ru = Inr ()
       | Some e \<Rightarrow> run_Status run = ''failure'' \<and> run_ErrorMessage run = Error_text e \<or>
           run_Status run = ''success'' \<and> run_ErrorMessage run = [] \<and>
             (\<exists>re. ru = Inl re \<and> e = wrap_text ''ingestion succeeded but audit failed'' re)))"
    using ingest_audit_trail [OF i p] unfolding n sum.case by simp
  then obtain ru :: "unit ret" where
    "case ru of Inr _ \<Rightarrow> t_runs (w_db w') = t_runs (w_db blank_world) @ [run_row run]
       | Inl _ \<Rightarrow> db_faults (w_db blank_world) \<noteq> [] \<and>
           t_runs (w_db w') \<in> {t_runs (w_db blank_world), t_runs (w_db blank_world) @ [run_row run]}" by blast
  then have "t_runs (w_db w') = [run_row run]" by (cases ru) (simp_all add: blank_world_def blank_db_def)
  with i s show ?thesis by blast
qed

lemma world_store_inv:
  assumes "db_inv (w_db w)"
  shows "UpsertCompany (world_DataStore (repo_DataStore pg)) c w = (ri, w') \<Longrightarrow> db_inv (w_db w')"
    and "InsertPrices (world_DataStore (repo_DataStore pg)) i ps w = (ri, w') \<Longrightarrow> db_inv (w_db w')"
    and "InsertIncomeStatements (world_DataStore (repo_DataStore pg)) i xs w = (ri, w') \<Longrightarrow> db_inv (w_db w')"
    and "InsertBalanceSheets (world_DataStore (repo_DataStore pg)) i bs w = (ri, w') \<Longrightarrow> db_inv (w_db w')"
    and "InsertCashFlows (world_DataStore (repo_DataStore pg)) i fs w = (ri, w') \<Longrightarrow> db_inv (w_db w')"
    and "RecordRun (world_DataStore (repo_DataStore pg)) run w = (ru, w') \<Longrightarrow> db_inv (w_db w')"
  unfolding world_DataStore_def repo_DataStore_def
  by (auto simp: on_db_eq dest: repo_UpsertCompany_inv [OF assms] repo_InsertPrices_inv [OF assms]
      repo_InsertIncomeStatements_inv [OF assms] repo_InsertBalanceSheets_inv [OF assms]
      repo_InsertCashFlows_inv [OF assms] repo_RecordRun_inv [OF assms])

text \<open>
  Ingestion keeps the database sound. From tables that satisfy the keys and references of the schema, a
  run of the ingestion command leaves tables that do, whatever the symbol, whatever the provider delivers
  and wherever statements are refused or connections break.
\<close>
theorem ingest_keeps_integrity:
  assumes "db_inv (w_db w)"
    and "\<And>w. w_db (snd (Now env w)) = w_db w" and "\<And>s w. w_db (snd (provider s w)) = w_db w"
  shows "db_inv (w_db (snd (Ingest env (cmd_IngestionService provider pg) symbol w)))"
proof (cases "normalizeSymbol symbol")
  case (Inl e)
  then show ?thesis using assms(1) by (simp add: Ingest_def)
next
  case (Inr nsym)
  let ?s = "cmd_IngestionService provider pg" and ?P = "\<lambda>w. db_inv (w_db w)"
  have now: "w_db w' = w_db w" if "Now env w = (t, w')" for w t w' using assms(2) [of w] that by simp
  have fetch: "w_db w' = w_db w" if "provider n w = (r, w')" for n w r w' using assms(3) [of n w] that by simp
  have "\<exists>run' w1. ?P w1 \<and> run_Symbol run' = nsym \<and> run_ErrorMessage run' = [] \<and>
    (Ingest env ?s symbol w = ingest_finish env ?s nsym run' w1 \<or>
     (\<exists>e. Ingest env ?s symbol w = ingest_fail env (ing_store ?s) run' ''failure'' (Some e) w1))"
    using assms(1) Inr now fetch by (intro Ingest_outcome [where P = ?P]) (auto dest: world_store_inv)
  then obtain run' w1 where "?P w1"
    and "Ingest env ?s symbol w = ingest_finish env ?s nsym run' w1 \<or>
      (\<exists>e. Ingest env ?s symbol w = ingest_fail env (world_DataStore (repo_DataStore pg)) run' ''failure'' (Some e) w1)"
    unfolding cmd_service by blast
  moreover have "?P (snd (ingest_finish env ?s nsym run' w1))" if "?P w1"
    using that now world_store_inv(6)
    by (auto simp: ingest_finish_def invalidate_def Let_def split: prod.splits sum.splits) metis+
  moreover have "?P (snd (ingest_fail env (world_DataStore (repo_DataStore pg)) run' k (Some e) w1))" if "?P w1" for k e
    using that now world_store_inv(6) by (auto simp: ingest_fail_def Let_def split: prod.splits) metis+
  ultimately show ?thesis by auto
qed

theorem ingest_keeps_integrity_witness:
  "db_inv (w_db (snd (Ingest still_Env (cmd_IngestionService (\<lambda>s w. (Inl (Foreign ''down''), w)) plain_pg) ''AAPL'' blank_world)))"
  by (rule ingest_keeps_integrity)
    (simp_all add: still_Env_def blank_world_def blank_db_def db_inv_def companies_inv_def rows_inv_def keys_inv_def)

section \<open>What a run stores\<close>

text \<open>
  The specification of a run on the tables: the company under its symbol, keeping the id it has, and the
  valid rows of the snapshot under that id, first \<open>n\<close> tables out of four.
\<close>

definition company_id :: "Company \<Rightarrow> db \<Rightarrow> int" where
  "company_id c d = (case find (\<lambda>(j, r). co_Symbol r = co_Symbol c) (t_companies d) of Some (j, r) \<Rightarrow> j | None \<Rightarrow> seq_companies d)"

definition put_rows :: "(int \<times> 'r \<Rightarrow> 'k) \<Rightarrow> int \<Rightarrow> ('x \<Rightarrow> 'r) \<Rightarrow> 'x list \<Rightarrow> (int \<times> 'r) list \<Rightarrow> (int \<times> 'r) list" where
  "put_rows key i row xs t = snd (insert_nothing key (map (\<lambda>x. (i, row x)) xs) t)"

definition put_tables :: "Pg \<Rightarrow> CompanySnapshot \<Rightarrow> int \<Rightarrow> nat \<Rightarrow> db \<Rightarrow> db" where
  "put_tables pg snap i n d = d\<lparr>
     t_prices := (if 1 \<le> n then put_rows price_key i (price_row pg) (validPrices (snap_Prices snap)) (t_prices d) else t_prices d),
     t_income := (if 2 \<le> n then put_rows income_key i (income_row pg) (validIncomeStatements (snap_Income snap)) (t_income d) else t_income d),
     t_balance := (if 3 \<le> n then put_rows balance_key i (balance_row pg) (validBalanceSheets (snap_Balance snap)) (t_balance d) else t_balance d),
     t_cash := (if 4 \<le> n then put_rows cash_key i (cash_row pg) (validCashFlows (snap_CashFlow snap)) (t_cash d) else t_cash d)\<rparr>"

definition store_snapshot :: "Pg \<Rightarrow> CompanySnapshot \<Rightarrow> nat \<Rightarrow> db \<Rightarrow> db" where
  "store_snapshot pg snap n d =
     put_tables pg snap (company_id (snap_Company snap) d) n (snd (upsert_stmt (snap_Company snap) d))"

text \<open>The tables of the program's data, without the audit trail, the id sequence and the faults ahead.\<close>

definition data_of :: "db \<Rightarrow> (int \<times> Company) list \<times> (int \<times> DailyPrice) list \<times> (int \<times> IncomeStatement) list \<times>
    (int \<times> BalanceSheet) list \<times> (int \<times> CashFlow) list" where
  "data_of d = (t_companies d, t_prices d, t_income d, t_balance d, t_cash d)"

lemma upsert_fst: "fst (upsert_stmt c d) = Inr (company_id c d)"
  by (auto simp: upsert_stmt_def company_id_def Let_def split: option.splits)

lemma put_rows_idem: "put_rows key i row xs (put_rows key i row xs t) = put_rows key i row xs t"
  unfolding put_rows_def by (subst insert_nothing_idem) (simp_all add: insert_nothing_keys)

lemma put_rows_Nil [simp]: "put_rows key i row [] t = t"
  by (simp add: put_rows_def)

lemma upsert_twice:
  "company_id c (snd (upsert_stmt c d)) = company_id c d"
  "t_companies (snd (upsert_stmt c (snd (upsert_stmt c d)))) = t_companies (snd (upsert_stmt c d))"
proof -
  let ?P = "\<lambda>(j::int, r). co_Symbol r = co_Symbol c"
  have f: "find ?P (map (\<lambda>(k, r). (k, if co_Symbol r = co_Symbol c then c else r)) t) =
      map_option (\<lambda>(k, r). (k, c)) (find ?P t)" for t
    by (induction t) (auto split: if_splits)
  have a: "find ?P (t @ [(i, c)]) = Some (i, c)" if "find ?P t = None" for t i
    using that by (induction t) (auto split: if_splits)
  have m: "map (\<lambda>(k, r). (k, if co_Symbol r = co_Symbol c then c else r)) t = t" if "find ?P t = None" for t :: "(int \<times> Company) list"
    using that by (induction t) (auto split: if_splits)
  show "company_id c (snd (upsert_stmt c d)) = company_id c d"
    by (cases "find ?P (t_companies d)") (auto simp: company_id_def upsert_stmt_def Let_def f a split: prod.splits)
  show "t_companies (snd (upsert_stmt c (snd (upsert_stmt c d)))) = t_companies (snd (upsert_stmt c d))"
    by (cases "find ?P (t_companies d)") (auto simp: upsert_stmt_def Let_def f a m split: prod.splits)
qed

lemma upsert_fields [simp]:
  "t_prices (snd (upsert_stmt c d)) = t_prices d" "t_income (snd (upsert_stmt c d)) = t_income d"
  "t_balance (snd (upsert_stmt c d)) = t_balance d" "t_cash (snd (upsert_stmt c d)) = t_cash d"
  "t_runs (snd (upsert_stmt c d)) = t_runs d" "db_faults (snd (upsert_stmt c d)) = db_faults d"
  by (auto simp: upsert_stmt_def Let_def split: option.splits)

lemma upsert_congs:
  assumes "t_companies d' = t_companies d" "seq_companies d' = seq_companies d"
  shows "company_id c d' = company_id c d"
    and "t_companies (snd (upsert_stmt c d')) = t_companies (snd (upsert_stmt c d))"
  using assms by (auto simp: company_id_def upsert_stmt_def Let_def split: option.splits)

lemma store_fields [simp]:
  "t_companies (store_snapshot pg snap n d) = t_companies (snd (upsert_stmt (snap_Company snap) d))"
  "seq_companies (store_snapshot pg snap n d) = seq_companies (snd (upsert_stmt (snap_Company snap) d))"
  "t_runs (store_snapshot pg snap n d) = t_runs d"
  by (simp_all add: store_snapshot_def put_tables_def)

lemma store_zero: "store_snapshot pg snap 0 d = snd (upsert_stmt (snap_Company snap) d)"
proof -
  have "put_tables pg snap i 0 d = d" for i d by (cases d) (simp add: put_tables_def)
  then show ?thesis by (simp add: store_snapshot_def)
qed

lemma data_congs:
  assumes "data_of d' = data_of d" "seq_companies d' = seq_companies d"
  shows "data_of (store_snapshot pg snap m d') = data_of (store_snapshot pg snap m d)"
  using assms upsert_congs [of d' d "snap_Company snap"]
  by (simp add: data_of_def store_snapshot_def put_tables_def)

text \<open>Storing a snapshot over a part of itself gives what storing it once gives.\<close>

lemma store_again:
  assumes "n \<le> m"
  shows "data_of (store_snapshot pg snap m (store_snapshot pg snap n d)) = data_of (store_snapshot pg snap m d)"
proof -
  let ?c = "snap_Company snap" and ?d = "store_snapshot pg snap n d"
  have "company_id ?c ?d = company_id ?c d"
    "t_companies (snd (upsert_stmt ?c ?d)) = t_companies (snd (upsert_stmt ?c d))"
    using upsert_congs [of ?d "snd (upsert_stmt ?c d)" ?c] upsert_twice [of ?c d] by simp_all
  with assms show ?thesis
    by (simp add: data_of_def store_snapshot_def [of pg snap m] put_tables_def)
      (simp add: store_snapshot_def put_tables_def put_rows_idem)
qed

text \<open>What one call does to the tables: all of its statement, or nothing and then it reports an error.\<close>

lemma exec_effect:
  assumes f: "\<And>d fs. stmt (d\<lparr>db_faults := fs\<rparr>) = (fst (stmt d), (snd (stmt d))\<lparr>db_faults := fs\<rparr>)"
  shows "db_view (snd (exec_sql stmt d)) = db_view (snd (stmt d)) \<and>
      (\<forall>x. fst (exec_sql stmt d) = Inr x \<longrightarrow> fst (stmt d) = Inr x) \<or>
    db_view (snd (exec_sql stmt d)) = db_view d \<and> (\<exists>e. fst (exec_sql stmt d) = Inl e)"
proof (cases rule: exec_sql_cases [of stmt d])
  case (ok fs)
  then show ?thesis unfolding f by (simp add: db_view_def)
next
  case (refused e fs)
  then show ?thesis by (simp add: db_view_def)
next
  case (broken e fs)
  then show ?thesis unfolding f by (simp add: db_view_def)
qed

lemma exec_calm: "db_faults d = [] \<Longrightarrow> exec_sql stmt d = stmt d"
  by (simp add: exec_sql_def next_fault_def)

lemma upsert_faults: "upsert_stmt c (d\<lparr>db_faults := fs\<rparr>) = (fst (upsert_stmt c d), (snd (upsert_stmt c d))\<lparr>db_faults := fs\<rparr>)"
  by (auto simp: upsert_stmt_def Let_def split: option.splits)

lemma company_present: "company_id c d \<in> fst ` set (t_companies (snd (upsert_stmt c d)))"
proof (cases "find (\<lambda>(j, r). co_Symbol r = co_Symbol c) (t_companies d)")
  case (Some p)
  then have "p \<in> set (t_companies d)" unfolding find_Some_iff by (metis nth_mem)
  with Some show ?thesis by (force simp: company_id_def upsert_stmt_def Let_def split: prod.splits)
qed (simp add: company_id_def upsert_stmt_def Let_def)

lemma insert_nothing_eq: "insert_nothing key rs t = (len (snd (insert_nothing key rs t)) - len t, snd (insert_nothing key rs t))"
  using insert_nothing_append [of key rs t] by (auto simp: prod_eq_iff len_def)

text \<open>On the tables of a run that has filled \<open>n\<close> tables the next statement fills the next one and counts its new rows.\<close>

lemma bulk_on_store:
  assumes "i = company_id (snap_Company snap) d"
  shows "bulk_insert price_key t_prices t_prices_update i (map (\<lambda>p. (i, price_row pg p)) (validPrices (snap_Prices snap)))
      (store_snapshot pg snap 0 d) = (Inr (len (t_prices (store_snapshot pg snap 4 d)) - len (t_prices d)), store_snapshot pg snap 1 d)"
    and "bulk_insert income_key t_income t_income_update i (map (\<lambda>p. (i, income_row pg p)) (validIncomeStatements (snap_Income snap)))
      (store_snapshot pg snap 1 d) = (Inr (len (t_income (store_snapshot pg snap 4 d)) - len (t_income d)), store_snapshot pg snap 2 d)"
    and "bulk_insert balance_key t_balance t_balance_update i (map (\<lambda>p. (i, balance_row pg p)) (validBalanceSheets (snap_Balance snap)))
      (store_snapshot pg snap 2 d) = (Inr (len (t_balance (store_snapshot pg snap 4 d)) - len (t_balance d)), store_snapshot pg snap 3 d)"
    and "bulk_insert cash_key t_cash t_cash_update i (map (\<lambda>p. (i, cash_row pg p)) (validCashFlows (snap_CashFlow snap)))
      (store_snapshot pg snap 3 d) = (Inr (len (t_cash (store_snapshot pg snap 4 d)) - len (t_cash d)), store_snapshot pg snap 4 d)"
  using company_present [of "snap_Company snap" d] assms
  by (subst bulk_insert_def, subst insert_nothing_eq, simp add: store_snapshot_def put_tables_def put_rows_def)+

text \<open>A guarded call takes effect, or it reports an error; undisturbed it takes effect.\<close>

definition guarded :: "bool \<Rightarrow> string \<Rightarrow> (db \<Rightarrow> int ret \<times> db) \<Rightarrow> (world, int) call" where
  "guarded skip m stmt w = (if skip then (Inr 0, w) else on_db (\<lambda>d. wrap_error m (exec_sql stmt d)) w)"

lemma guarded_effect:
  assumes f: "\<And>d fs. stmt (d\<lparr>db_faults := fs\<rparr>) = (fst (stmt d), (snd (stmt d))\<lparr>db_faults := fs\<rparr>)"
    and s: "stmt s = (Inr n, s')" and skip: "skip \<Longrightarrow> s' = s" and v: "db_view (w_db w) = db_view s"
    and e: "guarded skip m stmt w = (r, w')"
  shows "db_view (w_db w') = db_view s' \<or> db_view (w_db w') = db_view s \<and> (\<exists>x. r = Inl x)"
proof (cases skip)
  case True
  with e v skip show ?thesis by (simp add: guarded_def)
next
  case False
  have "db_view (snd (stmt e)) = db_view (snd (stmt (db_view e)))" for e unfolding db_view_def f by simp
  from this [of "w_db w"] this [of s] v s have "db_view (snd (stmt (w_db w))) = db_view s'" by simp
  with exec_effect [of stmt "w_db w", OF f] e v False show ?thesis
    by (auto simp: guarded_def on_db_eq wrap_error_def split: prod.splits sum.splits)
qed

lemma guarded_calm:
  assumes "stmt (w_db w) = (Inr n, s')" "skip \<Longrightarrow> s' = w_db w \<and> n = 0" "db_faults (w_db w) = []"
  shows "guarded skip m stmt w = (Inr n, w\<lparr>w_db := s'\<rparr>)"
  using assms by (auto simp: guarded_def on_db_def exec_calm)

lemma store_skip:
  "validPrices (snap_Prices snap) = [] \<Longrightarrow> store_snapshot pg snap 1 d = store_snapshot pg snap 0 d \<and>
     t_prices (store_snapshot pg snap n d) = t_prices d"
  "validIncomeStatements (snap_Income snap) = [] \<Longrightarrow> store_snapshot pg snap 2 d = store_snapshot pg snap 1 d \<and>
     t_income (store_snapshot pg snap n d) = t_income d"
  "validBalanceSheets (snap_Balance snap) = [] \<Longrightarrow> store_snapshot pg snap 3 d = store_snapshot pg snap 2 d \<and>
     t_balance (store_snapshot pg snap n d) = t_balance d"
  "validCashFlows (snap_CashFlow snap) = [] \<Longrightarrow> store_snapshot pg snap 4 d = store_snapshot pg snap 3 d \<and>
     t_cash (store_snapshot pg snap n d) = t_cash d"
  by (simp_all add: store_snapshot_def put_tables_def)

lemma world_calls:
  "UpsertCompany (world_DataStore (repo_DataStore pg)) c w = on_db (\<lambda>d. wrap_error ''upsert company'' (exec_sql (upsert_stmt c) d)) w"
  "(if 0 < len x0 then InsertPrices (world_DataStore (repo_DataStore pg)) i x0 w else (Inr 0, w)) = guarded (x0 = []) ''insert prices''
     (bulk_insert price_key t_prices t_prices_update i (map (\<lambda>p. (i, price_row pg p)) x0)) w"
  "(if 0 < len x1 then InsertIncomeStatements (world_DataStore (repo_DataStore pg)) i x1 w else (Inr 0, w)) = guarded (x1 = []) ''insert income statements''
     (bulk_insert income_key t_income t_income_update i (map (\<lambda>p. (i, income_row pg p)) x1)) w"
  "(if 0 < len x2 then InsertBalanceSheets (world_DataStore (repo_DataStore pg)) i x2 w else (Inr 0, w)) = guarded (x2 = []) ''insert balance sheets''
     (bulk_insert balance_key t_balance t_balance_update i (map (\<lambda>p. (i, balance_row pg p)) x2)) w"
  "(if 0 < len x3 then InsertCashFlows (world_DataStore (repo_DataStore pg)) i x3 w else (Inr 0, w)) = guarded (x3 = []) ''insert cash flow statements''
     (bulk_insert cash_key t_cash t_cash_update i (map (\<lambda>p. (i, cash_row pg p)) x3)) w"
  by (simp_all add: world_DataStore_def repo_DataStore_def guarded_def len_def on_db_def inserts_eq upsert_eq)

text \<open>The states a run passes through: nothing yet, or the company and the first \<open>n\<close> tables.\<close>

definition reached :: "Pg \<Rightarrow> CompanySnapshot \<Rightarrow> db \<Rightarrow> db \<Rightarrow> bool" where
  "reached pg snap d e \<longleftrightarrow> db_view e = db_view d \<or> (\<exists>n \<le> 4. db_view e = db_view (store_snapshot pg snap n d))"

lemma reachedI: "n \<le> 4 \<Longrightarrow> db_view e = db_view (store_snapshot pg snap n d) \<Longrightarrow> reached pg snap d e"
  unfolding reached_def by blast

lemma ingest_statements_reached:
  fixes provider :: "string \<Rightarrow> (world, CompanySnapshot) call" and pg :: Pg
  defines "svc \<equiv> cmd_IngestionService provider pg"
  assumes i: "i = company_id (snap_Company snap) d" and w: "db_view (w_db w) = db_view (store_snapshot pg snap 1 d)"
  shows "\<exists>run' w1. reached pg snap d (w_db w1) \<and>
    (ingest_statements env svc nsym i snap run w = ingest_finish env svc nsym run' w1 \<or>
     (\<exists>e. ingest_statements env svc nsym i snap run w =
       ingest_fail env (world_DataStore (repo_DataStore pg)) run' ''failure'' (Some e) w1))"
proof -
  let ?b1 = "\<lambda>x. bulk_insert income_key t_income t_income_update i (map (\<lambda>p. (i, income_row pg p)) x)"
  let ?b2 = "\<lambda>x. bulk_insert balance_key t_balance t_balance_update i (map (\<lambda>p. (i, balance_row pg p)) x)"
  let ?b3 = "\<lambda>x. bulk_insert cash_key t_cash t_cash_update i (map (\<lambda>p. (i, cash_row pg p)) x)"
  define x1 where "x1 = validIncomeStatements (snap_Income snap)"
  define x2 where "x2 = validBalanceSheets (snap_Balance snap)"
  define x3 where "x3 = validCashFlows (snap_CashFlow snap)"
  note st = bulk_on_store(2-4) [OF i, of pg, folded x1_def x2_def x3_def]
  note sk = store_skip(2-4) [of snap pg d, folded x1_def x2_def x3_def]
  obtain r1 w1 where 1: "guarded (x1 = []) ''insert income statements'' (?b1 x1) w = (r1, w1)" by force
  obtain r2 w2 where 2: "guarded (x2 = []) ''insert balance sheets'' (?b2 x2) w1 = (r2, w2)" by force
  obtain r3 w3 where 3: "guarded (x3 = []) ''insert cash flow statements'' (?b3 x3) w2 = (r3, w3)" by force
  have e1: "db_view (w_db w1) = db_view (store_snapshot pg snap 2 d) \<or>
      db_view (w_db w1) = db_view (store_snapshot pg snap 1 d) \<and> (\<exists>x. r1 = Inl x)"
    using guarded_effect [where stmt = "?b1 x1", OF bulk_insert_faults(2) st(1) _ w 1] sk by blast
  have e2: "db_view (w_db w1) = db_view (store_snapshot pg snap 2 d) \<Longrightarrow> db_view (w_db w2) = db_view (store_snapshot pg snap 3 d) \<or>
      db_view (w_db w2) = db_view (store_snapshot pg snap 2 d) \<and> (\<exists>x. r2 = Inl x)"
    using guarded_effect [where stmt = "?b2 x2", OF bulk_insert_faults(3) st(2) _ _ 2] sk by blast
  have e3: "db_view (w_db w2) = db_view (store_snapshot pg snap 3 d) \<Longrightarrow> db_view (w_db w3) = db_view (store_snapshot pg snap 4 d) \<or>
      db_view (w_db w3) = db_view (store_snapshot pg snap 3 d) \<and> (\<exists>x. r3 = Inl x)"
    using guarded_effect [where stmt = "?b3 x3", OF bulk_insert_faults(4) st(3) _ _ 3] sk by blast
  have c1: "reached pg snap d (w_db w1)" using e1 by (auto intro: reachedI [of 2] reachedI [of 1])
  have c2: "r1 = Inr n \<Longrightarrow> reached pg snap d (w_db w2)" for n using e1 e2 by (auto intro: reachedI [of 3] reachedI [of 2])
  have c3: "r1 = Inr n \<Longrightarrow> r2 = Inr m \<Longrightarrow> reached pg snap d (w_db w3)" for n m
    using e1 e2 e3 by (auto intro: reachedI [of 4] reachedI [of 3])
  note eq = svc_def ingest_statements_def Let_def cmd_service world_calls x1_def [symmetric] x2_def [symmetric] x3_def [symmetric]
    1 2 3 prod.case sum.case
  show ?thesis
  proof (cases r1)
    case (Inl e)
    show ?thesis unfolding eq Inl using c1 by blast
  next
    case r1: (Inr n)
    show ?thesis
    proof (cases r2)
      case (Inl e)
      show ?thesis unfolding eq r1 Inl using c2 [OF r1] by blast
    next
      case r2: (Inr m)
      show ?thesis unfolding eq r1 r2 using c3 [OF r1 r2] by (cases r3; simp only: sum.case) blast+
    qed
  qed
qed

lemma Ingest_reached:
  fixes provider :: "string \<Rightarrow> (world, CompanySnapshot) call" and pg :: Pg
  defines "svc \<equiv> cmd_IngestionService provider pg"
  assumes n: "normalizeSymbol symbol = Inr nsym"
    and now: "\<And>w. w_db (snd (Now env w)) = w_db w" and prov: "\<And>s w. w_db (snd (provider s w)) = w_db w"
    and snap: "\<And>x. fst (provider nsym (snd (Now env w))) = Inr x \<Longrightarrow> x = snap"
  shows "\<exists>run' w1. reached pg snap (w_db w) (w_db w1) \<and>
    (Ingest env svc symbol w = ingest_finish env svc nsym run' w1 \<or>
     (\<exists>e. Ingest env svc symbol w = ingest_fail env (world_DataStore (repo_DataStore pg)) run' ''failure'' (Some e) w1))"
proof -
  let ?d = "w_db w" and ?c = "snap_Company snap" and ?ps = "validPrices (snap_Prices snap)"
  obtain t w1 where 1: "Now env w = (t, w1)" by force
  have w1: "w_db w1 = ?d" using now [of w] 1 by simp
  obtain r2 w2 where 2: "provider nsym w1 = (r2, w2)" by force
  have w2: "w_db w2 = ?d" using prov [of nsym w1] 2 w1 by simp
  note eq = svc_def Ingest_def n Let_def 1 prod.case sum.case cmd_service 2
  show ?thesis
  proof (cases r2)
    case (Inl e)
    have "reached pg snap ?d (w_db w2)" by (simp add: w2 reached_def)
    then show ?thesis unfolding eq Inl by blast
  next
    case (Inr x)
    with snap [of x] 1 2 have r2: "r2 = Inr snap" by simp
    obtain r3 w3 where 3: "on_db (\<lambda>d. wrap_error ''upsert company'' (exec_sql (upsert_stmt ?c) d)) w2 = (r3, w3)" by force
    have up: "db_view (snd (upsert_stmt ?c ?d)) = db_view (store_snapshot pg snap 0 ?d)"
      by (simp add: store_zero)
    from exec_effect [of "upsert_stmt ?c" ?d, OF upsert_faults] 3 w2
    have e3: "db_view (w_db w3) = db_view (store_snapshot pg snap 0 ?d) \<and> (\<forall>i. r3 = Inr i \<longrightarrow> i = company_id ?c ?d) \<or>
        db_view (w_db w3) = db_view ?d \<and> (\<exists>x. r3 = Inl x)"
      by (auto simp: on_db_eq wrap_error_def up upsert_fst split: prod.splits sum.splits)
    have c3: "reached pg snap ?d (w_db w3)" using e3 by (auto simp: reached_def)
    show ?thesis
    proof (cases r3)
      case (Inl e)
      show ?thesis unfolding eq r2 world_calls 3 Inl using c3 by blast
    next
      case r3: (Inr i)
      with e3 have i: "i = company_id ?c ?d" and v3: "db_view (w_db w3) = db_view (store_snapshot pg snap 0 ?d)" by auto
      show ?thesis
      proof (cases "?ps = []")
        case True
        then have len: "len ?ps = 0" by (simp add: len_def)
        show ?thesis unfolding eq r2 world_calls 3 r3 if_P [OF len] using c3 by blast
      next
        case False
        obtain r4 w4 where 4: "InsertPrices (world_DataStore (repo_DataStore pg)) i ?ps w3 = (r4, w4)" by force
        have "guarded (?ps = []) ''insert prices'' (bulk_insert price_key t_prices t_prices_update i (map (\<lambda>p. (i, price_row pg p)) ?ps)) w3 = (r4, w4)"
          using world_calls(2) [of ?ps pg i w3] 4 False by (simp add: len_def)
        from guarded_effect [where stmt = "bulk_insert price_key t_prices t_prices_update i (map (\<lambda>p. (i, price_row pg p)) ?ps)",
            OF bulk_insert_faults(1) bulk_on_store(1) [OF i] _ v3 this]
        have e4: "db_view (w_db w4) = db_view (store_snapshot pg snap 1 ?d) \<or>
            db_view (w_db w4) = db_view (store_snapshot pg snap 0 ?d) \<and> (\<exists>x. r4 = Inl x)" using False by blast
        have len: "\<not> len ?ps = 0" using False by (simp add: len_def)
        show ?thesis
        proof (cases r4)
          case (Inl e)
          have "reached pg snap ?d (w_db w4)" using e4 by (auto intro: reachedI [of 1] reachedI [of 0])
          then show ?thesis unfolding eq r2 world_calls 3 r3 if_not_P [OF len] 4 Inl by blast
        next
          case (Inr m)
          with e4 have "db_view (w_db w4) = db_view (store_snapshot pg snap 1 ?d)" by auto
          from ingest_statements_reached [OF i this] show ?thesis
            unfolding eq r2 world_calls(1) 3 r3 if_not_P [OF len] 4 Inr by blast
        qed
      qed
    qed
  qed
qed

text \<open>Completing a run changes the audit table and, at most, the faults ahead.\<close>

lemma world_RecordRun_data:
  assumes "RecordRun (world_DataStore (repo_DataStore pg)) run w = (r, w')"
  shows "data_of (w_db w') = data_of (w_db w) \<and> seq_companies (w_db w') = seq_companies (w_db w)"
  using assms
  by (cases rule: exec_sql_cases [of "\<lambda>d. (Inr (), d\<lparr>t_runs := t_runs d @ [run_row run]\<rparr>)" "w_db w"])
    (auto simp: world_DataStore_def repo_DataStore_def on_db_eq repo_RecordRun_def data_of_def)

lemma Ingest_leaves:
  fixes provider :: "string \<Rightarrow> (world, CompanySnapshot) call" and pg :: Pg
  defines "svc \<equiv> cmd_IngestionService provider pg"
  assumes "normalizeSymbol symbol = Inr nsym"
    and now: "\<And>w. w_db (snd (Now env w)) = w_db w" and "\<And>s w. w_db (snd (provider s w)) = w_db w"
    and "\<And>x. fst (provider nsym (snd (Now env w))) = Inr x \<Longrightarrow> x = snap"
  shows "\<exists>e. reached pg snap (w_db w) e \<and> data_of (w_db (snd (Ingest env svc symbol w))) = data_of e \<and>
    seq_companies (w_db (snd (Ingest env svc symbol w))) = seq_companies e"
proof -
  have n: "w_db w' = w_db w" if "Now env w = (t, w')" for w t w' using now [of w] that by simp
  have "data_of (w_db (snd (ingest_finish env svc nsym run w))) = data_of (w_db w) \<and>
      seq_companies (w_db (snd (ingest_finish env svc nsym run w))) = seq_companies (w_db w)" for run w
    by (auto simp: svc_def ingest_finish_def invalidate_def Let_def dest!: world_RecordRun_data n split: prod.splits sum.splits)
  moreover have "data_of (w_db (snd (ingest_fail env (world_DataStore (repo_DataStore pg)) run k e w))) = data_of (w_db w) \<and>
      seq_companies (w_db (snd (ingest_fail env (world_DataStore (repo_DataStore pg)) run k e w))) = seq_companies (w_db w)" for run k e w
    by (auto simp: ingest_fail_def Let_def dest!: world_RecordRun_data n split: prod.splits option.splits)
  moreover have "\<exists>run' w1. reached pg snap (w_db w) (w_db w1) \<and>
    (Ingest env svc symbol w = ingest_finish env svc nsym run' w1 \<or>
     (\<exists>e. Ingest env svc symbol w = ingest_fail env (world_DataStore (repo_DataStore pg)) run' ''failure'' (Some e) w1))"
    unfolding svc_def by (rule Ingest_reached [OF assms(2-4)]) (fact assms(5))
  ultimately show ?thesis by auto
qed

lemma reached_restored:
  assumes "reached pg snap d e" "data_of e' = data_of e" "seq_companies e' = seq_companies e"
  shows "data_of (store_snapshot pg snap 4 e') = data_of (store_snapshot pg snap 4 d)"
proof -
  have v: "data_of (db_view x) = data_of x \<and> seq_companies (db_view x) = seq_companies x" for x
    by (simp add: db_view_def data_of_def)
  from assms(1) show ?thesis unfolding reached_def
  proof (elim disjE exE conjE)
    assume "db_view e = db_view d"
    with v [of e] v [of d] assms(2,3) show ?thesis by (intro data_congs) simp_all
  next
    fix n assume "n \<le> 4" "db_view e = db_view (store_snapshot pg snap n d)"
    with v [of e] v [of "store_snapshot pg snap n d"] assms(2,3)
    have "data_of (store_snapshot pg snap 4 e') = data_of (store_snapshot pg snap 4 (store_snapshot pg snap n d))"
      by (intro data_congs) simp_all
    with store_again [OF \<open>n \<le> 4\<close>] show ?thesis by simp
  qed
qed

section \<open>What a run leaves alone\<close>

text \<open>Everything the tables hold about one symbol.\<close>

definition symbol_data :: "db \<Rightarrow> string \<Rightarrow> Company list \<times> DailyPrice list \<times> IncomeStatement list \<times> BalanceSheet list \<times> CashFlow list" where
  "symbol_data d t = (company_rows d t, rows_of d t (t_prices d), rows_of d t (t_income d), rows_of d t (t_balance d), rows_of d t (t_cash d))"

lemma symbol_data_cong: "data_of d' = data_of d \<Longrightarrow> symbol_data d' t = symbol_data d t"
  by (simp add: data_of_def symbol_data_def company_rows_def rows_of_def)

lemma symbol_data_results:
  assumes "symbol_data d' t = symbol_data d t"
  shows "db_analytics d' t = db_analytics d t \<and> db_technical d' t = db_technical d t"
  using assms
  by (simp add: symbol_data_def db_analytics_def db_technical_def view_company_def view_income_def view_balance_def
      statement_rows_def price_rows_def)

lemma upsert_other:
  assumes "t \<noteq> co_Symbol c"
  shows "filter (\<lambda>(j, r). J j \<and> co_Symbol r = t) (t_companies (snd (upsert_stmt c d))) =
    filter (\<lambda>(j, r). J j \<and> co_Symbol r = t) (t_companies d)"
proof -
  have "filter (\<lambda>(j, r). J j \<and> co_Symbol r = t) (map (\<lambda>(k, r). (k, if co_Symbol r = co_Symbol c then c else r)) cs) =
      filter (\<lambda>(j, r). J j \<and> co_Symbol r = t) cs" for cs :: "(int \<times> Company) list"
    using assms by (induction cs) auto
  with assms show ?thesis by (auto simp: upsert_stmt_def Let_def split: option.splits)
qed

lemma company_id_other:
  assumes "companies_inv d" "t \<noteq> co_Symbol c"
  shows "filter (\<lambda>(j, r). j = company_id c d \<and> co_Symbol r = t) (t_companies d) = []"
proof (cases "find (\<lambda>(j, r). co_Symbol r = co_Symbol c) (t_companies d)")
  case None
  with assms(1) show ?thesis by (auto simp: filter_empty_conv company_id_def companies_inv_def)
next
  case (Some p)
  then obtain j r where p: "p = (j, r)" "(j, r) \<in> set (t_companies d)" "co_Symbol r = co_Symbol c"
    unfolding find_Some_iff by (cases p) (metis (mono_tags, lifting) case_prod_conv nth_mem)
  with assms Some show ?thesis
    by (auto simp: filter_empty_conv company_id_def companies_inv_def dest: eq_key_imp_eq_value)
qed

lemma put_rows_other:
  assumes "companies_inv d" "t \<noteq> co_Symbol c"
  shows "rows_of d t (put_rows key (company_id c d) row xs T) = rows_of d t T"
proof -
  obtain new where n: "put_rows key (company_id c d) row xs T = T @ new" "set new \<subseteq> set (map (\<lambda>x. (company_id c d, row x)) xs)"
    unfolding put_rows_def using insert_nothing_append by metis
  have "rows_of d t new = []"
    using n(2) company_id_other [OF assms] by (auto simp: rows_of_def)
  with n(1) show ?thesis by (simp add: rows_of_def)
qed

text \<open>A snapshot is stored under its own symbol: what the tables hold about any other symbol stays as it is.\<close>

lemma store_other:
  assumes "companies_inv d" "t \<noteq> co_Symbol (snap_Company snap)"
  shows "symbol_data (store_snapshot pg snap n d) t = symbol_data d t"
proof -
  let ?c = "snap_Company snap"
  have r: "rows_of (store_snapshot pg snap n d) t T = rows_of d t T" for T :: "(int \<times> 'r) list"
    unfolding rows_of_def store_fields upsert_other [OF assms(2)] ..
  have "company_rows (store_snapshot pg snap n d) t = company_rows d t"
    using upsert_other [OF assms(2), of "\<lambda>_. True" d] by (simp add: company_rows_def)
  then show ?thesis unfolding symbol_data_def r
    by (simp add: store_snapshot_def put_tables_def put_rows_other [OF assms])
qed

lemma Ingest_other:
  assumes "companies_inv (w_db w)" and "normalizeSymbol symbol \<noteq> Inr t"
    and now: "\<And>w. w_db (snd (Now env w)) = w_db w" and fetch: "\<And>s w. w_db (snd (provider s w)) = w_db w"
    and sym: "\<And>s w x. fst (provider s w) = Inr x \<Longrightarrow> co_Symbol (snap_Company x) = s"
  shows "symbol_data (w_db (snd (Ingest env (cmd_IngestionService provider pg) symbol w))) t = symbol_data (w_db w) t"
proof (cases "normalizeSymbol symbol")
  case (Inl e)
  then show ?thesis by (simp add: Ingest_def)
next
  case (Inr nsym)
  define snap where "snap = (case fst (provider nsym (snd (Now env w))) of Inr x \<Rightarrow> x | Inl _ \<Rightarrow>
    undefined\<lparr>snap_Company := undefined\<lparr>co_Symbol := nsym\<rparr>\<rparr>)"
  have s: "co_Symbol (snap_Company snap) = nsym" using sym by (auto simp: snap_def split: sum.splits)
  have "\<exists>e. reached pg snap (w_db w) e \<and> data_of (w_db (snd (Ingest env (cmd_IngestionService provider pg) symbol w))) = data_of e \<and>
      seq_companies (w_db (snd (Ingest env (cmd_IngestionService provider pg) symbol w))) = seq_companies e"
    by (rule Ingest_leaves [OF Inr now fetch]) (simp add: snap_def)
  then obtain e where e: "reached pg snap (w_db w) e" "data_of (w_db (snd (Ingest env (cmd_IngestionService provider pg) symbol w))) = data_of e"
    by blast
  have v: "symbol_data (db_view x) t = symbol_data x t" for x by (rule symbol_data_cong) (simp add: data_of_def db_view_def)
  have "symbol_data e t = symbol_data (w_db w) t"
    using e(1) store_other [OF assms(1), of t snap pg] assms(2) Inr s unfolding reached_def by (metis v)
  with symbol_data_cong [OF e(2)] show ?thesis by simp
qed

section \<open>Undisturbed and repeated runs\<close>

lemma store_faults [simp]: "db_faults (store_snapshot pg snap n d) = db_faults d"
  by (simp add: store_snapshot_def put_tables_def)

lemma ingest_statements_calm:
  fixes provider :: "string \<Rightarrow> (world, CompanySnapshot) call" and pg :: Pg
  defines "svc \<equiv> cmd_IngestionService provider pg"
  assumes i: "i = company_id (snap_Company snap) d" and w: "w_db w = store_snapshot pg snap 1 d" and f: "db_faults d = []"
  shows "\<exists>run'. ingest_statements env svc nsym i snap run w = ingest_finish env svc nsym run' (w\<lparr>w_db := store_snapshot pg snap 4 d\<rparr>) \<and>
    run_Symbol run' = run_Symbol run \<and> run_PricesInserted run' = run_PricesInserted run \<and>
    run_CompaniesInserted run' = run_CompaniesInserted run \<and> run_ErrorMessage run' = run_ErrorMessage run \<and>
    (run_IncomeInserted run = 0 \<longrightarrow> run_IncomeInserted run' = len (t_income (store_snapshot pg snap 4 d)) - len (t_income d)) \<and>
    (run_BalanceInserted run = 0 \<longrightarrow> run_BalanceInserted run' = len (t_balance (store_snapshot pg snap 4 d)) - len (t_balance d)) \<and>
    (run_CashFlowInserted run = 0 \<longrightarrow> run_CashFlowInserted run' = len (t_cash (store_snapshot pg snap 4 d)) - len (t_cash d))"
proof -
  define x1 where "x1 = validIncomeStatements (snap_Income snap)"
  define x2 where "x2 = validBalanceSheets (snap_Balance snap)"
  define x3 where "x3 = validCashFlows (snap_CashFlow snap)"
  note st = bulk_on_store(2-4) [OF i, of pg, folded x1_def x2_def x3_def]
  note sk = store_skip(2-4) [of snap pg d, folded x1_def x2_def x3_def]
  have 1: "guarded (x1 = []) ''insert income statements'' (bulk_insert income_key t_income t_income_update i (map (\<lambda>p. (i, income_row pg p)) x1)) w =
    (Inr (len (t_income (store_snapshot pg snap 4 d)) - len (t_income d)), w\<lparr>w_db := store_snapshot pg snap 2 d\<rparr>)"
    using st(1) sk(1) w f by (intro guarded_calm) simp_all
  have 2: "guarded (x2 = []) ''insert balance sheets'' (bulk_insert balance_key t_balance t_balance_update i (map (\<lambda>p. (i, balance_row pg p)) x2))
      (w\<lparr>w_db := store_snapshot pg snap 2 d\<rparr>) =
    (Inr (len (t_balance (store_snapshot pg snap 4 d)) - len (t_balance d)), (w\<lparr>w_db := store_snapshot pg snap 2 d\<rparr>)\<lparr>w_db := store_snapshot pg snap 3 d\<rparr>)"
    using st(2) sk(2) f by (intro guarded_calm) simp_all
  have 3: "guarded (x3 = []) ''insert cash flow statements'' (bulk_insert cash_key t_cash t_cash_update i (map (\<lambda>p. (i, cash_row pg p)) x3))
      (w\<lparr>w_db := store_snapshot pg snap 3 d\<rparr>) =
    (Inr (len (t_cash (store_snapshot pg snap 4 d)) - len (t_cash d)), (w\<lparr>w_db := store_snapshot pg snap 3 d\<rparr>)\<lparr>w_db := store_snapshot pg snap 4 d\<rparr>)"
    using st(3) f sk(3) by (intro guarded_calm) simp_all
  have l: "0 < len x1 \<longleftrightarrow> x1 \<noteq> []" "0 < len x2 \<longleftrightarrow> x2 \<noteq> []" "0 < len x3 \<longleftrightarrow> x3 \<noteq> []" by (simp_all add: len_def)
  let ?s4 = "store_snapshot pg snap 4 d"
  define run1 where "run1 = (if 0 < len x1 then run\<lparr>run_IncomeInserted := len (t_income ?s4) - len (t_income d)\<rparr> else run)"
  define run2 where "run2 = (if 0 < len x2 then run1\<lparr>run_BalanceInserted := len (t_balance ?s4) - len (t_balance d)\<rparr> else run1)"
  define run3 where "run3 = (if 0 < len x3 then run2\<lparr>run_CashFlowInserted := len (t_cash ?s4) - len (t_cash d)\<rparr> else run2)"
  have "ingest_statements env svc nsym i snap run w = ingest_finish env svc nsym run3 (w\<lparr>w_db := ?s4\<rparr>)"
    unfolding svc_def ingest_statements_def Let_def cmd_service world_calls x1_def [symmetric] x2_def [symmetric] x3_def [symmetric]
      1 prod.case sum.case 2 using 3 by (simp add: run3_def run2_def run1_def)
  then show ?thesis
    using sk by (intro exI [of _ run3]) (auto simp: run3_def run2_def run1_def l)
qed

lemma Ingest_calm:
  fixes provider :: "string \<Rightarrow> (world, CompanySnapshot) call" and pg :: Pg
  defines "svc \<equiv> cmd_IngestionService provider pg"
  assumes n: "normalizeSymbol symbol = Inr nsym" and prices: "validPrices (snap_Prices snap) \<noteq> []"
    and now: "\<And>w. w_db (snd (Now env w)) = w_db w" and prov: "\<And>s w. w_db (snd (provider s w)) = w_db w"
    and snap: "\<And>s w. fst (provider s w) = Inr snap" and f: "db_faults (w_db w) = []"
  shows "\<exists>run w'. Ingest env svc symbol w = ((run, None), w') \<and> run_Symbol run = nsym \<and> run_Status run = ''success'' \<and>
    run_ErrorMessage run = [] \<and> run_CompaniesInserted run = 1 \<and>
    run_PricesInserted run = len (t_prices (w_db w')) - len (t_prices (w_db w)) \<and>
    run_IncomeInserted run = len (t_income (w_db w')) - len (t_income (w_db w)) \<and>
    run_BalanceInserted run = len (t_balance (w_db w')) - len (t_balance (w_db w)) \<and>
    run_CashFlowInserted run = len (t_cash (w_db w')) - len (t_cash (w_db w)) \<and>
    w_db w' = (store_snapshot pg snap 4 (w_db w))\<lparr>t_runs := t_runs (w_db w) @ [run_row run]\<rparr>"
proof -
  let ?d = "w_db w" and ?c = "snap_Company snap" and ?ps = "validPrices (snap_Prices snap)"
  obtain t w1 where 1: "Now env w = (t, w1)" by force
  obtain w2 where 2: "provider nsym w1 = (Inr snap, w2)" using snap [of nsym w1] by (metis prod.collapse)
  have w2: "w_db w2 = ?d" using prov [of nsym w1] now [of w] 1 2 by simp
  define i where "i = company_id ?c ?d"
  have 3: "on_db (\<lambda>d. wrap_error ''upsert company'' (exec_sql (upsert_stmt ?c) d)) w2 = (Inr i, w2\<lparr>w_db := store_snapshot pg snap 0 ?d\<rparr>)"
    using w2 f upsert_fst [of ?c ?d] store_zero [of pg snap ?d]
    by (cases "upsert_stmt ?c ?d") (simp add: on_db_def exec_calm i_def)
  let ?n = "len (t_prices (store_snapshot pg snap 4 ?d)) - len (t_prices ?d)"
  have 4: "InsertPrices (world_DataStore (repo_DataStore pg)) i ?ps (w2\<lparr>w_db := store_snapshot pg snap 0 ?d\<rparr>) =
      (Inr ?n, w2\<lparr>w_db := store_snapshot pg snap 1 ?d\<rparr>)"
    using bulk_on_store(1) [OF i_def, of pg] prices f
    by (simp add: world_DataStore_def repo_DataStore_def on_db_def inserts_eq exec_calm)
  have len: "\<not> len ?ps = 0" using prices by (simp add: len_def)
  define run where "run = (zero_IngestionRun\<lparr>run_Symbol := nsym, run_Status := ''failure'', run_StartedAt := t\<rparr>)
    \<lparr>run_CompaniesInserted := 1\<rparr>\<lparr>run_PricesInserted := ?n\<rparr>"
  have "Ingest env svc symbol w = ingest_statements env svc nsym i snap run (w2\<lparr>w_db := store_snapshot pg snap 1 ?d\<rparr>)"
    unfolding svc_def Ingest_def n Let_def 1 prod.case sum.case cmd_service 2 world_calls(1) 3 if_not_P [OF len] 4 run_def ..
  moreover obtain run' where run': "ingest_statements env svc nsym i snap run (w2\<lparr>w_db := store_snapshot pg snap 1 ?d\<rparr>) =
      ingest_finish env svc nsym run' (w2\<lparr>w_db := store_snapshot pg snap 4 ?d\<rparr>)"
    "run_Symbol run' = nsym" "run_PricesInserted run' = ?n" "run_CompaniesInserted run' = 1" "run_ErrorMessage run' = []"
    "run_IncomeInserted run' = len (t_income (store_snapshot pg snap 4 ?d)) - len (t_income ?d)"
    "run_BalanceInserted run' = len (t_balance (store_snapshot pg snap 4 ?d)) - len (t_balance ?d)"
    "run_CashFlowInserted run' = len (t_cash (store_snapshot pg snap 4 ?d)) - len (t_cash ?d)"
    using ingest_statements_calm [OF i_def, where w = "w2\<lparr>w_db := store_snapshot pg snap 1 ?d\<rparr>" and pg = pg and env = env
        and nsym = nsym and run = run and provider = provider] f
    unfolding svc_def by (auto simp: run_def zero_IngestionRun_def)
  moreover obtain t5 w5 where 5: "Now env (w2\<lparr>w_db := store_snapshot pg snap 4 ?d\<rparr>) = (t5, w5)" by force
  have w5: "w_db w5 = store_snapshot pg snap 4 ?d" using now [of "w2\<lparr>w_db := store_snapshot pg snap 4 ?d\<rparr>"] 5 by simp
  ultimately show ?thesis
    using f by (auto simp: ingest_finish_def svc_def 5 w5 Let_def invalidate_def world_DataStore_def repo_DataStore_def on_db_def
        repo_RecordRun_def exec_calm)
qed

text \<open>
  C9. An undisturbed run stores the snapshot and nothing else. When no statement fails, the fetch succeeds and the
  snapshot has a valid price (without one the run fails with \<open>ErrNoPrices\<close>), the ingestion command succeeds; the
  tables become exactly those of the specification \<open>store_snapshot\<close>, one audit row is added, and the counts of prices,
  income statements, balance sheets and cash flows it reports are the numbers of rows by which the four tables grew.
  The count of companies is always 1, also when the company was there already.
\<close>
theorem ingest_stores_snapshot:
  assumes "normalizeSymbol symbol = Inr nsym" and "validPrices (snap_Prices snap) \<noteq> []"
    and "\<And>w. w_db (snd (Now env w)) = w_db w" and "\<And>s w. w_db (snd (provider s w)) = w_db w"
    and "\<And>s w. fst (provider s w) = Inr snap" and "db_faults (w_db w) = []"
  shows "\<exists>run w'. Ingest env (cmd_IngestionService provider pg) symbol w = ((run, None), w') \<and> run_Symbol run = nsym \<and>
    run_Status run = ''success'' \<and> run_ErrorMessage run = [] \<and> run_CompaniesInserted run = 1 \<and>
    run_PricesInserted run = len (t_prices (w_db w')) - len (t_prices (w_db w)) \<and>
    run_IncomeInserted run = len (t_income (w_db w')) - len (t_income (w_db w)) \<and>
    run_BalanceInserted run = len (t_balance (w_db w')) - len (t_balance (w_db w)) \<and>
    run_CashFlowInserted run = len (t_cash (w_db w')) - len (t_cash (w_db w)) \<and>
    w_db w' = (store_snapshot pg snap 4 (w_db w))\<lparr>t_runs := t_runs (w_db w) @ [run_row run]\<rparr>"
  by (rule Ingest_calm [OF assms])

definition one_price :: CompanySnapshot where
  "one_price = \<lparr>snap_Company = \<lparr>co_Symbol = ''AAPL'', co_Name = ''Apple'', co_Exchange = [], co_Sector = [], co_Industry = [],
       co_Currency = ''USD'', co_Description = []\<rparr>,
     snap_Prices = [\<lparr>dp_Date = 86400000000000, dp_Open = 1, dp_High = 1, dp_Low = 1, dp_Close = 1, dp_Volume = 10\<rparr>],
     snap_Income = [], snap_Balance = [], snap_CashFlow = []\<rparr>"

lemma one_price: "validPrices (snap_Prices one_price) \<noteq> []" "normalizeSymbol ''AAPL'' = Inr ''AAPL''"
  by code_simp (rule normalizeSymbol_fixed, code_simp)

theorem ingest_stores_snapshot_witness:
  "\<exists>run w'. Ingest still_Env (cmd_IngestionService (\<lambda>s w. (Inr one_price, w)) plain_pg) ''AAPL'' blank_world = ((run, None), w') \<and>
     run_PricesInserted run = 1 \<and> length (t_prices (w_db w')) = 1 \<and> t_companies (w_db w') = [(1, snap_Company one_price)]"
proof -
  have "db_faults (w_db blank_world) = []" by (simp add: blank_world_def blank_db_def)
  from ingest_stores_snapshot [where env = still_Env and provider = "\<lambda>s w. (Inr one_price, w)" and pg = plain_pg,
      OF one_price(2,1) _ _ _ this]
  obtain run w' where r: "Ingest still_Env (cmd_IngestionService (\<lambda>s w. (Inr one_price, w)) plain_pg) ''AAPL'' blank_world = ((run, None), w')"
    "run_PricesInserted run = len (t_prices (w_db w')) - len (t_prices (w_db blank_world))"
    "w_db w' = (store_snapshot plain_pg one_price 4 (w_db blank_world))\<lparr>t_runs := t_runs (w_db blank_world) @ [run_row run]\<rparr>"
    by (auto simp: still_Env_def)
  have "length (t_prices (store_snapshot plain_pg one_price 4 (w_db blank_world))) = 1" by code_simp
  moreover have "t_companies (store_snapshot plain_pg one_price 4 (w_db blank_world)) = [(1, snap_Company one_price)]" by code_simp
  moreover have "t_prices (w_db blank_world) = []" by (simp add: blank_world_def blank_db_def)
  ultimately show ?thesis using r by (auto simp: len_def)
qed

text \<open>
  C4. A failed ingestion is repaired by running it again. Whatever a first attempt left behind, because the
  provider failed, statements were refused or connections broke after taking effect, an undisturbed second
  run that gets the same snapshot leaves the five data tables exactly as one undisturbed run would have.
\<close>
theorem ingest_retry_recovers:
  assumes "normalizeSymbol symbol = Inr nsym" and "validPrices (snap_Prices snap) \<noteq> []"
    and "\<And>w. w_db (snd (Now env w)) = w_db w"
    and "\<And>s w. w_db (snd (flaky s w)) = w_db w" and "\<And>s w x. fst (flaky s w) = Inr x \<Longrightarrow> x = snap"
    and "\<And>s w. w_db (snd (provider s w)) = w_db w" and "\<And>s w. fst (provider s w) = Inr snap"
    and "Ingest env (cmd_IngestionService flaky pg) symbol w = (first, w1)"
    and "Ingest env (cmd_IngestionService provider pg) symbol (w1\<lparr>w_db := db_view (w_db w1)\<rparr>) = (second, w2)"
  shows "snd second = None \<and> data_of (w_db w2) = data_of (store_snapshot pg snap 4 (w_db w))"
proof -
  let ?w1 = "w1\<lparr>w_db := db_view (w_db w1)\<rparr>"
  have "\<exists>e. reached pg snap (w_db w) e \<and> data_of (w_db (snd (Ingest env (cmd_IngestionService flaky pg) symbol w))) = data_of e \<and>
      seq_companies (w_db (snd (Ingest env (cmd_IngestionService flaky pg) symbol w))) = seq_companies e"
    by (rule Ingest_leaves [OF assms(1,3,4)]) (fact assms(5))
  then obtain e where e: "reached pg snap (w_db w) e" "data_of (w_db ?w1) = data_of e" "seq_companies (w_db ?w1) = seq_companies e"
    using assms(8) by (auto simp: db_view_def data_of_def)
  from Ingest_calm [where provider = provider and pg = pg and w = ?w1, OF assms(1-3,6,7)] assms(9)
  have "snd second = None" "data_of (w_db w2) = data_of (store_snapshot pg snap 4 (w_db ?w1))"
    by (auto simp: data_of_def db_view_def)
  with reached_restored [OF e] show ?thesis by simp
qed

definition broken_world :: world where
  "broken_world = blank_world\<lparr>w_db := blank_db\<lparr>db_faults := [None, Some (Broken ''connection reset'')]\<rparr>\<rparr>"

theorem ingest_retry_recovers_witness:
  "length (t_prices (w_db (snd (let w1 = snd (Ingest still_Env (cmd_IngestionService (\<lambda>s w. (Inr one_price, w)) plain_pg) ''AAPL'' broken_world)
     in Ingest still_Env (cmd_IngestionService (\<lambda>s w. (Inr one_price, w)) plain_pg) ''AAPL'' (w1\<lparr>w_db := db_view (w_db w1)\<rparr>))))) = 1"
proof -
  let ?p = "\<lambda>s w. (Inr one_price, w)"
  obtain a w1 where 1: "Ingest still_Env (cmd_IngestionService ?p plain_pg) ''AAPL'' broken_world = (a, w1)" by (rule prod.exhaust)
  obtain b w2 where 2: "Ingest still_Env (cmd_IngestionService ?p plain_pg) ''AAPL'' (w1\<lparr>w_db := db_view (w_db w1)\<rparr>) = (b, w2)" by (rule prod.exhaust)
  have "t_prices (w_db w2) = t_prices (store_snapshot plain_pg one_price 4 (w_db broken_world))"
    using ingest_retry_recovers [OF one_price(2,1) _ _ _ _ _ 1 2] by (simp add: still_Env_def data_of_def)
  moreover have "length (t_prices (store_snapshot plain_pg one_price 4 (w_db broken_world))) = 1" by code_simp
  ultimately show ?thesis by (simp add: Let_def 1 2)
qed

end
