(* ===== verification/Commands.thy ===== *)
theory Commands
  imports Api GoFlags Provider_Laws Ingest_System
begin

text \<open>
  The three programs, from their arguments and environment to their exit code: \<^verbatim>\<open>cmd/keygen\<close> manages API
  keys, \<^verbatim>\<open>cmd/ingest\<close> runs the ingestion over a list of symbols, and \<^verbatim>\<open>cmd/api\<close> starts the server. The
  database driver, the migrations and the Redis client are arguments, as are the context's deadline and
  sleeping; what goes to the standard output is a string, the log is left out.
\<close>

section \<open>keygen\<close>

record create_flags =
  cf_Label :: string
  cf_ExpiresIn :: string

definition createFlags :: "create_flags setters" where
  "createFlags = [(''label'', \<lambda>v f. Some (f\<lparr>cf_Label := v\<rparr>)), (''expires-in'', \<lambda>v f. Some (f\<lparr>cf_ExpiresIn := v\<rparr>))]"

definition nl :: string where "nl = [byte 10]"

definition tab :: string where "tab = [byte 9]"

definition create_output :: "APIKey \<Rightarrow> string \<Rightarrow> string" where
  "create_output key raw =
     ''key id:     '' @ show_int (key_ID key) @ nl @ ''label:      '' @ key_Label key @ nl @ ''key:        '' @ raw @ nl @
     ''store this key now; it will never be shown again'' @ nl"

definition keygen_create :: "'w Env \<Rightarrow> 'w Store \<Rightarrow> string list \<Rightarrow> 'w \<Rightarrow> (int \<times> string) res \<times> 'w" where
  "keygen_create env store args w =
     (case parse_flags createFlags args \<lparr>cf_Label = [], cf_ExpiresIn = []\<rparr> of
        Inl code \<Rightarrow> (Ok (code, []), w)
      | Inr f \<Rightarrow>
          if cf_Label f = [] then (Ok (1, []), w)
          else
            case (if cf_ExpiresIn f = [] then (Some None, w)
                  else case ParseDuration (cf_ExpiresIn f) of
                    None \<Rightarrow> (None, w)
                  | Some d \<Rightarrow> (let (now, w) = Now env w in (Some (Some (now + d)), w))) of
              (None, w) \<Rightarrow> (Ok (1, []), w)
            | (Some expiresAt, w) \<Rightarrow>
                (case Create env store (cf_Label f) expiresAt w of
                   (Err err, w) \<Rightarrow> (Ok (1, []), w)
                 | (Ok (raw, key), w) \<Rightarrow> (Ok (0, create_output key raw), w)
                 | (Panic, w) \<Rightarrow> (Panic, w)))"

text \<open>The layout \<^verbatim>\<open>time.RFC3339\<close>, for times in UTC: no fraction.\<close>

definition Format_RFC3339 :: "time \<Rightarrow> string" where
  "Format_RFC3339 t =
     (let sec = t mod (86400 * 10 ^ 9) div 10 ^ 9
      in dateFormat t @ ''T'' @ pad 2 (sec div 3600) @ '':'' @ pad 2 (sec div 60 mod 60) @ '':'' @ pad 2 (sec mod 60) @ ''Z'')"

definition formatTime :: "time option \<Rightarrow> string" where
  "formatTime t = (case t of None \<Rightarrow> ''(never)'' | Some t \<Rightarrow> Format_RFC3339 t)"

definition list_row :: "APIKey \<Rightarrow> string" where
  "list_row k = show_int (key_ID k) @ tab @ key_KeyPrefix k @ tab @ key_Label k @ tab @ Format_RFC3339 (key_CreatedAt k) @ tab @
     formatTime (key_ExpiresAt k) @ tab @ formatTime (key_RevokedAt k) @ nl"

definition list_header :: string where
  "list_header = ''id'' @ tab @ ''prefix'' @ tab @ ''label'' @ tab @ ''created'' @ tab @ tab @ ''expires'' @ tab @ tab @ tab @ tab @ tab @
     ''revoked'' @ tab @ tab @ tab @ tab @ nl"

definition keygen_list :: "'w Store \<Rightarrow> 'w \<Rightarrow> (int \<times> string) \<times> 'w" where
  "keygen_list store w =
     (case List_keys store w of
        (Inl err, w) \<Rightarrow> ((1, []), w)
      | (Inr keys, w) \<Rightarrow>
          if len keys = 0 then ((0, ''no keys'' @ nl), w) else ((0, list_header @ concat (map list_row keys)), w))"

definition revokeFlags :: "int setters" where
  "revokeFlags = [(''id'', \<lambda>v _. ParseInt0 v)]"

definition keygen_revoke :: "'w Store \<Rightarrow> string list \<Rightarrow> 'w \<Rightarrow> (int \<times> string) \<times> 'w" where
  "keygen_revoke store args w =
     (case parse_flags revokeFlags args 0 of
        Inl code \<Rightarrow> ((code, []), w)
      | Inr i \<Rightarrow>
          if i = 0 then ((1, []), w)
          else case Revoke store i w of
            (Inl err, w) \<Rightarrow> ((1, []), w)
          | (Inr _, w) \<Rightarrow> ((0, ''key '' @ show_int i @ '' revoked'' @ nl), w))"

text \<open>\<^verbatim>\<open>main\<close>: the exit code and the output. \<open>sql_Open\<close> gives the repository over the named database, or fails.\<close>

definition keygen ::
    "'w Env \<Rightarrow> (string \<Rightarrow> string) \<Rightarrow> (string \<Rightarrow> 'w Store ret) \<Rightarrow> string list \<Rightarrow> 'w \<Rightarrow> (int \<times> string) res \<times> 'w" where
  "keygen env getenv sql_Open args w =
     (if len args < 2 then (Ok (2, []), w)
      else if getenv ''DATABASE_URL'' = [] then (Ok (1, []), w)
      else case sql_Open (getenv ''DATABASE_URL'') of
        Inl err \<Rightarrow> (Ok (1, []), w)
      | Inr store \<Rightarrow>
          if args ! 1 = ''create'' then keygen_create env store (drop 2 args) w
          else if args ! 1 = ''list'' then (case keygen_list store w of (r, w) \<Rightarrow> (Ok r, w))
          else if args ! 1 = ''revoke'' then (case keygen_revoke store (drop 2 args) w of (r, w) \<Rightarrow> (Ok r, w))
          else (Ok (2, []), w))"

section \<open>ingest\<close>

record ingest_flags =
  if_Symbols :: string
  if_Delay :: int

definition ingestFlags :: "ingest_flags setters" where
  "ingestFlags = [(''symbols'', \<lambda>v f. Some (f\<lparr>if_Symbols := v\<rparr>)),
     (''delay'', \<lambda>v f. map_option (\<lambda>d. f\<lparr>if_Delay := d\<rparr>) (ParseDuration v))]"

text \<open>The loop over the symbols; \<open>expired w\<close> is \<^verbatim>\<open>ctx.Err() != nil\<close>.\<close>

fun ingest_loop ::
    "'w Env \<Rightarrow> 'w IngestionService \<Rightarrow> ('w \<Rightarrow> bool) \<Rightarrow> ('w \<Rightarrow> 'w) \<Rightarrow> string list \<Rightarrow> bool \<Rightarrow> 'w \<Rightarrow> bool \<times> 'w" where
  "ingest_loop env svc expired pause [] failed w = (failed, w)"
| "ingest_loop env svc expired pause (item # items) failed w =
     (let nsym = TrimSpace item
      in if nsym = [] \<or> expired w then ingest_loop env svc expired pause items failed w
         else
           let ((run, err), w) = Ingest env svc nsym w;
               failed = (if err \<noteq> None then True else failed)
           in ingest_loop env svc expired pause items failed (pause w))"

text \<open>\<^verbatim>\<open>main\<close>: the exit code. \<open>connect\<close> is \<^verbatim>\<open>sql.Open\<close> with the ping that follows it.\<close>

definition ingest_main ::
    "(string \<Rightarrow> string) \<Rightarrow> (string \<Rightarrow> (world, unit) call) \<Rightarrow> world Env \<Rightarrow> (string \<Rightarrow> (world, CompanySnapshot) call) \<Rightarrow> Pg \<Rightarrow>
     (world \<Rightarrow> bool) \<Rightarrow> (int \<Rightarrow> world \<Rightarrow> world) \<Rightarrow> string list \<Rightarrow> world \<Rightarrow> int \<times> world" where
  "ingest_main getenv connect env provider pg expired sleep args w =
     (case parse_flags ingestFlags (drop 1 args) \<lparr>if_Symbols = ''AAPL,MSFT'', if_Delay = 15 * 10 ^ 9\<rparr> of
        Inl code \<Rightarrow> (code, w)
      | Inr f \<Rightarrow>
          if getenv ''DATABASE_URL'' = [] \<or> getenv ''ALPHA_VANTAGE_API_KEY'' = [] then (1, w)
          else case connect (getenv ''DATABASE_URL'') w of
            (Inl err, w) \<Rightarrow> (1, w)
          | (Inr _, w) \<Rightarrow>
              (let (failed, w) = ingest_loop env (cmd_IngestionService provider pg) expired (sleep (if_Delay f))
                     (Split (CHR '','') (if_Symbols f)) False w
               in (if failed then 1 else 0, w)))"

text \<open>The provider of the command: the Alpha Vantage client with the key of the environment.\<close>

definition ingest_provider ::
    "(string \<Rightarrow> string) \<Rightarrow> (string \<Rightarrow> ('w, http_Response) call) \<Rightarrow>
     ((string \<times> priceRecord) list \<Rightarrow> (string \<times> priceRecord) list) \<Rightarrow> string \<Rightarrow> ('w, CompanySnapshot) call" where
  "ingest_provider getenv client order = FetchCompanySnapshot order (NewAlphaVantage client (getenv ''ALPHA_VANTAGE_API_KEY''))"

section \<open>api\<close>

text \<open>
  \<^verbatim>\<open>migrateUp\<close>: setting up the migrations (\<open>source\<close>) must succeed; applying them (\<open>up\<close>) must succeed or report
  that there was nothing to do. \<open>True\<close> means that the process goes on.
\<close>

definition migrateUp :: "gerror \<Rightarrow> (string \<Rightarrow> (world, unit) call) \<Rightarrow> (world, unit) call \<Rightarrow> string \<Rightarrow> world \<Rightarrow> bool \<times> world" where
  "migrateUp noChange source up dbURL w =
     (case source dbURL w of
        (Inl err, w) \<Rightarrow> (False, w)
      | (Inr _, w) \<Rightarrow>
          (case up w of
             (Inl err, w) \<Rightarrow> (errors_Is err noChange, w)
           | (Inr _, w) \<Rightarrow> (True, w)))"

text \<open>\<^const>\<open>None\<close> is the fatal end of the process.\<close>

definition mustEnv :: "(string \<Rightarrow> string) \<Rightarrow> string \<Rightarrow> string option" where
  "mustEnv getenv key = (let v = getenv key in if v = [] then None else Some v)"

text \<open>\<^verbatim>\<open>main\<close> up to \<^verbatim>\<open>r.Run\<close>: the exit code, or the handler with its address.\<close>

definition api_main ::
    "(string \<Rightarrow> string) \<Rightarrow> (string \<Rightarrow> (world, unit) call) \<Rightarrow> (string \<Rightarrow> world \<Rightarrow> bool \<times> world) \<Rightarrow>
     (string \<Rightarrow> (world, unit) call) \<Rightarrow> world Env \<Rightarrow> Pg \<Rightarrow> 'n PgNumeric \<Rightarrow> world \<Rightarrow> (int + world Handler \<times> string) \<times> world" where
  "api_main getenv connect migrate connect_redis env pg pn w =
     (case mustEnv getenv ''DATABASE_URL'' of
        None \<Rightarrow> (Inl 1, w)
      | Some dbURL \<Rightarrow>
     (case mustEnv getenv ''REDIS_URL'' of
        None \<Rightarrow> (Inl 1, w)
      | Some redisURL \<Rightarrow>
     (case connect dbURL w of
        (Inl err, w) \<Rightarrow> (Inl 1, w)
      | (Inr _, w) \<Rightarrow>
     (case migrate dbURL w of
        (False, w) \<Rightarrow> (Inl 1, w)
      | (True, w) \<Rightarrow>
     (case connect_redis redisURL w of
        (Inl err, w) \<Rightarrow> (Inl 1, w)
      | (Inr _, w) \<Rightarrow>
          (Inr (api_Handler getenv env pg pn, '':'' @ (if getenv ''PORT'' = [] then ''8080'' else getenv ''PORT'')), w))))))"

end
