(* ===== verification/Command_Laws.thy ===== *)
theory Command_Laws
  imports Commands
begin

text \<open>
  The programs together: a key that \<^verbatim>\<open>keygen\<close> prints opens the API and a key that it revokes does not; the
  exit code of \<^verbatim>\<open>ingest\<close> and the tables it leaves.
\<close>

section \<open>Keys across processes\<close>

definition world_Env :: "(nat \<Rightarrow> char) ret \<Rightarrow> time \<Rightarrow> world Env" where
  "world_Env entropy now = \<lparr>rand_Read = (\<lambda>w. (entropy, w)), Now = (\<lambda>w. (now, w))\<rparr>"

abbreviation world_keys :: "world Store" where
  "world_keys \<equiv> world_KeyStore repo_KeyStore"

lemma world_id [simp]: "w\<lparr>w_db := w_db w\<rparr> = (w :: world)"
  by simp

lemma Validate_world:
  "Validate (world_Env e n) (world_KeyStore st) raw w =
     (case Validate (fixed_Env e n) st raw (w_db w) of (r, d) \<Rightarrow> (r, w\<lparr>w_db := d\<rparr>))"
  by (cases "rawKeyRe raw")
    (simp_all add: Validate_wf Validate_malformed world_Env_def fixed_Env_def world_KeyStore_def on_db_def split: prod.splits sum.splits)

lemma GenerateRaw_world:
  "GenerateRaw (world_Env e n) w = (fst (GenerateRaw (fixed_Env e n) (w_db w)), w)"
  by (simp add: GenerateRaw_def world_Env_def fixed_Env_def Let_def split: sum.split)

lemma Create_world:
  "Create (world_Env e n) (world_KeyStore st) label ex w =
     (case Create (fixed_Env e n) st label ex (w_db w) of (r, d) \<Rightarrow> (r, w\<lparr>w_db := d\<rparr>))"
proof (cases e)
  case (Inl err)
  then show ?thesis by (simp add: Create_def GenerateRaw_world GenerateRaw_fixed)
next
  case (Inr fill)
  have "LookupPrefix (raw_of fill) = Ok (take 8 (drop 4 (raw_of fill)))"
    using rawKeyRe_length [OF raw_of_wf] by (intro LookupPrefix_Ok) simp
  moreover have "GenerateRaw (fixed_Env e n) (w_db w) = (Inr (raw_of fill), w_db w)"
    by (simp add: GenerateRaw_fixed Inr raw_of_def)
  ultimately show ?thesis
    by (simp add: Create_def GenerateRaw_world world_KeyStore_def on_db_def Let_def split: prod.splits sum.splits)
qed

lemma Revoke_world:
  "Revoke (world_KeyStore st) i w = (case Revoke st i (w_db w) of (r, d) \<Rightarrow> (r, w\<lparr>w_db := d\<rparr>))"
  by (simp add: Revoke_def world_KeyStore_def on_db_def)

lemma keygen_runs:
  assumes "sql_Open (getenv ''DATABASE_URL'') = Inr store" "keygen env getenv sql_Open (prog # cmd # args) w = (Ok (0, out), w1)"
  shows "cmd = ''create'' \<Longrightarrow> keygen_create env store args w = (Ok (0, out), w1)"
    and "cmd = ''revoke'' \<Longrightarrow> keygen_revoke store args w = ((0, out), w1)"
  using assms by (auto simp: keygen_def len_def split: if_splits prod.splits)

lemma keygen_create_Ok:
  assumes "keygen_create (world_Env e n) store args w = (Ok (0, out), w1)" "out \<noteq> []"
  obtains f raw key where "parse_flags createFlags args \<lparr>cf_Label = [], cf_ExpiresIn = []\<rparr> = Inr f"
    "Create (world_Env e n) store (cf_Label f) (if cf_ExpiresIn f = [] then None else map_option ((+) n) (ParseDuration (cf_ExpiresIn f))) w =
       (Ok (raw, key), w1)"
    "out = create_output key raw"
  using assms
  by (auto simp: keygen_create_def world_Env_def split: sum.splits if_splits option.splits prod.splits outcome.splits)

lemma keygen_revoke_Ok:
  assumes "keygen_revoke store args w = ((0, out), w1)" "out \<noteq> []"
  obtains i where "Revoke store i w = (Inr (), w1)" "out = ''key '' @ show_int i @ '' revoked'' @ nl"
  using assms by (auto simp: keygen_revoke_def split: sum.splits if_splits prod.splits)

text \<open>An ingestion is one of the steps \<open>other\<close>: it leaves the keys alone.\<close>

lemma insert_keys:
  "t_keys (snd (repo_InsertPrices pg i ps d)) = t_keys d"
  "t_keys (snd (repo_InsertIncomeStatements pg i xs d)) = t_keys d"
  "t_keys (snd (repo_InsertBalanceSheets pg i bs d)) = t_keys d"
  "t_keys (snd (repo_InsertCashFlows pg i fs d)) = t_keys d"
  "t_keys (snd (repo_UpsertCompany c d)) = t_keys d"
  "t_keys (snd (repo_RecordRun run d)) = t_keys d"
proof -
  have "t_keys (snd (bulk_insert price_key t_prices t_prices_update i rs d)) = t_keys d"
    "t_keys (snd (bulk_insert income_key t_income t_income_update i rs1 d)) = t_keys d"
    "t_keys (snd (bulk_insert balance_key t_balance t_balance_update i rs2 d)) = t_keys d"
    "t_keys (snd (bulk_insert cash_key t_cash t_cash_update i rs3 d)) = t_keys d"
    "t_keys (snd (upsert_stmt c d)) = t_keys d" for rs rs1 rs2 rs3 d
    by (simp_all add: bulk_insert_def upsert_stmt_def case_prod_beta Let_def split: option.split)
  then show "t_keys (snd (repo_InsertPrices pg i ps d)) = t_keys d" "t_keys (snd (repo_InsertIncomeStatements pg i xs d)) = t_keys d"
    "t_keys (snd (repo_InsertBalanceSheets pg i bs d)) = t_keys d" "t_keys (snd (repo_InsertCashFlows pg i fs d)) = t_keys d"
    "t_keys (snd (repo_UpsertCompany c d)) = t_keys d"
    unfolding inserts_eq upsert_eq by (simp_all add: exec_sql_field [where f = t_keys])
  show "t_keys (snd (repo_RecordRun run d)) = t_keys d"
    by (cases rule: exec_sql_cases [of "\<lambda>d. (Inr (), d\<lparr>t_runs := t_runs d @ [run_row run]\<rparr>)" d]) (auto simp: repo_RecordRun_def)
qed

lemma Ingest_key_step:
  assumes "db_inv (w_db w)" and now: "\<And>w. w_db (snd (Now env w)) = w_db w" and fetch: "\<And>s w. w_db (snd (provider s w)) = w_db w"
  shows "key_step (w_db w) (w_db (snd (Ingest env (cmd_IngestionService provider pg) symbol w)))"
proof (rule key_step.other)
  show "db_inv (w_db (snd (Ingest env (cmd_IngestionService provider pg) symbol w)))" by (rule ingest_keeps_integrity [OF assms])
  let ?s = "cmd_IngestionService provider pg" and ?P = "\<lambda>v. t_keys (w_db v) = t_keys (w_db w)"
  have st: "?P v'" if "RecordRun (world_DataStore (repo_DataStore pg)) run v = (r, v')" "?P v" for run v r v'
    using that insert_keys(6) [of run "w_db v"] by (auto simp: world_DataStore_def repo_DataStore_def on_db_eq)
  have nw: "?P v'" if "?P v" "Now env v = (t, v')" for t v v' using that now [of v] by simp
  show "?P (snd (Ingest env ?s symbol w))"
  proof (cases "normalizeSymbol symbol")
    case (Inr nsym)
    have ft: "?P v'" if "?P v" "ing_provider ?s nsym v = (r, v')" for v r v' using fetch [of nsym v] that by simp
    have "\<exists>run' w1. ?P w1 \<and> run_Symbol run' = nsym \<and> run_ErrorMessage run' = [] \<and>
      (Ingest env ?s symbol w = ingest_finish env ?s nsym run' w1 \<or>
       (\<exists>e. Ingest env ?s symbol w = ingest_fail env (ing_store ?s) run' ''failure'' (Some e) w1))"
      by (rule Ingest_outcome [where P = ?P, OF refl Inr nw ft])
        (auto simp: world_DataStore_def repo_DataStore_def on_db_eq insert_keys dest!: arg_cong [of _ "(r, d)" "\<lambda>p. t_keys (snd p)" for r d])
    then obtain run' w1 e where w1: "?P w1" and out: "Ingest env ?s symbol w = ingest_finish env ?s nsym run' w1 \<or>
      Ingest env ?s symbol w = ingest_fail env (world_DataStore (repo_DataStore pg)) run' ''failure'' (Some e) w1" by auto
    obtain t v where n: "Now env w1 = (t, v)" by force
    note v = st [OF _ nw [OF w1 n]]
    have "?P (snd (ingest_finish env ?s nsym run' w1))"
      by (auto simp: ingest_finish_def invalidate_def Let_def n dest: v split: prod.splits sum.splits)
    moreover have "?P (snd (ingest_fail env (world_DataStore (repo_DataStore pg)) run' ''failure'' (Some e) w1))"
      by (auto simp: ingest_fail_def Let_def n dest: v split: prod.splits)
    ultimately show ?thesis using out by auto
  qed (simp add: Ingest_def)
qed

lemma key_usable:
  assumes "key_step\<^sup>*\<^sup>* (w_db w1) (w_db w2)" "db_inv (w_db w1)" "k \<in> set (t_keys (w_db w1))" "db_faults (w_db w2) = []"
    and "rawKeyRe raw" "key_KeyHash k = HashKey raw" "key_KeyPrefix k = take 8 (drop 4 raw)"
  shows "\<exists>k'. key_ID k' = key_ID k \<and> Validate (world_Env entropy later) world_keys raw w2 =
    (if \<not> is_revoked (key_ID k) (w_db w2) \<and> (\<forall>t. key_ExpiresAt k = Some t \<longrightarrow> later \<le> t) then Ok k' else Err ErrInvalidKey, w2)"
proof -
  from key_steps_row [OF assms(1-3)] obtain r where
    k': "db_inv (w_db w2)" "k\<lparr>key_RevokedAt := r\<rparr> \<in> set (t_keys (w_db w2))" by blast
  obtain ks where g: "GetAPIKeysByPrefix repo_KeyStore (take 8 (drop 4 raw)) (w_db w2) = (Inr ks, w_db w2)"
    using assms(4) by (auto simp: repo_KeyStore_def repo_GetAPIKeysByPrefix_def query_ok)
  have "Validate (fixed_Env entropy later) repo_KeyStore raw (w_db w2) =
      (if active later (k\<lparr>key_RevokedAt := r\<rparr>) then Ok (k\<lparr>key_RevokedAt := r\<rparr>) else Err ErrInvalidKey, w_db w2)"
    using repo_keys.Validate_complete [OF k'(1) assms(5) k'(2) _ _ g, of "fixed_Env entropy later"] assms(6,7)
    by (simp add: fixed_Env_def)
  moreover have "active later (k\<lparr>key_RevokedAt := r\<rparr>) \<longleftrightarrow>
      \<not> is_revoked (key_ID k) (w_db w2) \<and> (\<forall>t. key_ExpiresAt k = Some t \<longrightarrow> later \<le> t)"
    using is_revoked_row [OF k'] by (auto simp: active_def split: option.splits)
  ultimately show ?thesis by (intro exI [of _ "k\<lparr>key_RevokedAt := r\<rparr>"]) (simp add: Validate_world)
qed

text \<open>
  C8. A key that is printed opens the API until it expires or is revoked, and not longer. When \<^verbatim>\<open>keygen create\<close> exits with 0
  and prints a key, then after whatever happens to the database later (further keys created, validated or revoked,
  ingestions, failures), as long as the database answers the request itself, that text sent as \<^verbatim>\<open>X-API-Key\<close> to
  the API on the same database passes authentication with the printed id, from any address, if the key is not
  revoked and the clock has not passed the expiry asked for (none without \<^verbatim>\<open>--expires-in\<close>); otherwise it is refused.
\<close>
theorem issued_key_is_served:
  assumes "keygen (world_Env entropy now) getenv sql_Open (prog # ''create'' # args) w = (Ok (0, out), w1)" and "out \<noteq> []"
    and "sql_Open (getenv ''DATABASE_URL'') = Inr (world_KeyStore repo_KeyStore)" and "db_inv (w_db w)"
  shows "\<exists>f raw key. parse_flags createFlags args \<lparr>cf_Label = [], cf_ExpiresIn = []\<rparr> = Inr f \<and> out = create_output key raw \<and>
    key_Label key = cf_Label f \<and> \<not> is_revoked (key_ID key) (w_db w1) \<and>
    key_ExpiresAt key = (if cf_ExpiresIn f = [] then None else map_option ((+) now) (ParseDuration (cf_ExpiresIn f))) \<and>
    (\<forall>w2 c later entropy'. key_step\<^sup>*\<^sup>* (w_db w1) (w_db w2) \<longrightarrow> db_faults (w_db w2) = [] \<longrightarrow> c_Header c ''X-API-Key'' = raw \<longrightarrow>
      (if \<not> is_revoked (key_ID key) (w_db w2) \<and> (\<forall>t. key_ExpiresAt key = Some t \<longrightarrow> later \<le> t)
       then authRequire (api_Handler genv (world_Env entropy' later) pg pn) c w2 = (Next (c\<lparr>c_keyID := Some (key_ID key)\<rparr>), w2)
       else \<exists>resp. fst (authRequire (api_Handler genv (world_Env entropy' later) pg pn) c w2) = Abort resp))"
proof -
  from keygen_create_Ok [OF keygen_runs(1) [where getenv = getenv and prog = prog, OF assms(3,1) refl] assms(2)] obtain f raw key where
    f: "parse_flags createFlags args \<lparr>cf_Label = [], cf_ExpiresIn = []\<rparr> = Inr f" and out: "out = create_output key raw" and
    cr: "Create (world_Env entropy now) world_keys (cf_Label f)
      (if cf_ExpiresIn f = [] then None else map_option ((+) now) (ParseDuration (cf_ExpiresIn f))) w = (Ok (raw, key), w1)"
    by metis
  let ?ex = "if cf_ExpiresIn f = [] then None else map_option ((+) now) (ParseDuration (cf_ExpiresIn f))"
  from cr have db: "Create (fixed_Env entropy now) repo_KeyStore (cf_Label f) ?ex (w_db w) = (Ok (raw, key), w_db w1)"
    by (auto simp: Create_world split: prod.splits)
  from Create_Ok [OF db assms(4)] obtain t where c: "rawKeyRe raw" "db_inv (w_db w1)" "key_KeyHash key = HashKey raw"
    "key_KeyPrefix key = take 8 (drop 4 raw)" "key_Label key = cf_Label f" "key_ExpiresAt key = ?ex"
    "t_keys (w_db w1) = t_keys (w_db w) @ [key\<lparr>key_CreatedAt := t, key_RevokedAt := None\<rparr>]" by blast
  let ?k = "key\<lparr>key_CreatedAt := t, key_RevokedAt := None\<rparr>"
  have k: "?k \<in> set (t_keys (w_db w1))" by (simp add: c(7))
  have "\<not> is_revoked (key_ID key) (w_db w1)" using is_revoked_row [OF c(2) k] by simp
  moreover have "if \<not> is_revoked (key_ID key) (w_db w2) \<and> (\<forall>t. key_ExpiresAt key = Some t \<longrightarrow> later \<le> t)
       then authRequire (api_Handler genv (world_Env entropy' later) pg pn) c w2 = (Next (c\<lparr>c_keyID := Some (key_ID key)\<rparr>), w2)
       else \<exists>resp. fst (authRequire (api_Handler genv (world_Env entropy' later) pg pn) c w2) = Abort resp"
    if "key_step\<^sup>*\<^sup>* (w_db w1) (w_db w2)" "db_faults (w_db w2) = []" "c_Header c ''X-API-Key'' = raw" for w2 c later entropy'
    using key_usable [OF that(1) c(2) k that(2) c(1), of entropy' later] c(3,4) that(3)
    by (auto simp: authRequire_def api_Handler_fields(2) split: prod.splits option.splits)
  ultimately show ?thesis using f out c(5,6) by blast
qed

definition the_db :: "string \<Rightarrow> world Store ret" where
  "the_db url = Inr world_keys"

abbreviation some_env :: "string \<Rightarrow> string" where
  "some_env \<equiv> \<lambda>_. ''x''"

lemma blank_db_fresh: "w_db blank_world = fresh_db [] 1"
  by (simp add: blank_world_def blank_db_def fresh_db_def)

lemma blank_inv: "db_inv (w_db blank_world)"
  unfolding blank_db_fresh by (intro fresh_db_inv) (simp add: keys_inv_def fresh_db_def)

theorem issued_key_is_served_witness:
  "\<exists>out w1 raw key. keygen (world_Env (Inr (\<lambda>_. byte 0)) 5) some_env the_db [''keygen'', ''create'', ''--label'', ''ops''] blank_world =
       (Ok (0, out), w1) \<and> out = create_output key raw \<and> key_Label key = ''ops'' \<and>
     authRequire (api_Handler some_env (world_Env (Inr (\<lambda>_. byte 1)) 7) plain_pg rat_numeric) (blank_request\<lparr>c_Header := (\<lambda>_. raw)\<rparr>) w1 =
       (Next (blank_request\<lparr>c_Header := (\<lambda>_. raw), c_keyID := Some (key_ID key)\<rparr>), w1)"
proof -
  let ?e = "world_Env (Inr (\<lambda>_. byte 0)) 5" and ?raw = "raw_of (\<lambda>_. byte 0)"
  let ?k = "(issued ?raw ''ops'' None)\<lparr>key_ID := 1\<rparr>"
  let ?w1 = "blank_world\<lparr>w_db := fresh_db [(issued ?raw ''ops'' None)\<lparr>key_ID := 1, key_CreatedAt := 0\<rparr>] 2\<rparr>"
  have f: "parse_flags createFlags [''--label'', ''ops''] \<lparr>cf_Label = [], cf_ExpiresIn = []\<rparr> = Inr \<lparr>cf_Label = ''ops'', cf_ExpiresIn = []\<rparr>"
    by (simp add: parse_flags.simps(2) createFlags_def)
  have c: "Create ?e world_keys ''ops'' None blank_world = (Ok (?raw, ?k), ?w1)"
    using Create_fresh [of "\<lambda>_. byte 0" "[]" 5 "''ops''" None 1] by (simp add: Create_world blank_db_fresh)
  have k: "keygen ?e some_env the_db [''keygen'', ''create'', ''--label'', ''ops''] blank_world = (Ok (0, create_output ?k ?raw), ?w1)"
    by (simp add: keygen_def the_db_def len_def keygen_create_def f c)
  have q: "db_faults (w_db ?w1) = []" by (simp add: fresh_db_def)
  have o: "create_output ?k ?raw \<noteq> []" "the_db (some_env ''DATABASE_URL'') = Inr world_keys" by (simp_all add: create_output_def the_db_def)
  from issued_key_is_served [where genv = some_env and pg = plain_pg and pn = rat_numeric, OF k o blank_inv] f obtain raw key where
    r: "create_output ?k ?raw = create_output key raw" "key_Label key = ''ops''" "\<not> is_revoked (key_ID key) (w_db ?w1)" "key_ExpiresAt key = None"
    and a: "\<forall>w2 c later entropy'. key_step\<^sup>*\<^sup>* (w_db ?w1) (w_db w2) \<longrightarrow> db_faults (w_db w2) = [] \<longrightarrow> c_Header c ''X-API-Key'' = raw \<longrightarrow>
      (if \<not> is_revoked (key_ID key) (w_db w2) \<and> (\<forall>t. key_ExpiresAt key = Some t \<longrightarrow> later \<le> t)
       then authRequire (api_Handler some_env (world_Env entropy' later) plain_pg rat_numeric) c w2 = (Next (c\<lparr>c_keyID := Some (key_ID key)\<rparr>), w2)
       else \<exists>resp. fst (authRequire (api_Handler some_env (world_Env entropy' later) plain_pg rat_numeric) c w2) = Abort resp)"
    by force
  from a [THEN spec [of _ ?w1], THEN spec [of _ "blank_request\<lparr>c_Header := (\<lambda>_. raw)\<rparr>"], THEN spec [of _ 7], THEN spec [of _ "Inr (\<lambda>_. byte 1)"]]
    r(3,4) q
  have "authRequire (api_Handler some_env (world_Env (Inr (\<lambda>_. byte 1)) 7) plain_pg rat_numeric) (blank_request\<lparr>c_Header := (\<lambda>_. raw)\<rparr>) ?w1 =
       (Next (blank_request\<lparr>c_Header := (\<lambda>_. raw), c_keyID := Some (key_ID key)\<rparr>), ?w1)" by simp
  with k r(1,2) show ?thesis by metis
qed

text \<open>
  C7. A key that is revoked does not. When \<^verbatim>\<open>keygen revoke\<close> exits with 0 and reports the key, then whatever
  happens to the database afterwards (creations, validations, further revocations, ingestions, failures, any clock), no request
  passes the API's authentication with that key's id.
\<close>
theorem revoked_key_is_refused:
  assumes "keygen env getenv sql_Open (prog # ''revoke'' # args) w = (Ok (0, out), w1)" and "out \<noteq> []"
    and "sql_Open (getenv ''DATABASE_URL'') = Inr (world_KeyStore repo_KeyStore)" and "db_inv (w_db w)"
  shows "\<exists>i. out = ''key '' @ show_int i @ '' revoked'' @ nl \<and>
    (\<forall>w2 c c' w3 entropy later. key_step\<^sup>*\<^sup>* (w_db w1) (w_db w2) \<longrightarrow>
      authRequire (api_Handler genv (world_Env entropy later) pg pn) c w2 = (Next c', w3) \<longrightarrow> c_keyID c' \<noteq> Some i)"
proof -
  from keygen_revoke_Ok [OF keygen_runs(2) [where getenv = getenv and prog = prog, OF assms(3,1) refl] assms(2)] obtain i where
    rv: "Revoke world_keys i w = (Inr (), w1)" and out: "out = ''key '' @ show_int i @ '' revoked'' @ nl" by metis
  from rv have "Revoke repo_KeyStore i (w_db w) = (Inr (), w_db w1)" by (auto simp: Revoke_world split: prod.splits)
  from Revoke_revokes [OF assms(4) this] have w1: "db_inv (w_db w1)" "is_revoked i (w_db w1)" by auto
  have "c_keyID c' \<noteq> Some i" if "key_step\<^sup>*\<^sup>* (w_db w1) (w_db w2)"
    and a: "authRequire (api_Handler genv (world_Env entropy later) pg pn) c w2 = (Next c', w3)" for w2 c c' w3 entropy later
  proof -
    from a obtain k d where v: "Validate (fixed_Env entropy later) repo_KeyStore (c_Header c ''X-API-Key'') (w_db w2) = (Ok k, d)"
      and c': "c' = c\<lparr>c_keyID := Some (key_ID k)\<rparr>"
      by (auto simp: authRequire_def api_Handler_fields(2) Validate_world split: prod.splits outcome.splits option.splits)
    from revoked_not_valid [OF _ _ v] key_steps_keep [OF that(1) w1(1)] w1(2) c' show ?thesis by simp
  qed
  with out show ?thesis by blast
qed

theorem revoked_key_is_refused_witness:
  "\<exists>out w1. keygen still_Env some_env the_db [''keygen'', ''revoke'', ''--id'', ''1''] (blank_world\<lparr>w_db := fresh_db [lone_key\<lparr>key_ID := 1\<rparr>] 2\<rparr>) =
       (Ok (0, out), w1) \<and>
     (\<forall>c'. authRequire (api_Handler some_env (world_Env (Inr (\<lambda>_. byte 1)) 7) plain_pg rat_numeric)
       (blank_request\<lparr>c_Header := (\<lambda>_. raw_of (\<lambda>_. byte 0))\<rparr>) w1 \<noteq> (Next (c'\<lparr>c_keyID := Some 1\<rparr>), w1))"
proof -
  let ?w = "blank_world\<lparr>w_db := fresh_db [lone_key\<lparr>key_ID := 1\<rparr>] 2\<rparr>"
  have "ParseInt0 ''1'' = Some 1" by code_simp
  then have f: "parse_flags revokeFlags [''--id'', ''1''] 0 = Inr 1" by (simp add: parse_flags.simps(2) revokeFlags_def)
  obtain w1 where r: "Revoke world_keys 1 ?w = (Inr (), w1)"
    by (simp add: Revoke_def world_KeyStore_def on_db_def repo_KeyStore_def repo_RevokeAPIKey_def exec_sql_def next_fault_def fresh_db_def lone_key_def Let_def len_def)
  let ?out = "''key '' @ show_int 1 @ '' revoked'' @ nl"
  have k: "keygen still_Env some_env the_db [''keygen'', ''revoke'', ''--id'', ''1''] ?w = (Ok (0, ?out), w1)"
    by (simp add: keygen_def the_db_def len_def keygen_revoke_def f r)
  have inv: "db_inv (w_db ?w)" by (simp, intro fresh_db_inv) (simp add: keys_inv_def fresh_db_def lone_key_def)
  have o: "?out \<noteq> []" "the_db (some_env ''DATABASE_URL'') = Inr world_keys" by (simp_all add: the_db_def)
  from revoked_key_is_refused [where genv = some_env and pg = plain_pg and pn = rat_numeric, OF k o inv] obtain i where
    i: "?out = ''key '' @ show_int i @ '' revoked'' @ nl" and
    a: "\<forall>w2 c c' w3 e t. key_step\<^sup>*\<^sup>* (w_db w1) (w_db w2) \<longrightarrow>
      authRequire (api_Handler some_env (world_Env e t) plain_pg rat_numeric) c w2 = (Next c', w3) \<longrightarrow> c_keyID c' \<noteq> Some i" by metis
  have "i = 1" using i show_int_inject [of i 1] by simp
  with a have "authRequire (api_Handler some_env (world_Env (Inr (\<lambda>_. byte 1)) 7) plain_pg rat_numeric) c w1 \<noteq> (Next (c'\<lparr>c_keyID := Some 1\<rparr>), w1)" for c c'
    by force
  with k show ?thesis by blast
qed

text \<open>
  The documented lifetime is refused. The help text of \<^verbatim>\<open>--expires-in\<close> offers \<^verbatim>\<open>365d\<close> as its example; a number of days
  is no duration for Go, so for every number of days \<^verbatim>\<open>keygen create\<close> exits with 1 and creates no key.
\<close>
theorem keygen_rejects_days:
  "keygen_create env store [''--label'', label, ''--expires-in'', show_nat n @ ''d''] w = (Ok (1, []), w)"
proof -
  have "parse_flags createFlags [''--label'', label, ''--expires-in'', show_nat n @ ''d''] \<lparr>cf_Label = [], cf_ExpiresIn = []\<rparr> =
      Inr \<lparr>cf_Label = label, cf_ExpiresIn = show_nat n @ ''d''\<rparr>"
    by (simp add: parse_flags.simps(2) createFlags_def)
  then show ?thesis by (simp add: keygen_create_def ParseDuration_days)
qed

section \<open>A batch of ingestions\<close>

lemma loop_other:
  assumes "\<And>w. w_db (snd (Now env w)) = w_db w" "\<And>s w. w_db (snd (provider s w)) = w_db w" "\<And>w. w_db (pause w) = w_db w"
    and "\<And>s w x. fst (provider s w) = Inr x \<Longrightarrow> co_Symbol (snap_Company x) = s"
    and "db_inv (w_db w)" and "\<forall>item \<in> set items. normalizeSymbol (TrimSpace item) \<noteq> Inr t"
  shows "symbol_data (w_db (snd (ingest_loop env (cmd_IngestionService provider pg) expired pause items failed w))) t = symbol_data (w_db w) t"
  using assms(5,6)
proof (induction items arbitrary: failed w)
  case (Cons item items)
  obtain run err w1 where i: "Ingest env (cmd_IngestionService provider pg) (TrimSpace item) w = ((run, err), w1)" by (metis surj_pair)
  have "db_inv (w_db (snd (Ingest env (cmd_IngestionService provider pg) (TrimSpace item) w)))"
    by (rule ingest_keeps_integrity [OF Cons.prems(1) assms(1,2)])
  moreover have "symbol_data (w_db (snd (Ingest env (cmd_IngestionService provider pg) (TrimSpace item) w))) t = symbol_data (w_db w) t"
    using Cons.prems by (intro Ingest_other assms(1,2,4)) (auto simp: db_inv_def)
  ultimately have "db_inv (w_db (pause w1))" "symbol_data (w_db (pause w1)) t = symbol_data (w_db w) t" using i assms(3) by simp_all
  with Cons show ?case by (simp add: i Let_def)
qed simp

text \<open>
  C16. A batch touches only the symbols it is given. When the provider answers with the symbol it was asked for, then
  whatever else it delivers, wherever statements are refused or connections break and whenever the deadline
  strikes, a run of the ingestion command leaves everything the tables hold about any other symbol as it was: the
  company, its prices, income statements, balance sheets and cash flows, and so the results specified for it.
\<close>
theorem batch_touches_only_its_symbols:
  assumes "db_inv (w_db w)" and "ingest_main getenv connect env provider pg expired sleep args w = (code, w')"
    and "\<And>w. w_db (snd (Now env w)) = w_db w" and "\<And>s w. w_db (snd (provider s w)) = w_db w"
    and "\<And>url w. w_db (snd (connect url w)) = w_db w" and "\<And>d w. w_db (sleep d w) = w_db w"
    and "\<And>s w x. fst (provider s w) = Inr x \<Longrightarrow> co_Symbol (snap_Company x) = s"
    and "\<And>f item. parse_flags ingestFlags (drop 1 args) \<lparr>if_Symbols = ''AAPL,MSFT'', if_Delay = 15 * 10 ^ 9\<rparr> = Inr f \<Longrightarrow>
      item \<in> set (Split (CHR '','') (if_Symbols f)) \<Longrightarrow> normalizeSymbol (TrimSpace item) \<noteq> Inr t"
  shows "symbol_data (w_db w') t = symbol_data (w_db w) t \<and>
    db_analytics (w_db w') t = db_analytics (w_db w) t \<and> db_technical (w_db w') t = db_technical (w_db w) t"
proof -
  obtain r w1 where c: "connect (getenv ''DATABASE_URL'') w = (r, w1)" by force
  have w1: "w_db w1 = w_db w" using assms(5) [of "getenv ''DATABASE_URL''" w] c by simp
  have "symbol_data (w_db w') t = symbol_data (w_db w) t"
  proof (cases "parse_flags ingestFlags (drop 1 args) \<lparr>if_Symbols = ''AAPL,MSFT'', if_Delay = 15 * 10 ^ 9\<rparr>")
    case (Inl code)
    with assms(2) show ?thesis by (simp add: ingest_main_def)
  next
    case (Inr f)
    have "symbol_data (w_db (snd (ingest_loop env (cmd_IngestionService provider pg) expired (sleep (if_Delay f))
        (Split (CHR '','') (if_Symbols f)) False w1))) t = symbol_data (w_db w1) t"
      using assms(1,8) Inr w1 by (intro loop_other assms(3,4,6,7)) auto
    then show ?thesis using assms(2) Inr w1 c
      by (auto simp: ingest_main_def Let_def split: sum.splits if_splits prod.splits)
  qed
  with symbol_data_results [OF this] show ?thesis by blast
qed

definition msft_world :: world where
  "msft_world = blank_world\<lparr>w_db := (w_db blank_world)\<lparr>seq_companies := 2,
     t_companies := [(1, (snap_Company one_price)\<lparr>co_Symbol := ''MSFT''\<rparr>)],
     t_prices := map (\<lambda>p. (1, p)) (snap_Prices one_price)\<rparr>\<rparr>"

theorem batch_touches_only_its_symbols_witness:
  "symbol_data (w_db (snd (ingest_main some_env (\<lambda>url w. (Inr (), w)) still_Env
     (\<lambda>s w. (Inr (one_price\<lparr>snap_Company := (snap_Company one_price)\<lparr>co_Symbol := s\<rparr>\<rparr>), w)) plain_pg (\<lambda>w. False) (\<lambda>d w. w)
     [''ingest'', ''-symbols=AAPL''] msft_world))) ''MSFT'' = symbol_data (w_db msft_world) ''MSFT''"
proof -
  have f: "parse_flags ingestFlags (drop 1 [''ingest'', ''-symbols=AAPL'']) \<lparr>if_Symbols = ''AAPL,MSFT'', if_Delay = 15 * 10 ^ 9\<rparr> =
      Inr \<lparr>if_Symbols = ''AAPL'', if_Delay = 15 * 10 ^ 9\<rparr>"
    by (simp add: parse_flags.simps(2) ingestFlags_def)
  have t: "TrimSpace ''AAPL'' = ''AAPL''" by code_simp
  have "db_inv (w_db msft_world)"
    using blank_inv by (simp add: msft_world_def db_inv_def companies_inv_def rows_inv_def keys_inv_def one_price_def blank_world_def blank_db_def)
  then show ?thesis
    by (rule batch_touches_only_its_symbols [OF _ surjective_pairing, THEN conjunct1]) (use f t one_price(2) in \<open>auto simp: still_Env_def\<close>)
qed

lemma loop_success:
  assumes now: "\<And>w. w_db (snd (Now env w)) = w_db w" and fetch: "\<And>s w. w_db (snd (provider s w)) = w_db w"
    and pause: "\<And>w. w_db (pause w) = w_db w"
    and "ingest_loop env (cmd_IngestionService provider pg) (\<lambda>_. False) pause items failed w = (False, w')"
  shows "\<not> failed \<and> set (t_runs (w_db w)) \<subseteq> set (t_runs (w_db w')) \<and>
    (\<forall>item \<in> set items. TrimSpace item \<noteq> [] \<longrightarrow> (\<exists>row \<in> set (t_runs (w_db w')).
      normalizeSymbol (TrimSpace item) = Inr (rr_Symbol row) \<and> rr_Status row = ''success''))"
  using assms(4)
proof (induction items arbitrary: failed w)
  case (Cons item items)
  show ?case
  proof (cases "TrimSpace item = []")
    case False
    obtain run err w1 where i: "Ingest env (cmd_IngestionService provider pg) (TrimSpace item) w = ((run, err), w1)" by (metis surj_pair)
    with Cons.prems False have "ingest_loop env (cmd_IngestionService provider pg) (\<lambda>_. False) pause items
        (if err \<noteq> None then True else failed) (pause w1) = (False, w')" by (simp add: Let_def)
    note IH = Cons.IH [OF this]
    then have err: "err = None" and nf: "\<not> failed" by (auto split: if_splits)
    obtain nsym where n: "normalizeSymbol (TrimSpace item) = Inr nsym" using i err by (cases "normalizeSymbol (TrimSpace item)") (auto simp: Ingest_def)
    have "run_Symbol run = nsym" "run_Status run = ''success''" "t_runs (w_db w1) = t_runs (w_db w) @ [run_row run]"
      using Ingest_world_audited [OF i n now fetch] world_audit.record_run err by fastforce+
    then have "\<exists>row \<in> set (t_runs (w_db (pause w1))). normalizeSymbol (TrimSpace item) = Inr (rr_Symbol row) \<and> rr_Status row = ''success''"
      "set (t_runs (w_db w)) \<subseteq> set (t_runs (w_db (pause w1)))"
      using n by (auto simp: pause run_row_def)
    with IH nf show ?thesis by auto
  next
    case True
    with Cons.prems have "ingest_loop env (cmd_IngestionService provider pg) (\<lambda>_. False) pause items failed w = (False, w')" by simp
    from Cons.IH [OF this] True show ?thesis by auto
  qed
qed simp

text \<open>
  C15. Exit code 0 means that everything was ingested. If the deadline does not strike and \<^verbatim>\<open>ingest\<close>, with flags that parse, exits
  with 0, then every symbol of the list that is not blank was acceptable and has a run with status success in
  the audit table; conversely any failed symbol makes the code 1.
\<close>
theorem batch_exit_zero:
  assumes "parse_flags ingestFlags (drop 1 args) \<lparr>if_Symbols = ''AAPL,MSFT'', if_Delay = 15 * 10 ^ 9\<rparr> = Inr f"
    and "ingest_main getenv connect env provider pg (\<lambda>_. False) sleep args w = (0, w')"
    and "\<And>w. w_db (snd (Now env w)) = w_db w" and "\<And>s w. w_db (snd (provider s w)) = w_db w"
    and "\<And>d w. w_db (sleep d w) = w_db w"
    and "item \<in> set (Split (CHR '','') (if_Symbols f))" and "TrimSpace item \<noteq> []"
  shows "\<exists>row \<in> set (t_runs (w_db w')). normalizeSymbol (TrimSpace item) = Inr (rr_Symbol row) \<and> rr_Status row = ''success''"
proof -
  obtain w1 where "ingest_loop env (cmd_IngestionService provider pg) (\<lambda>_. False) (sleep (if_Delay f))
      (Split (CHR '','') (if_Symbols f)) False w1 = (False, w')"
    using assms(1,2) by (auto simp: ingest_main_def Let_def split: if_splits prod.splits sum.splits)
  from loop_success [OF assms(3,4,5) this] assms(6,7) show ?thesis by blast
qed

theorem batch_exit_zero_witness:
  "\<exists>w'. ingest_main some_env (\<lambda>url w. (Inr (), w)) still_Env (\<lambda>s w. (Inr one_price, w)) plain_pg (\<lambda>w. False) (\<lambda>d w. w)
       [''ingest'', ''-symbols=AAPL''] blank_world = (0, w') \<and>
     (\<exists>row \<in> set (t_runs (w_db w')). rr_Symbol row = ''AAPL'' \<and> rr_Status row = ''success'')"
proof -
  have f: "parse_flags ingestFlags (drop 1 [''ingest'', ''-symbols=AAPL'']) \<lparr>if_Symbols = ''AAPL,MSFT'', if_Delay = 15 * 10 ^ 9\<rparr> =
      Inr \<lparr>if_Symbols = ''AAPL'', if_Delay = 15 * 10 ^ 9\<rparr>"
    by (simp add: parse_flags.simps(2) ingestFlags_def)
  have t: "TrimSpace ''AAPL'' = ''AAPL''" by code_simp
  have q: "db_faults (w_db blank_world) = []" by (simp add: blank_world_def blank_db_def)
  obtain run w1 where "Ingest still_Env (cmd_IngestionService (\<lambda>s w. (Inr one_price, w)) plain_pg) ''AAPL'' blank_world = ((run, None), w1)"
    using Ingest_calm [where env = still_Env and provider = "\<lambda>s w. (Inr one_price, w)" and pg = plain_pg, OF one_price(2,1) _ _ _ q]
    by (auto simp: still_Env_def)
  then have m: "ingest_main some_env (\<lambda>url w. (Inr (), w)) still_Env (\<lambda>s w. (Inr one_price, w)) plain_pg (\<lambda>w. False) (\<lambda>d w. w)
      [''ingest'', ''-symbols=AAPL''] blank_world = (0, w1)"
    using f by (simp add: ingest_main_def t)
  have "\<exists>row \<in> set (t_runs (w_db w1)). normalizeSymbol (TrimSpace ''AAPL'') = Inr (rr_Symbol row) \<and> rr_Status row = ''success''"
    by (rule batch_exit_zero [OF f m]) (simp_all add: still_Env_def t)
  with m one_price(2) t show ?thesis by auto
qed

text \<open>
  The deadline is silent. Once the command's five minutes have passed, the remaining symbols are skipped and the exit
  code does not change: if they pass while connecting, nothing at all is ingested and the command exits with 0.
\<close>
theorem deadline_is_silent:
  assumes "parse_flags ingestFlags (drop 1 args) \<lparr>if_Symbols = ''AAPL,MSFT'', if_Delay = 15 * 10 ^ 9\<rparr> = Inr f"
    and "getenv ''DATABASE_URL'' \<noteq> []" and "getenv ''ALPHA_VANTAGE_API_KEY'' \<noteq> []"
    and "connect (getenv ''DATABASE_URL'') w = (Inr (), w1)" and "expired w1"
  shows "ingest_main getenv connect env provider pg expired sleep args w = (0, w1)"
proof -
  have "ingest_loop env svc expired pause items failed w1 = (failed, w1)" for svc pause items failed
    using assms(5) by (induction items) (simp_all add: Let_def)
  with assms(1-4) show ?thesis by (simp add: ingest_main_def)
qed

theorem deadline_is_silent_witness:
  "ingest_main some_env (\<lambda>url w. (Inr (), w)) still_Env (\<lambda>s w. (Inr one_price, w)) plain_pg (\<lambda>w. True) (\<lambda>d w. w)
     [''ingest''] blank_world = (0, blank_world)"
  by (rule deadline_is_silent [where f = "\<lparr>if_Symbols = ''AAPL,MSFT'', if_Delay = 15 * 10 ^ 9\<rparr>"]) simp_all

end
