(* ===== verification/Staleness.thy ===== *)
theory Staleness
  imports Freshness
begin

text \<open>
  How long ingestion can leave the API with stale results. Entries of the cache carry their time of expiry and
  a hit does not renew it, so an entry that outlives an ingestion by the time-to-live was written after it,
  from the new rows.
\<close>

section \<open>What the running API does to the entries\<close>

abbreviation entry :: "world \<Rightarrow> string \<Rightarrow> (string \<times> time option) option" where
  "entry w k \<equiv> rs_data (w_redis w) (''fda:'' @ k)"

abbreviation server_clock :: "world \<Rightarrow> time" where
  "server_clock w \<equiv> rs_now (w_redis w)"

text \<open>A value under a key that, if it decodes as a computed result, is the one the tables specify.\<close>

definition sound_entry :: "db \<Rightarrow> string \<Rightarrow> string \<Rightarrow> bool" where
  "sound_entry d k v \<longleftrightarrow>
     (\<forall>nsym x. k = ''analytics:'' @ nsym \<longrightarrow> Unmarshal analytics_codec v = Inr x \<longrightarrow> db_analytics d nsym = Ok x) \<and>
     (\<forall>nsym x. k = ''technical:'' @ nsym \<longrightarrow> Unmarshal technical_codec v = Inr x \<longrightarrow> db_technical d nsym = Ok x)"

lemma sound_entry_cong: "db_view d' = db_view d \<Longrightarrow> sound_entry d' = sound_entry d"
  using db_spec_cong [of d' d] by (simp add: sound_entry_def [abs_def])

lemma sound_counter: "take 3 k = ''rl:'' \<Longrightarrow> sound_entry d k v"
  by (auto simp: sound_entry_def)

lemma cached_entry: "cached w k = Some v \<longleftrightarrow> (\<exists>ex. entry w k = Some (v, ex) \<and> alive (server_clock w) ex)"
  by (auto simp: cached_def ref_entries_def live_def split: option.splits if_splits)

lemma cache_coherent_entries: "cache_coherent w \<longleftrightarrow> (\<forall>k v. cached w k = Some v \<longrightarrow> sound_entry (w_db w) k v)"
  unfolding cache_coherent_def sound_entry_def by blast

text \<open>
  The tables stay, the clock does not go back, and every entry was there before, is a counter, or is a sound
  result written since, with the full time to live.
\<close>

definition evolves :: "world \<Rightarrow> world \<Rightarrow> bool" where
  "evolves w w' \<longleftrightarrow> db_view (w_db w') = db_view (w_db w) \<and> server_clock w \<le> server_clock w' \<and>
     (\<forall>k v ex. entry w' k = Some (v, ex) \<longrightarrow> entry w k = Some (v, ex) \<or> take 3 k = ''rl:'' \<or>
        sound_entry (w_db w) k v \<and> (\<exists>t. server_clock w \<le> t \<and> t \<le> server_clock w' \<and> ex = Some (t + cache_ttl)))"

lemma evolvesI:
  assumes "db_view (w_db w') = db_view (w_db w)" "server_clock w \<le> server_clock w'"
    and "\<And>k v ex. entry w' k = Some (v, ex) \<Longrightarrow> entry w k = Some (v, ex) \<or> take 3 k = ''rl:''"
  shows "evolves w w'"
  using assms unfolding evolves_def by blast

lemma evolves_refl [simp]: "evolves w w"
  by (simp add: evolves_def)

lemma evolves_entry:
  assumes "evolves w w'" "entry w' k = Some (v, ex)" "take 3 k \<noteq> ''rl:''" "entry w k \<noteq> Some (v, ex)"
  obtains t where "sound_entry (w_db w) k v" "server_clock w \<le> t" "t \<le> server_clock w'" "ex = Some (t + cache_ttl)"
  using assms unfolding evolves_def by blast

lemma evolves_trans:
  assumes "evolves w w1" "evolves w1 w2"
  shows "evolves w w2"
proof -
  have c: "db_view (w_db w1) = db_view (w_db w)" "db_view (w_db w2) = db_view (w_db w)" "server_clock w \<le> server_clock w1" "server_clock w1 \<le> server_clock w2"
    using assms by (simp_all add: evolves_def)
  have "sound_entry (w_db w) k v \<and> (\<exists>t. server_clock w \<le> t \<and> t \<le> server_clock w2 \<and> ex = Some (t + cache_ttl))"
    if e: "entry w2 k = Some (v, ex)" "take 3 k \<noteq> ''rl:''" "entry w k \<noteq> Some (v, ex)" for k v ex
  proof (cases "entry w1 k = Some (v, ex)")
    case True
    from evolves_entry [OF assms(1) this e(2,3)] c(4) show ?thesis by (meson order.trans)
  next
    case False
    from evolves_entry [OF assms(2) e(1,2) False] c(3) sound_entry_cong [OF c(1)] show ?thesis by (metis order.trans)
  qed
  with c show ?thesis unfolding evolves_def by (meson order.trans)
qed

lemma evolves_on_db: "db_view (snd (f (w_db w))) = db_view (w_db w) \<Longrightarrow> evolves w (snd (on_db f w))"
  by (rule evolvesI) (auto simp: on_db_def split: prod.splits)

lemma evolves_read:
  "w_redis w' = w_redis w \<Longrightarrow> db_view (w_db w') = db_view (w_db w) \<Longrightarrow> evolves w w'"
  by (rule evolvesI) auto

section \<open>The commands\<close>

lemma command_data:
  "rs_data (snd (command cmd s)) \<in> {rs_data s} \<union> {rs_data (snd (cmd (s\<lparr>rs_faults := fs\<rparr>))) | fs. True}"
  "(\<And>s. rs_now (snd (cmd s)) = rs_now s) \<Longrightarrow> rs_now (snd (command cmd s)) = rs_now s"
  by (cases rule: command_cases [of cmd s]; auto)+

lemma evolves_Get: "evolves w (snd (cache_Get api_cache k w))"
proof (rule evolvesI)
  let ?s = "snd (command (ref_Get (''fda:'' @ k)) (w_redis w))"
  have w: "snd (cache_Get api_cache k w) = w\<lparr>w_redis := ?s\<rparr>"
    by (simp add: api_cache_def Redis_Cache_calls client_cache_def world_client_def ref_client_def on_redis_def case_prod_beta)
  have "rs_data ?s = rs_data (w_redis w) \<and> rs_now ?s = rs_now (w_redis w)"
    by (cases rule: command_cases [of "ref_Get (''fda:'' @ k)" "w_redis w"]) (auto simp: ref_Get_def split: option.splits)
  then show "server_clock w \<le> server_clock (snd (cache_Get api_cache k w))"
    "entry (snd (cache_Get api_cache k w)) j = Some (v, ex) \<Longrightarrow> entry w j = Some (v, ex) \<or> take 3 j = ''rl:''" for j v ex
    by (simp_all add: w)
  show "db_view (w_db (snd (cache_Get api_cache k w))) = db_view (w_db w)" by (simp add: w)
qed

lemma cache_ttl_pos: "0 < cache_ttl"
  by (simp add: cache_ttl_def)

lemma evolves_Set:
  assumes "sound_entry (w_db w) k v"
  shows "evolves w (snd (cache_Set api_cache k v w))"
proof -
  let ?s = "snd (command (ref_Set (''fda:'' @ k) v cache_ttl) (w_redis w))"
  have w: "snd (cache_Set api_cache k v w) = w\<lparr>w_redis := ?s\<rparr>"
    by (simp add: api_cache_def Redis_Cache_calls client_cache_def world_client_def ref_client_def on_redis_def case_prod_beta)
  have "rs_now ?s = rs_now (w_redis w)" and
    "rs_data ?s = rs_data (w_redis w) \<or> rs_data ?s = (rs_data (w_redis w))(''fda:'' @ k \<mapsto> (v, Some (rs_now (w_redis w) + cache_ttl)))"
    by (cases rule: command_cases [of "ref_Set (''fda:'' @ k) v cache_ttl" "w_redis w"]; simp add: ref_Set_def cache_ttl_pos)+
  with assms show ?thesis by (auto simp: evolves_def w split: if_splits)
qed

lemma evolves_Allow: "evolves w (snd (Allow (rate_NewRedis world_client lmt window) key w))"
proof -
  let ?d = "\<lambda>s. \<forall>j. j \<noteq> rkey key \<longrightarrow> rs_data s j = rs_data (w_redis w) j"
  have cmd: "?d (snd (command (ref_Incr (rkey key)) s)) \<and> rs_now (snd (command (ref_Incr (rkey key)) s)) = rs_now s"
    "?d (snd (command (ref_Expire (rkey key) window) s)) \<and> rs_now (snd (command (ref_Expire (rkey key) window) s)) = rs_now s"
    if "?d s" for s
  proof -
    show "?d (snd (command (ref_Incr (rkey key)) s)) \<and> rs_now (snd (command (ref_Incr (rkey key)) s)) = rs_now s"
      using that by (cases rule: command_cases [of "ref_Incr (rkey key)" s]) (auto simp: ref_Incr_def split: option.splits)
    show "?d (snd (command (ref_Expire (rkey key) window) s)) \<and> rs_now (snd (command (ref_Expire (rkey key) window) s)) = rs_now s"
      using that by (cases rule: command_cases [of "ref_Expire (rkey key) window" s]) (auto simp: ref_Expire_def split: option.splits)
  qed
  let ?w' = "snd (Allow (rate_NewRedis world_client lmt window) key w)"
  obtain s1 s2 where "w_redis ?w' \<in> {s1, s2}" "s1 = snd (command (ref_Incr (rkey key)) (w_redis w))"
    "s2 = snd (command (ref_Expire (rkey key) window) s1)"
    by (auto simp: Allow_def rate_NewRedis_def world_client_def ref_client_def on_redis_def Let_def split: prod.splits sum.splits)
  with cmd(1) [of "w_redis w"] cmd(2) [of s1] have d: "?d (w_redis ?w')" "server_clock ?w' = server_clock w" by auto
  have "take 3 k = ''rl:''" if "''fda:'' @ k = rkey key" for k using that by auto
  with d(1) have "entry ?w' k = entry w k \<or> take 3 k = ''rl:''" for k by metis
  with d(2) show ?thesis by (intro evolvesI) (simp_all add: limit_cached(2) [of "[]"], metis)
qed

section \<open>Steps\<close>

lemma on_db_calls_redis:
  assumes "q_store s = world_QueryStore st"
  shows "w_redis (snd (analytics_read s nsym w)) = w_redis w" "w_redis (snd (technical_read s nsym w)) = w_redis w"
  unfolding analytics_read_def technical_read_def assms
  by (auto simp: world_QueryStore_def on_db_eq split: prod.splits sum.splits)

lemma evolves_read_through:
  assumes "\<And>w. evolves w (snd (compute w))"
    and "\<And>w x d. fst (compute w) = Ok x \<Longrightarrow> Marshal json x = Inr d \<Longrightarrow> sound_entry (w_db w) k d"
  shows "evolves w (snd (read_through json (Some api_cache) k compute w))"
proof -
  obtain h w1 where 1: "cachedResult json api_cache k w = (h, w1)" by force
  have "snd (cachedResult json api_cache k w) = snd (cache_Get api_cache k w)"
    by (auto simp: cachedResult_def split: prod.splits sum.splits)
  then have e1: "evolves w w1" using evolves_Get [of w k] 1 by simp
  obtain q w2 where 2: "compute w1 = (q, w2)" by force
  have e2: "evolves w w2" using evolves_trans [OF e1] assms(1) [of w1] 2 by simp
  have e3: "evolves w (storeResult json api_cache k x w2)" if "q = Ok x" for x
  proof (cases "Marshal json x")
    case (Inr d)
    have "db_view (w_db w2) = db_view (w_db w1)" using assms(1) [of w1] 2 by (simp add: evolves_def)
    then have "sound_entry (w_db w2) k d" using assms(2) [of w1 x d] 2 that Inr by (simp add: sound_entry_cong [of "w_db w2" "w_db w1"])
    from evolves_trans [OF e2 evolves_Set [OF this]] Inr show ?thesis by (simp add: storeResult_def)
  qed (simp add: storeResult_def e2)
  show ?thesis using 1 2 e1 e2 e3 by (cases h; cases q) (auto simp: read_through_def)
qed

lemma evolves_GetAnalytics: "evolves w (snd (GetAnalytics analytics_codec (the_repo pg scr) symbol w))"
proof (cases "normalizeSymbol symbol")
  case (Inr nsym)
  have valid: "IsValidSymbol nsym" using Inr by (metis normalizeSymbol_Inr)
  note laws = sys.analytics_read_agrees [OF api_service(1) surjective_pairing, of pg scr nsym, folded db_analytics_def]
  have "evolves w (snd (read_through analytics_codec (Some api_cache) (''analytics:'' @ nsym) (analytics_read (the_repo pg scr) nsym) w))"
  proof (rule evolves_read_through)
    fix w x d assume "fst (analytics_read (the_repo pg scr) nsym w) = Ok x" and m: "Marshal analytics_codec x = Inr d"
    with laws [of w] have s: "db_analytics (w_db w) nsym = Ok x" by (simp add: agrees_def db_analytics_def)
    then have "ar_Symbol x = nsym" unfolding db_analytics_def by (rule spec_symbol)
    with analytics_roundtrip [OF _ m] valid_symbol_ascii [OF valid] have "Unmarshal analytics_codec d = Inr x" by simp
    with s show "sound_entry (w_db w) (''analytics:'' @ nsym) d" by (simp add: sound_entry_def)
  qed (use laws on_db_calls_redis(1) [OF api_service(1)] in \<open>auto intro: evolves_read\<close>)
  with Inr show ?thesis by (simp add: GetAnalytics_def)
qed (simp add: GetAnalytics_def)

lemma evolves_GetTechnical: "evolves w (snd (GetTechnical technical_codec (the_repo pg scr) symbol w))"
proof (cases "normalizeSymbol symbol")
  case (Inr nsym)
  have valid: "IsValidSymbol nsym" using Inr by (metis normalizeSymbol_Inr)
  note laws = sys.technical_read_agrees [OF api_service(1) surjective_pairing, of pg scr nsym, folded db_technical_def]
  have "evolves w (snd (read_through technical_codec (Some api_cache) (''technical:'' @ nsym) (technical_read (the_repo pg scr) nsym) w))"
  proof (rule evolves_read_through)
    fix w x d assume "fst (technical_read (the_repo pg scr) nsym w) = Ok x" and m: "Marshal technical_codec x = Inr d"
    with laws [of w] have s: "db_technical (w_db w) nsym = Ok x" by (simp add: agrees_def db_technical_def)
    then have "tr_Symbol x = nsym" unfolding db_technical_def by (rule spec_symbol)
    with technical_roundtrip [OF _ m] valid_symbol_ascii [OF valid] have "Unmarshal technical_codec d = Inr x" by simp
    with s show "sound_entry (w_db w) (''technical:'' @ nsym) d" by (simp add: sound_entry_def)
  qed (use laws on_db_calls_redis(2) [OF api_service(1)] in \<open>auto intro: evolves_read\<close>)
  with Inr show ?thesis by (simp add: GetTechnical_def)
qed (simp add: GetTechnical_def)

lemma evolves_compare_results: "evolves w (snd (compare_results analytics_codec (the_repo pg scr) ns out w))"
proof (induction ns arbitrary: out w)
  case (Cons n ns)
  obtain q w1 where "GetAnalytics analytics_codec (the_repo pg scr) n w = (q, w1)" by force
  with evolves_GetAnalytics [of w pg scr n] Cons.IH [where w = w1] show ?case by (cases q) (auto intro: evolves_trans)
qed simp

lemma api_step_evolves:
  assumes "api_step (repo_QueryStore pg scr) w w'"
  shows "evolves w w'"
  using assms
proof cases
  case (compare raw mx)
  then show ?thesis by (simp add: Compare_def evolves_compare_results split: sum.split)
next
  case (evict data)
  then show ?thesis by (auto intro!: evolvesI simp: map_le_Some)
qed (auto simp: evolves_GetAnalytics evolves_GetTechnical evolves_Allow intro!: evolvesI)

lemma api_run_evolves: "(api_step (repo_QueryStore pg scr))\<^sup>*\<^sup>* w w' \<Longrightarrow> evolves w w'"
  by (induction rule: rtranclp_induct) (auto intro: evolves_trans api_step_evolves)

section \<open>Staleness is bounded\<close>

text \<open>Every entry that is not a counter is due within the time to live.\<close>

definition expiring :: "world \<Rightarrow> bool" where
  "expiring w \<longleftrightarrow> (\<forall>k v ex. entry w k = Some (v, ex) \<longrightarrow> take 3 k \<noteq> ''rl:'' \<longrightarrow> (\<exists>t. ex = Some t \<and> t \<le> server_clock w + cache_ttl))"

lemma expiring_evolves: "expiring w \<Longrightarrow> evolves w w' \<Longrightarrow> expiring w'"
  unfolding expiring_def evolves_def by (meson add_right_mono order.trans)

lemma coherent_after_ttl:
  assumes "expiring w" "evolves w w'" "server_clock w + cache_ttl \<le> server_clock w'"
  shows "cache_coherent w'"
  unfolding cache_coherent_entries
proof (intro allI impI)
  fix k v assume "cached w' k = Some v"
  then obtain ex where ex: "entry w' k = Some (v, ex)" "alive (server_clock w') ex" by (auto simp: cached_entry)
  have s: "sound_entry (w_db w') = sound_entry (w_db w)" using assms(2) by (intro sound_entry_cong) (simp add: evolves_def)
  show "sound_entry (w_db w') k v"
  proof (cases "take 3 k = ''rl:''")
    case False
    have "entry w k \<noteq> Some (v, ex)" using assms(1,3) ex(2) False by (force simp: expiring_def)
    with assms(2) ex(1) False show ?thesis unfolding evolves_def s by blast
  qed (rule sound_counter)
qed

text \<open>
  C6. Staleness ends. The API runs from a state in which every cached result is due within 15 minutes (an empty cache, say);
  the ingestion command stores what it likes; the API runs on, answering from stale entries meanwhile. As soon
  as 15 minutes have passed since the ingestion, every result in the cache is again what the tables specify:
  a hit never renews an entry, and whatever was written since was computed from the new rows.
\<close>
theorem staleness_ends:
  assumes "expiring w" and "(api_step (repo_QueryStore pg scr))\<^sup>*\<^sup>* w w1"
    and "Ingest env (cmd_IngestionService provider pg) symbol w1 = (run, w2)"
    and "\<And>w. w_redis (snd (Now env w)) = w_redis w" and "\<And>s w. w_redis (snd (provider s w)) = w_redis w"
    and "(api_step (repo_QueryStore pg scr))\<^sup>*\<^sup>* w2 w3" and "server_clock w1 + cache_ttl \<le> server_clock w3"
  shows "cache_coherent w3"
proof -
  have "w_redis (snd (Ingest env (cmd_IngestionService provider pg) symbol w1)) = w_redis w1"
    by (rule ingest_keeps_redis [OF refl assms(4,5)])
  then have r: "w_redis w2 = w_redis w1" using assms(3) by simp
  have "expiring w1" by (rule expiring_evolves [OF assms(1) api_run_evolves [OF assms(2)]])
  with r have "expiring w2" by (simp add: expiring_def)
  from coherent_after_ttl [OF this api_run_evolves [OF assms(6)]] assms(7) r show ?thesis by simp
qed

theorem staleness_ends_witness:
  "cache_coherent (let w = snd (Ingest still_Env (cmd_IngestionService (\<lambda>s w. (Inl (Foreign ''down''), w)) plain_pg) ''BRK.B'' blank_world)
     in w\<lparr>w_redis := (w_redis w)\<lparr>rs_now := rs_now (w_redis w) + cache_ttl\<rparr>\<rparr>)"
proof -
  let ?prov = "\<lambda>s w. (Inl (Foreign ''down'') :: CompanySnapshot ret, w :: world)"
  let ?w = "snd (Ingest still_Env (cmd_IngestionService ?prov plain_pg) ''BRK.B'' blank_world)"
  let ?q = "repo_QueryStore plain_pg (\<lambda>f d. (Inr [], d))"
  have "(api_step ?q)\<^sup>*\<^sup>* ?w (?w\<lparr>w_redis := (w_redis ?w)\<lparr>rs_now := rs_now (w_redis ?w) + cache_ttl\<rparr>\<rparr>)"
    by (rule r_into_rtranclp, rule api_step.tick) (simp add: cache_ttl_def)
  moreover have "w_redis ?w = w_redis blank_world" by (rule ingest_keeps_redis) (simp_all add: still_Env_def)
  ultimately show ?thesis
    unfolding Let_def
    by (intro staleness_ends [where w = blank_world and ?w1.0 = blank_world and env = still_Env and provider = ?prov
        and pg = plain_pg and symbol = "''BRK.B''" and scr = "\<lambda>f d. (Inr [], d)", OF _ _ surjective_pairing])
      (simp_all add: expiring_def blank_world_def still_Env_def)
qed

end
