(* ===== verification/Spec2Isabelle.thy ===== *)
theory Spec2Isabelle
  imports Command_Laws Staleness
begin

text \<open>
  A verification development for \<^verbatim>\<open>finance-analytics-api\<close>, a REST service in Go that ingests company
  fundamentals and daily prices from Alpha Vantage into PostgreSQL and serves them with computed metrics and
  technical indicators, behind API keys, a rate limiter and a Redis cache.

  \<^bold>\<open>The program's parts.\<close> Three processes share one database. \<^verbatim>\<open>cmd/keygen\<close> creates, lists and revokes API keys
  (\<^verbatim>\<open>internal/auth\<close>). \<^verbatim>\<open>cmd/ingest\<close> fetches a snapshot per symbol (\<^verbatim>\<open>internal/provider\<close>), filters its rows and
  stores them idempotently with an audit row (\<^verbatim>\<open>internal/service/ingestion.go\<close>, \<^verbatim>\<open>internal/repository\<close>).
  \<^verbatim>\<open>cmd/api\<close> serves requests: \<^verbatim>\<open>internal/handler\<close> authenticates, counts (\<^verbatim>\<open>internal/rate\<close>) and answers from
  \<^verbatim>\<open>internal/service\<close>, which reads the repository, computes with \<^verbatim>\<open>internal/analytics\<close> and keeps results in
  Redis (\<^verbatim>\<open>internal/cache\<close>).

  \<^bold>\<open>Conventions.\<close> A Go call on shared state is a function from a world to a result and a world: \<open>('w, 'a) call\<close> with
  an error or a value, or \<open>'a res\<close> with \<open>Ok\<close>, \<open>Err\<close> and \<open>Panic\<close> where the code indexes slices. Errors are values
  of \<open>gerror\<close> with the wrapping that \<^verbatim>\<open>errors.Is\<close> follows. Interfaces are records of operations, constructors
  take them as arguments; their contracts are locales (\<open>key_store\<close>, \<open>query_contract\<close>, \<open>cache_contract\<close>,
  \<open>redis_cache\<close>, \<open>cached_query\<close>, \<open>audit_store\<close> and others), in which the clients' lemmas are proved once; each is
  interpreted on the repository, on the Redis client or on the whole system.

  \<^bold>\<open>Theories, in the order of their dependencies.\<close>

    \<^item> \<open>Prelude\<close>: results, errors, slices, lists of Go; lemmas and collections that every theory uses.
    \<^item> \<open>Float64\<close>: IEEE-754 binary64 with round-to-nearest-even, executable on rationals, with error bounds.
    \<^item> \<open>Analytics\<close>, \<open>Technical\<close>, \<open>Indicators\<close>, \<open>Indicator_Laws\<close>: \<^verbatim>\<open>internal/analytics\<close>. When each metric is defined,
      its rounding error and sign; every indicator's length, that none panics, exactness of the moving average
      and of the average volume, the range of the RSI, the recurrence of the EMA, and what NaN does to them.
    \<^item> \<open>Models\<close>: \<^verbatim>\<open>internal/models\<close>. \<open>GoStd\<close>, \<open>GoFloat\<close>, \<open>GoTime\<close>, \<open>GoFlags\<close>, \<open>Sha256\<close>, \<open>Json\<close>, \<open>Json_Laws\<close>: what the code uses of
      Go's standard library: text, numbers and their shortest form, dates, flags and durations, SHA-256 and JSON,
      with the round trips between printing and parsing.
    \<^item> \<open>Auth\<close>, \<open>Key_Lifecycle\<close>: \<^verbatim>\<open>internal/auth\<close>. Only stored, active keys validate; revocation is final.
    \<^item> \<open>Cache\<close>, \<open>Rate\<close>, \<open>Rate_Window\<close>: \<^verbatim>\<open>internal/cache\<close>, \<^verbatim>\<open>internal/rate\<close> and a reference Redis server with a clock,
      expiry and failing commands. The exact answers of a window, the bound over any interval of its length, and how a
      refused EXPIRE turns the limit of a window into one for all time.
    \<^item> \<open>Ingestion\<close>, \<open>Query\<close>, \<open>Query_Laws\<close>: \<^verbatim>\<open>internal/service\<close>. Which texts are symbols and what becomes of them, which rows
      are kept, and the refinement of the computed results through the read-through cache.
    \<^item> \<open>Repository\<close>, \<open>Repository_Laws\<close>, \<open>Repository_Contracts\<close>, \<open>Screener_SQL\<close>: \<^verbatim>\<open>internal/repository\<close>. The tables as
      lists of rows, each SQL statement as an operation on them that the server may refuse or whose connection
      may break after it took effect; the schema's invariant; the contracts above; the screener's selection.
    \<^item> \<open>Result_Codec\<close>: the JSON of cached results is read back exactly.
    \<^item> \<open>System\<close>, \<open>Freshness\<close>, \<open>Staleness\<close>, \<open>Ingest_System\<close>: the world of database and Redis. The cache stays coherent while
      the API runs and nobody ingests; ingestion leaves it stale for at most its time to live; what a run stores, its
      audit row and its repair by a second run. Theorems that need a coherent cache say so: \<open>cache_coherent\<close> is a premise.
    \<^item> \<open>Provider\<close>, \<open>Provider_Laws\<close>: \<^verbatim>\<open>internal/provider\<close>. The snapshot does not depend on map iteration, published
      prices are read as the nearest float64 and volumes exactly, and failures are classified.
    \<^item> \<open>Handlers\<close>, \<open>Handler_Laws\<close>, \<open>Responses\<close>: \<^verbatim>\<open>internal/handler\<close>. The two gates, the endpoints, the arguments they
      pass on, and the documents of responses.
    \<^item> \<open>Api\<close>, \<open>Commands\<close>, \<open>Command_Laws\<close>: \<^verbatim>\<open>cmd\<close>. Every request is safe, the computed endpoints report the tables or an
      entry cached for the symbol and stay available without Redis, printed keys open the API until they expire or
      are revoked, a batch touches only its symbols, and what its exit code means.

  \<^bold>\<open>Bounds and fuel.\<close> No definition runs on fuel: recursion is structural or has a termination proof. Square roots are
  rounded exactly (\<open>fsqrt\<close> compares squares), the constants of SHA-256 come from integer roots of 38 bits, and the shortest decimal is searched up to 17 digits before
  the exact expansion, which is never needed for a float64. JSON nesting is limited to 10000 levels and
  exponents are clamped at 10000, as in Go; response bodies of the provider are cut at 4 MiB, as in the code.
  Integers are mathematical where the code cannot leave 64 bits and wrapped where it can (indices of the RSI,
  durations, flags).

  \<^bold>\<open>Arguments of the model.\<close> The HTTP client, the SQL driver, the migration library and the Redis connection; randomness,
  the clock, deadlines and sleeping; PostgreSQL's rounding of NUMERIC columns, its NUMERIC arithmetic and its
  collation; the order of Go's map iteration; the table of printable characters of \<^verbatim>\<open>strconv.Quote\<close>. Theorems name
  what they need of them as hypotheses, and their witnesses instantiate them.

  \<^bold>\<open>How to read the specifications.\<close> \<open>db_analytics\<close> and \<open>db_technical\<close> say what the tables specify for a symbol. \<open>agrees\<close> relates a
  result to them: a value and the three sentinel errors must be theirs, any other error (a failed statement) is
  left open; where the database answers, the theorems on availability and on \<open>Compare\<close> exclude such errors. \<open>store_snapshot\<close>
  composes the statements that the model uses itself, so it pins what \<open>Ingest\<close> does with them and in which order;
  the statements have their own lemmas in \<open>Repository_Laws\<close>. Like PostgreSQL, they refuse rows that violate the
  keys and foreign keys of the schema. The columns of \<open>db\<close> that hold company data are never NULL, as
  the program writes no NULL there.

  \<^bold>\<open>Not modelled.\<close> Logging; Gin's path matching, its recovery from panics and the HTTP transport; the migration scripts, whose
  tables are the record \<open>db\<close>; cancellation of a single statement, which is one of the failures a statement may
  have; concurrency inside one process (requests interleave as whole calls)
  and between the processes within one call (an ingestion is one step towards the API); fused multiply-add, which the Go
  compiler uses on some architectures but not on amd64; the microsecond rounding of timestamps; the order of
  rows that tie under ORDER BY; numeric zone offsets in cached timestamps; upper-casing outside ASCII beyond the
  two characters whose upper case is ASCII; float conversions out of the range of int64 follow amd64.
\<close>

end
